(* ===== verification/Jool_Prelude.thy ===== *)
theory Jool_Prelude
  imports Main "HOL-Library.Word" "HOL-Library.Monad_Syntax" "HOL-Library.Product_Lexorder"
    "HOL-Library.Tree"
begin

text \<open>
  Shared vocabulary of the development: the machine integers of the C code, its error codes,
  protocols and verdicts, the shape of its callback-driven loops, and generic facts on words,
  lists and options that the component theories use.
\<close>

unbundle bit_operations_syntax

section \<open>Machine integers\<close>

type_synonym u8 = "8 word"
type_synonym u16 = "16 word"
type_synonym u32 = "32 word"
type_synonym u64 = "64 word"

text \<open>Pointers to the objects of a heap.\<close>

type_synonym ptr = nat

section \<open>Collections of rewrite rules\<close>

text \<open>
  \<open>bit_defs\<close> turns the byte and quadrant accesses of the address code into statements on
  single bits; \<open>frame_simps\<close> collects the fields an operation leaves alone.
\<close>

named_theorems bit_defs
named_theorems frame_simps

section \<open>Error codes, protocols, verdicts\<close>

text \<open>
  The C functions return 0, a negative errno value or, for iteration callbacks, a positive
  "stop" value. A fallible function of the model returns a sum (\<open>Inl\<close> the errno); a callback
  returns a \<open>status\<close>.
\<close>

datatype errno = EPERM | ESRCH | EAGAIN | ENOMEM | EEXIST | EINVAL | E2BIG | ENOSPC

datatype status = Ok | Stop | Err errno

datatype l3_protocol = L3PROTO_IPV6 | L3PROTO_IPV4

datatype l4_protocol = L4PROTO_TCP | L4PROTO_UDP | L4PROTO_ICMP | L4PROTO_OTHER

datatype verdict = VERDICT_CONTINUE | VERDICT_DROP | VERDICT_ACCEPT | VERDICT_STOLEN

text \<open>Whether the module was built as the stateless or as the stateful translator.\<close>

datatype xlat_type = XLAT_SIIT | XLAT_NAT64

definition is_error :: "errno + 'a \<Rightarrow> bool" where
  "is_error r = (case r of Inl _ \<Rightarrow> True | Inr _ \<Rightarrow> False)"

section \<open>Loops that call back\<close>

text \<open>
  \<open>foreach_cb f xs s\<close> runs \<open>f\<close> on the elements of \<open>xs\<close> in order, threading the state \<open>s\<close>,
  until \<open>f\<close> returns something other than \<open>Ok\<close>: the \<open>error = func(...); if (error) break;\<close>
  loops of the C code.
\<close>

fun foreach_cb :: "('a \<Rightarrow> 's \<Rightarrow> status \<times> 's) \<Rightarrow> 'a list \<Rightarrow> 's \<Rightarrow> status \<times> 's" where
  "foreach_cb f [] s = (Ok, s)"
| "foreach_cb f (x # xs) s =
     (case f x s of (r, s') \<Rightarrow> if r = Ok then foreach_cb f xs s' else (r, s'))"

lemma foreach_cb_append:
  "foreach_cb f (xs @ ys) s =
     (case foreach_cb f xs s of (r, s') \<Rightarrow> if r = Ok then foreach_cb f ys s' else (r, s'))"
  by (induction xs arbitrary: s) (auto split: prod.splits)

lemma foreach_cb_inv:
  assumes "P s" "\<And>x s r s'. x \<in> set xs \<Longrightarrow> P s \<Longrightarrow> f x s = (r, s') \<Longrightarrow> P s'"
    "foreach_cb f xs s = (r, s')"
  shows "P s'"
  using assms
proof (induction xs arbitrary: s)
  case Nil
  then show ?case by simp
next
  case (Cons x xs)
  obtain r1 s1 where fx: "f x s = (r1, s1)" by fastforce
  have "P s1" using Cons.prems(1) Cons.prems(2) [of x s r1 s1] fx by simp
  moreover have "foreach_cb f xs s1 = (r, s')" if "r1 = Ok" using that Cons.prems(3) fx by simp
  moreover have "s' = s1" if "r1 \<noteq> Ok" using that Cons.prems(3) fx by simp
  ultimately show ?case using Cons.IH [of s1] Cons.prems(2) by (cases "r1 = Ok") auto
qed

section \<open>Lists\<close>

lemma takeWhile_dropWhile_filter:
  "filter P xs = takeWhile P xs @ filter P (dropWhile P xs)"
  by (induction xs) auto

lemma length_Suc_remove1: "x \<in> set xs \<Longrightarrow> length xs = Suc (length (remove1 x xs))"
  by (induction xs) auto

lemma find_SomeD: "find P xs = Some x \<Longrightarrow> x \<in> set xs \<and> P x"
  by (auto simp: find_Some_iff)

section \<open>Words\<close>

lemma word_eq_iff_bits: "(a :: 'a::len word) = b \<longleftrightarrow> (\<forall>n < LENGTH('a). bit a n = bit b n)"
  by (auto simp: bit_eq_iff)

lemma unat_u16_bound [simp]: "unat (w :: u16) < 65536"
  using unsigned_less [of w, where 'a = nat] by simp

lemma unat_u8_bound [simp]: "unat (w :: u8) < 256"
  using unsigned_less [of w, where 'a = nat] by simp

lemma unat_u32_bound [simp]: "unat (w :: u32) < 4294967296"
  using unsigned_less [of w, where 'a = nat] by simp

text \<open>The sign of \<open>memcmp\<close> on two big-endian integers of the same width.\<close>

definition cmp_word :: "'a::len word \<Rightarrow> 'a word \<Rightarrow> int" where
  "cmp_word a b = (if a < b then -1 else if a = b then 0 else 1)"

lemma cmp_word_sign [simp]:
  "cmp_word a b < 0 \<longleftrightarrow> a < b"
  "cmp_word a b > 0 \<longleftrightarrow> a > b"
  "cmp_word a b = 0 \<longleftrightarrow> a = b"
  by (auto simp: cmp_word_def)

lemma unat_inc:
  fixes x y :: "'a::len word"
  assumes "x < y"
  shows "unat (x + 1) = unat x + 1"
proof -
  have "unat x + 1 \<le> unat y" using assms by (simp add: word_less_nat_alt)
  also have "unat y < 2 ^ LENGTH('a)" by simp
  finally show ?thesis by (simp add: unat_word_ariths)
qed

lemma word_eq_iff_allbits: "(a :: 'a::len word) = b \<longleftrightarrow> (\<forall>n. bit a n = bit b n)"
  by (auto simp: bit_eq_iff dest: bit_imp_le_length)

lemma drop_bit_eq_iff_bits:
  fixes a b :: "'a::len word"
  shows "drop_bit n a = drop_bit n b \<longleftrightarrow> (\<forall>i. n \<le> i \<longrightarrow> i < LENGTH('a) \<longrightarrow> bit a i = bit b i)"
proof -
  have "drop_bit n a = drop_bit n b \<longleftrightarrow> (\<forall>k. bit a (n + k) = bit b (n + k))"
    by (simp only: word_eq_iff_allbits) (auto simp: bit_drop_bit_eq)
  also have "\<dots> \<longleftrightarrow> (\<forall>i. n \<le> i \<longrightarrow> bit a i = bit b i)"
    by (auto simp: le_iff_add)
  also have "\<dots> \<longleftrightarrow> (\<forall>i. n \<le> i \<longrightarrow> i < LENGTH('a) \<longrightarrow> bit a i = bit b i)"
    by (auto dest: bit_imp_le_length)
  finally show ?thesis .
qed

lemma unat_take_bit_mod: "unat (take_bit n (w :: 'a::len word)) = unat w mod 2 ^ n"
  by (simp only: unsigned_take_bit_eq) (simp add: take_bit_eq_mod)

lemma unat_drop_bit_div: "unat (drop_bit n (w :: 'a::len word)) = unat w div 2 ^ n"
  by (simp only: unsigned_drop_bit_eq) (simp add: drop_bit_eq_div take_bit_nat_eq_self)

lemma unat_ucast_up:
  assumes "LENGTH('a) \<le> LENGTH('b)"
  shows "unat (ucast (w :: 'a::len word) :: 'b::len word) = unat w"
proof -
  have "unat w < 2 ^ LENGTH('a)" by simp
  also have "\<dots> \<le> 2 ^ LENGTH('b)" using assms by simp
  finally show ?thesis
    by (simp add: unsigned_ucast_eq take_bit_nat_eq_self)
qed

lemma word_of_nat_inj_on: "inj_on (word_of_nat :: nat \<Rightarrow> 'a::len word) {..<2 ^ LENGTH('a)}"
  by (rule inj_onI) (metis lessThan_iff of_nat_inverse)

text \<open>An array access that faults (\<open>None\<close>) out of bounds.\<close>

definition list_at :: "'a list \<Rightarrow> nat \<Rightarrow> 'a option" where
  "list_at xs i = (if i < length xs then Some (xs ! i) else None)"

lemma list_at_simps [simp]:
  "i < length xs \<Longrightarrow> list_at xs i = Some (xs ! i)"
  "length xs \<le> i \<Longrightarrow> list_at xs i = None"
  by (simp_all add: list_at_def)

lemma set_takeWhile_dropWhile_sorted:
  fixes k :: "'a \<Rightarrow> 'k::linorder"
  assumes "sorted_wrt (\<lambda>a b. k a < k b) xs"
    "\<And>x y. x \<in> set xs \<Longrightarrow> y \<in> set xs \<Longrightarrow> low \<le> k x \<Longrightarrow> k x < k y \<Longrightarrow> Q y \<Longrightarrow> Q x"
  shows "set (takeWhile Q (dropWhile (\<lambda>x. k x < low) xs)) = {x \<in> set xs. low \<le> k x \<and> Q x}"
  using assms
proof (induction xs)
  case (Cons a xs)
  have "sorted_wrt (\<lambda>a b. k a < k b) xs" using Cons.prems(1) by simp
  then have IH: "set (takeWhile Q (dropWhile (\<lambda>x. k x < low) xs)) = {x \<in> set xs. low \<le> k x \<and> Q x}"
    by (rule Cons.IH) (rule Cons.prems(2); simp)
  show ?case
  proof (cases "k a < low")
    case True
    then have "\<not> low \<le> k a" by order
    moreover have "dropWhile (\<lambda>x. k x < low) (a # xs) = dropWhile (\<lambda>x. k x < low) xs" using True by simp
    ultimately show ?thesis using IH by (metis (mono_tags, lifting) set_ConsD list.set_intros(2) Collect_cong)
  next
    case False
    have above: "k a < k x" if "x \<in> set xs" for x using Cons.prems(1) that by simp
    have "\<not> k x < low" if "x \<in> set xs" for x using above [OF that] False by order
    then have d: "dropWhile (\<lambda>x. k x < low) xs = xs"
      by (cases xs) simp_all
    have n: "\<not> Q x" if "\<not> Q a" "x \<in> set xs" for x
      using Cons.prems(2) [of a x] above [OF that(2)] False that by (simp add: not_less) blast
    have e: "set (takeWhile Q xs) = {x \<in> set xs. low \<le> k x \<and> Q x}" using IH unfolding d .
    have w: "set (takeWhile Q (dropWhile (\<lambda>x. k x < low) (a # xs))) =
      (if Q a then insert a (set (takeWhile Q xs)) else {})"
      using False d by (cases "Q a") simp_all
    show ?thesis
    proof (cases "Q a")
      case True
      have "low \<le> k a" using False by order
      then show ?thesis unfolding w if_P [OF True] e using True by auto
    next
      case False
      then show ?thesis unfolding w if_not_P [OF False] using n by auto
    qed
  qed
qed simp

end
