(* ===== verification/Addresses.thy ===== *)
theory Addresses
  imports Jool_Prelude
begin

text \<open>
  Addresses, transport addresses, prefixes and port ranges (\<^verbatim>\<open>mod/common/address.c\<close>,
  \<^verbatim>\<open>mod/common/types.c\<close>, \<^verbatim>\<open>include/nat64/common/types.h\<close>).

  An \<open>in_addr\<close> is the 32-bit host-order value of the C field (\<^verbatim>\<open>be32_to_cpu(addr.s_addr)\<close>), an
  \<open>in6_addr\<close> the 128-bit value whose most significant byte is \<^verbatim>\<open>s6_addr[0]\<close>. With that reading
  \<^verbatim>\<open>memcmp\<close> on the network-order bytes is the unsigned order on the words. Bytes and 32-bit
  quadrants of an IPv6 address are read and written with \<open>s6_addr\<close>, \<open>s6_addr32\<close> and their
  setters. A possibly NULL pointer argument is an option.
\<close>

section \<open>Data\<close>

type_synonym in_addr = u32
type_synonym in6_addr = "128 word"

record ipv4_transport_addr =
  ta4_l3 :: in_addr
  ta4_l4 :: u16

record ipv6_transport_addr =
  ta6_l3 :: in6_addr
  ta6_l4 :: u16

record ipv4_prefix =
  p4_address :: in_addr
  p4_len :: u8

record ipv6_prefix =
  p6_address :: in6_addr
  p6_len :: u8

record port_range =
  pr_min :: u16
  pr_max :: u16

record pool4_sample =
  smp_mark :: u32
  smp_proto :: l4_protocol
  smp_addr :: in_addr
  smp_range :: port_range

datatype transport_addr = Addr6 ipv6_transport_addr | Addr4 ipv4_transport_addr

text \<open>Transport addresses are ordered by address, then by port.\<close>

instantiation ipv4_transport_addr_ext :: (linorder) linorder
begin

definition less_eq_ipv4_transport_addr_ext ::
    "'a ipv4_transport_addr_scheme \<Rightarrow> 'a ipv4_transport_addr_scheme \<Rightarrow> bool" where
  "less_eq_ipv4_transport_addr_ext x y =
     ((ta4_l3 x, ta4_l4 x, ipv4_transport_addr.more x) \<le>
      (ta4_l3 y, ta4_l4 y, ipv4_transport_addr.more y))"

definition less_ipv4_transport_addr_ext ::
    "'a ipv4_transport_addr_scheme \<Rightarrow> 'a ipv4_transport_addr_scheme \<Rightarrow> bool" where
  "less_ipv4_transport_addr_ext x y =
     ((ta4_l3 x, ta4_l4 x, ipv4_transport_addr.more x) <
      (ta4_l3 y, ta4_l4 y, ipv4_transport_addr.more y))"

instance
  by standard
    (auto simp: less_eq_ipv4_transport_addr_ext_def less_ipv4_transport_addr_ext_def)

end

instantiation ipv6_transport_addr_ext :: (linorder) linorder
begin

definition less_eq_ipv6_transport_addr_ext ::
    "'a ipv6_transport_addr_scheme \<Rightarrow> 'a ipv6_transport_addr_scheme \<Rightarrow> bool" where
  "less_eq_ipv6_transport_addr_ext x y =
     ((ta6_l3 x, ta6_l4 x, ipv6_transport_addr.more x) \<le>
      (ta6_l3 y, ta6_l4 y, ipv6_transport_addr.more y))"

definition less_ipv6_transport_addr_ext ::
    "'a ipv6_transport_addr_scheme \<Rightarrow> 'a ipv6_transport_addr_scheme \<Rightarrow> bool" where
  "less_ipv6_transport_addr_ext x y =
     ((ta6_l3 x, ta6_l4 x, ipv6_transport_addr.more x) <
      (ta6_l3 y, ta6_l4 y, ipv6_transport_addr.more y))"

instance
  by standard
    (auto simp: less_eq_ipv6_transport_addr_ext_def less_ipv6_transport_addr_ext_def)

end

lemma taddr4_less_iff: "(x :: ipv4_transport_addr) < y \<longleftrightarrow>
    ta4_l3 x < ta4_l3 y \<or> ta4_l3 x = ta4_l3 y \<and> ta4_l4 x < ta4_l4 y"
  by (auto simp: less_ipv4_transport_addr_ext_def)

lemma taddr6_less_iff: "(x :: ipv6_transport_addr) < y \<longleftrightarrow>
    ta6_l3 x < ta6_l3 y \<or> ta6_l3 x = ta6_l3 y \<and> ta6_l4 x < ta6_l4 y"
  by (auto simp: less_ipv6_transport_addr_ext_def)

lemma taddr4_eq_iff: "(x :: ipv4_transport_addr) = y \<longleftrightarrow>
    ta4_l3 x = ta4_l3 y \<and> uint (ta4_l4 x) = uint (ta4_l4 y)"
  by (cases x; cases y) (auto intro: unsigned_word_eqI)

lemma taddr6_eq_iff: "(x :: ipv6_transport_addr) = y \<longleftrightarrow>
    ta6_l3 x = ta6_l3 y \<and> uint (ta6_l4 x) = uint (ta6_l4 y)"
  by (cases x; cases y) (auto intro: unsigned_word_eqI)

section \<open>Bytes, quadrants and bits of an IPv6 address\<close>

definition s6_addr :: "in6_addr \<Rightarrow> nat \<Rightarrow> u8" where
  "s6_addr a i = ucast (drop_bit (8 * (15 - i)) a)"

definition s6_addr32 :: "in6_addr \<Rightarrow> nat \<Rightarrow> u32" where
  "s6_addr32 a q = ucast (drop_bit (32 * (3 - q)) a)"

definition put_s6_addr :: "nat \<Rightarrow> u8 \<Rightarrow> in6_addr \<Rightarrow> in6_addr" where
  "put_s6_addr i b a =
     (a AND NOT (push_bit (8 * (15 - i)) 0xFF)) OR push_bit (8 * (15 - i)) (ucast b)"

definition put_s6_addr32 :: "nat \<Rightarrow> u32 \<Rightarrow> in6_addr \<Rightarrow> in6_addr" where
  "put_s6_addr32 q w a =
     (a AND NOT (push_bit (32 * (3 - q)) 0xFFFFFFFF)) OR push_bit (32 * (3 - q)) (ucast w)"

definition as8 :: "in_addr \<Rightarrow> nat \<Rightarrow> u8" where
  "as8 a i = ucast (drop_bit (8 * (3 - i)) a)"

definition of_as8 :: "u8 \<Rightarrow> u8 \<Rightarrow> u8 \<Rightarrow> u8 \<Rightarrow> in_addr" where
  "of_as8 b0 b1 b2 b3 =
     push_bit 24 (ucast b0) OR push_bit 16 (ucast b1) OR push_bit 8 (ucast b2) OR ucast b3"

definition addr4_get_bit :: "in_addr \<Rightarrow> nat \<Rightarrow> u32" where
  "addr4_get_bit addr pos = addr AND push_bit (31 - pos) 1"

definition addr4_set_bit :: "in_addr \<Rightarrow> nat \<Rightarrow> bool \<Rightarrow> in_addr" where
  "addr4_set_bit addr pos val =
     (let mask = push_bit (31 - pos) 1
      in if val then addr OR mask else addr AND NOT mask)"

definition addr6_get_bit :: "in6_addr \<Rightarrow> nat \<Rightarrow> u32" where
  "addr6_get_bit addr pos =
     (let quadrant = s6_addr32 addr (pos div 32); mask = push_bit (31 - pos mod 32) 1
      in quadrant AND mask)"

definition addr6_set_bit :: "in6_addr \<Rightarrow> nat \<Rightarrow> bool \<Rightarrow> in6_addr" where
  "addr6_set_bit addr pos val =
     (let quadrant = s6_addr32 addr (pos div 32); mask = push_bit (31 - pos mod 32) 1
      in put_s6_addr32 (pos div 32)
           (if val then quadrant OR mask else quadrant AND NOT mask) addr)"

section \<open>Comparisons\<close>

definition addr4_equals :: "in_addr option \<Rightarrow> in_addr option \<Rightarrow> bool" where
  "addr4_equals expected actual =
     (case (expected, actual) of
        (None, None) \<Rightarrow> True
      | (Some e, Some a) \<Rightarrow> \<not> e \<noteq> a
      | _ \<Rightarrow> False)"

definition addr6_equals :: "in6_addr option \<Rightarrow> in6_addr option \<Rightarrow> bool" where
  "addr6_equals expected actual =
     (case (expected, actual) of
        (None, None) \<Rightarrow> True
      | (Some e, Some a) \<Rightarrow> \<not> e \<noteq> a
      | _ \<Rightarrow> False)"

definition ipv4_transport_addr_equals ::
    "ipv4_transport_addr option \<Rightarrow> ipv4_transport_addr option \<Rightarrow> bool" where
  "ipv4_transport_addr_equals expected actual =
     (case (expected, actual) of
        (None, None) \<Rightarrow> True
      | (Some e, Some a) \<Rightarrow>
          (if ta4_l3 e \<noteq> ta4_l3 a then False
           else if ta4_l4 e \<noteq> ta4_l4 a then False else True)
      | _ \<Rightarrow> False)"

definition ipv6_transport_addr_equals ::
    "ipv6_transport_addr option \<Rightarrow> ipv6_transport_addr option \<Rightarrow> bool" where
  "ipv6_transport_addr_equals expected actual =
     (case (expected, actual) of
        (None, None) \<Rightarrow> True
      | (Some e, Some a) \<Rightarrow>
          (if ta6_l3 e \<noteq> ta6_l3 a then False
           else if ta6_l4 e \<noteq> ta6_l4 a then False else True)
      | _ \<Rightarrow> False)"

definition prefix6_equals :: "ipv6_prefix option \<Rightarrow> ipv6_prefix option \<Rightarrow> bool" where
  "prefix6_equals expected actual =
     (case (expected, actual) of
        (None, None) \<Rightarrow> True
      | (Some e, Some a) \<Rightarrow>
          (if p6_address e \<noteq> p6_address a then False
           else if p6_len e \<noteq> p6_len a then False else True)
      | _ \<Rightarrow> False)"

definition prefix4_equals :: "ipv4_prefix option \<Rightarrow> ipv4_prefix option \<Rightarrow> bool" where
  "prefix4_equals expected actual =
     (case (expected, actual) of
        (None, None) \<Rightarrow> True
      | (Some e, Some a) \<Rightarrow>
          (if p4_address e \<noteq> p4_address a then False
           else if p4_len e \<noteq> p4_len a then False else True)
      | _ \<Rightarrow> False)"

text \<open>\<^verbatim>\<open>ipv4_addr_cmp\<close> is \<^verbatim>\<open>memcmp\<close> on the network-order bytes; only its sign is used.\<close>

definition ipv4_addr_cmp :: "in_addr \<Rightarrow> in_addr \<Rightarrow> int" where
  "ipv4_addr_cmp a1 a2 = cmp_word a1 a2"

text \<open>The kernel's \<^verbatim>\<open>ipv6_addr_cmp\<close> and \<^verbatim>\<open>ipv6_prefix_equal\<close> (\<^verbatim>\<open>net/ipv6.h\<close>).\<close>

definition ipv6_addr_cmp :: "in6_addr \<Rightarrow> in6_addr \<Rightarrow> int" where
  "ipv6_addr_cmp a1 a2 = cmp_word a1 a2"

definition ipv6_prefix_equal :: "in6_addr \<Rightarrow> in6_addr \<Rightarrow> nat \<Rightarrow> bool" where
  "ipv6_prefix_equal a1 a2 prefixlen = (drop_bit (128 - prefixlen) a1 = drop_bit (128 - prefixlen) a2)"

section \<open>Prefixes\<close>

text \<open>
  The shift count \<^verbatim>\<open>32 - prefix->len\<close> is only meaningful for lengths up to 32, which
  \<open>prefix4_validate\<close> enforces; the theorems below carry that hypothesis.
\<close>

definition get_prefix4_mask :: "ipv4_prefix \<Rightarrow> u32" where
  "get_prefix4_mask prefix = ucast (push_bit (32 - unat (p4_len prefix)) (0xFFFFFFFF :: u64))"

definition prefix4_contains :: "ipv4_prefix \<Rightarrow> in_addr \<Rightarrow> bool" where
  "prefix4_contains prefix addr =
     (let maskbits = get_prefix4_mask prefix;
          prefixbits = p4_address prefix AND maskbits;
          addrbits = addr AND maskbits
      in prefixbits = addrbits)"

definition prefix4_intersects :: "ipv4_prefix \<Rightarrow> ipv4_prefix \<Rightarrow> bool" where
  "prefix4_intersects p1 p2 =
     (prefix4_contains p1 (p4_address p2) \<or> prefix4_contains p2 (p4_address p1))"

definition prefix4_get_addr_count :: "ipv4_prefix \<Rightarrow> u64" where
  "prefix4_get_addr_count prefix = push_bit (32 - unat (p4_len prefix)) 1"

definition prefix6_contains :: "ipv6_prefix \<Rightarrow> in6_addr \<Rightarrow> bool" where
  "prefix6_contains prefix addr = ipv6_prefix_equal (p6_address prefix) addr (unat (p6_len prefix))"

definition prefix4_validate :: "ipv4_prefix option \<Rightarrow> errno + unit" where
  "prefix4_validate prefix =
     (case prefix of
        None \<Rightarrow> Inl EINVAL
      | Some p \<Rightarrow>
          if p4_len p > 32 then Inl EINVAL
          else if p4_address p AND NOT (get_prefix4_mask p) \<noteq> 0 then Inl EINVAL
          else Inr ())"

definition prefix6_validate :: "ipv6_prefix option \<Rightarrow> errno + unit" where
  "prefix6_validate prefix =
     (case prefix of
        None \<Rightarrow> Inl EINVAL
      | Some p \<Rightarrow>
          if p6_len p > 128 then Inl EINVAL
          else if \<exists>i \<in> set [unat (p6_len p)..<128]. addr6_get_bit (p6_address p) i \<noteq> 0
          then Inl EINVAL
          else Inr ())"

definition prefix4_next :: "ipv4_prefix \<Rightarrow> u64" where
  "prefix4_next prefix = prefix4_get_addr_count prefix + ucast (p4_address prefix)"

text \<open>
  The \<^verbatim>\<open>foreach_addr4\<close> macro: a 64-bit cursor runs from the prefix's address up to
  \<open>prefix4_next\<close>, exclusive; the body sees its low 32 bits.
\<close>

function addr4_cursor_loop :: "u64 \<Rightarrow> u64 \<Rightarrow> in_addr list" where
  "addr4_cursor_loop cursor next =
     (if cursor < next then ucast cursor # addr4_cursor_loop (cursor + 1) next else [])"
  by pat_completeness auto
termination
proof (relation "measure (\<lambda>(cursor, next). unat next - unat cursor)")
  fix cursor "next" :: u64
  assume "cursor < next"
  then have "unat cursor < unat next" and "unat (cursor + 1) = unat cursor + 1"
    by (simp_all add: word_less_nat_alt unat_inc)
  then show "((cursor + 1, next), cursor, next) \<in> measure (\<lambda>(cursor, next). unat next - unat cursor)"
    by simp
qed simp

declare addr4_cursor_loop.simps [simp del]

definition foreach_addr4 :: "ipv4_prefix \<Rightarrow> in_addr list" where
  "foreach_addr4 prefix = addr4_cursor_loop (ucast (p4_address prefix)) (prefix4_next prefix)"

text \<open>The kernel's IPv4 scope predicates (\<^verbatim>\<open>linux/in.h\<close>), on host-order values.\<close>

definition ipv4_is_zeronet :: "in_addr \<Rightarrow> bool" where
  "ipv4_is_zeronet addr = (addr AND 0xFF000000 = 0)"

definition ipv4_is_loopback :: "in_addr \<Rightarrow> bool" where
  "ipv4_is_loopback addr = (addr AND 0xFF000000 = 0x7F000000)"

definition ipv4_is_linklocal_169 :: "in_addr \<Rightarrow> bool" where
  "ipv4_is_linklocal_169 addr = (addr AND 0xFFFF0000 = 0xA9FE0000)"

definition ipv4_is_multicast :: "in_addr \<Rightarrow> bool" where
  "ipv4_is_multicast addr = (addr AND 0xF0000000 = 0xE0000000)"

definition ipv4_is_lbcast :: "in_addr \<Rightarrow> bool" where
  "ipv4_is_lbcast addr = (addr = 0xFFFFFFFF)"

definition addr4_is_scope_subnet :: "in_addr \<Rightarrow> bool" where
  "addr4_is_scope_subnet addr =
     (ipv4_is_zeronet addr \<or> ipv4_is_loopback addr \<or> ipv4_is_linklocal_169 addr
      \<or> ipv4_is_multicast addr \<or> ipv4_is_lbcast addr)"

section \<open>Port ranges and protocol numbers\<close>

definition l4_proto_to_nexthdr :: "l4_protocol \<Rightarrow> u8" where
  "l4_proto_to_nexthdr proto =
     (case proto of
        L4PROTO_TCP \<Rightarrow> 6 | L4PROTO_UDP \<Rightarrow> 17 | L4PROTO_ICMP \<Rightarrow> 58 | L4PROTO_OTHER \<Rightarrow> 0)"

definition port_range_equals :: "port_range \<Rightarrow> port_range \<Rightarrow> bool" where
  "port_range_equals r1 r2 = (pr_min r1 = pr_min r2 \<and> pr_max r1 = pr_max r2)"

text \<open>The bounds are computed in C's \<^verbatim>\<open>int\<close>, so they can leave the 16-bit range.\<close>

definition port_range_touches :: "port_range \<Rightarrow> port_range \<Rightarrow> bool" where
  "port_range_touches r1 r2 =
     (uint (pr_max r1) \<ge> uint (pr_min r2) - 1 \<and> uint (pr_min r1) \<le> uint (pr_max r2) + 1)"

definition port_range_contains :: "port_range \<Rightarrow> u16 \<Rightarrow> bool" where
  "port_range_contains r port = (pr_min r \<le> port \<and> port \<le> pr_max r)"

definition port_range_count :: "port_range \<Rightarrow> u32" where
  "port_range_count r = ucast (pr_max r) - ucast (pr_min r) + 1"

definition is_icmp6_info :: "u8 \<Rightarrow> bool" where
  "is_icmp6_info type = (type = 128 \<or> type = 129)"

definition is_icmp6_error :: "u8 \<Rightarrow> bool" where
  "is_icmp6_error type = (type = 1 \<or> type = 2 \<or> type = 3 \<or> type = 4)"

definition is_icmp4_info :: "u8 \<Rightarrow> bool" where
  "is_icmp4_info type = (type = 8 \<or> type = 0)"

definition is_icmp4_error :: "u8 \<Rightarrow> bool" where
  "is_icmp4_error type = (type = 3 \<or> type = 4 \<or> type = 5 \<or> type = 11 \<or> type = 12)"

section \<open>Tuples\<close>

record tuple =
  t_src :: transport_addr
  t_dst :: transport_addr
  t_l3_proto :: l3_protocol
  t_l4_proto :: l4_protocol

text \<open>
  The two views of the union. The C code reads the member that the tuple's layer-3 protocol
  selects; reading the other one would reinterpret memory, which the model does not describe
  (the result there is a zeroed address).
\<close>

definition addr6 :: "transport_addr \<Rightarrow> ipv6_transport_addr" where
  "addr6 t = (case t of Addr6 a \<Rightarrow> a | Addr4 _ \<Rightarrow> \<lparr>ta6_l3 = 0, ta6_l4 = 0\<rparr>)"

definition addr4 :: "transport_addr \<Rightarrow> ipv4_transport_addr" where
  "addr4 t = (case t of Addr4 a \<Rightarrow> a | Addr6 _ \<Rightarrow> \<lparr>ta4_l3 = 0, ta4_l4 = 0\<rparr>)"

definition is_3_tuple :: "tuple \<Rightarrow> bool" where
  "is_3_tuple tuple = (t_l4_proto tuple = L4PROTO_ICMP)"

definition is_5_tuple :: "tuple \<Rightarrow> bool" where
  "is_5_tuple tuple = (\<not> is_3_tuple tuple)"

definition tuple_wf :: "tuple \<Rightarrow> bool" where
  "tuple_wf t = (case t_l3_proto t of
     L3PROTO_IPV6 \<Rightarrow> (\<exists>a b. t_src t = Addr6 a \<and> t_dst t = Addr6 b)
   | L3PROTO_IPV4 \<Rightarrow> (\<exists>a b. t_src t = Addr4 a \<and> t_dst t = Addr4 b))"

section \<open>Facts\<close>

subsection \<open>Equality tests\<close>

lemma addr4_equals_Some [simp]: "addr4_equals (Some a) (Some b) \<longleftrightarrow> a = b"
  by (simp add: addr4_equals_def)

lemma addr6_equals_Some [simp]: "addr6_equals (Some a) (Some b) \<longleftrightarrow> a = b"
  by (simp add: addr6_equals_def)

lemma ipv4_transport_addr_equals_Some [simp]:
  "ipv4_transport_addr_equals (Some a) (Some b) \<longleftrightarrow> a = b"
  by (auto simp: ipv4_transport_addr_equals_def)

lemma ipv6_transport_addr_equals_Some [simp]:
  "ipv6_transport_addr_equals (Some a) (Some b) \<longleftrightarrow> a = b"
  by (auto simp: ipv6_transport_addr_equals_def)

lemma prefix6_equals_Some [simp]: "prefix6_equals (Some a) (Some b) \<longleftrightarrow> a = b"
  by (auto simp: prefix6_equals_def)

lemma prefix4_equals_Some [simp]: "prefix4_equals (Some a) (Some b) \<longleftrightarrow> a = b"
  by (auto simp: prefix4_equals_def)

lemma port_range_equals_iff [simp]: "port_range_equals a b \<longleftrightarrow> a = b"
  by (auto simp: port_range_equals_def)

subsection \<open>IPv4 prefixes\<close>

text \<open>The host part of a prefix has \<^term>\<open>2 ^ (32 - unat (p4_len p))\<close> addresses.\<close>

definition prefix4_wf :: "ipv4_prefix \<Rightarrow> bool" where
  "prefix4_wf p \<longleftrightarrow> p4_len p \<le> 32 \<and> take_bit (32 - unat (p4_len p)) (p4_address p) = 0"

lemma bit_get_prefix4_mask:
  "i < 32 \<Longrightarrow> bit (get_prefix4_mask p) i \<longleftrightarrow> 32 - unat (p4_len p) \<le> i"
proof -
  assume i: "i < 32"
  have m: "(0xFFFFFFFF :: u64) = mask 32"
    by (simp add: mask_eq_exp_minus_1)
  show ?thesis
    using i by (auto simp: get_prefix4_mask_def m bit_unsigned_iff bit_push_bit_iff bit_mask_iff)
qed

lemma prefix4_contains_drop_bit:
  "prefix4_contains p a \<longleftrightarrow>
     drop_bit (32 - unat (p4_len p)) (p4_address p) = drop_bit (32 - unat (p4_len p)) a"
  (is "_ \<longleftrightarrow> drop_bit ?n _ = _")
proof -
  have "prefix4_contains p a \<longleftrightarrow> (\<forall>i<32. ?n \<le> i \<longrightarrow> bit (p4_address p) i = bit a i)"
    by (auto simp: prefix4_contains_def Let_def word_eq_iff_bits bit_and_iff bit_get_prefix4_mask)
  also have "\<dots> \<longleftrightarrow> drop_bit ?n (p4_address p) = drop_bit ?n a"
    by (auto simp: drop_bit_eq_iff_bits)
  finally show ?thesis .
qed

lemma prefix4_validate_Inr_iff: "prefix4_validate (Some p) = Inr () \<longleftrightarrow> prefix4_wf p"
proof -
  have "p4_address p AND NOT (get_prefix4_mask p) = take_bit (32 - unat (p4_len p)) (p4_address p)"
    by (auto simp: word_eq_iff_bits bit_and_iff bit_not_iff bit_take_bit_iff bit_get_prefix4_mask)
  then show ?thesis
    by (auto simp: prefix4_validate_def prefix4_wf_def not_le)
qed

lemma prefix4_wf_len: "prefix4_wf p \<Longrightarrow> unat (p4_len p) \<le> 32"
  by (simp add: prefix4_wf_def word_le_nat_alt)

lemma prefix4_wf_address:
  assumes "prefix4_wf p"
  obtains q where "unat (p4_address p) = q * 2 ^ (32 - unat (p4_len p))"
proof -
  have "unat (take_bit (32 - unat (p4_len p)) (p4_address p)) = 0"
    using assms by (simp add: prefix4_wf_def)
  then have "unat (p4_address p) mod 2 ^ (32 - unat (p4_len p)) = 0"
    by (simp only: unat_take_bit_mod)
  then show thesis
    by (metis mod_eq_0_iff_dvd dvdE mult.commute that)
qed

lemma prefix4_contains_div:
  "prefix4_contains p a \<longleftrightarrow>
     unat (p4_address p) div 2 ^ (32 - unat (p4_len p)) = unat a div 2 ^ (32 - unat (p4_len p))"
  by (simp only: prefix4_contains_drop_bit word_unat_eq_iff unat_drop_bit_div)

lemma prefix4_contains_interval:
  assumes "prefix4_wf p"
  shows "prefix4_contains p a \<longleftrightarrow>
    unat (p4_address p) \<le> unat a \<and> unat a < unat (p4_address p) + 2 ^ (32 - unat (p4_len p))"
proof -
  obtain q where q: "unat (p4_address p) = q * 2 ^ (32 - unat (p4_len p))"
    using prefix4_wf_address [OF assms] .
  show ?thesis
    unfolding prefix4_contains_div q
    by (auto intro!: div_nat_eqI [symmetric] simp: algebra_simps
        dest: sym)
      (metis div_times_less_eq_dividend dividend_less_div_times mult.commute
        zero_less_numeral zero_less_power)+
qed

lemma unat_prefix4_get_addr_count:
  "unat (prefix4_get_addr_count p) = 2 ^ (32 - unat (p4_len p))"
proof -
  have "(2 :: nat) ^ (32 - unat (p4_len p)) \<le> 2 ^ 32"
    by (rule power_increasing) auto
  then have "(2 :: nat) ^ (32 - unat (p4_len p)) mod 2 ^ 64 = 2 ^ (32 - unat (p4_len p))"
    by (intro mod_less) simp
  then show ?thesis
    unfolding prefix4_get_addr_count_def by (simp only: unsigned_push_bit_eq)
      (simp add: push_bit_eq_mult take_bit_eq_mod)
qed

lemma unat_prefix4_next:
  "unat (prefix4_next p) = unat (p4_address p) + 2 ^ (32 - unat (p4_len p))"
proof -
  have "(2 :: nat) ^ (32 - unat (p4_len p)) \<le> 2 ^ 32"
    by (rule power_increasing) auto
  moreover have "unat (p4_address p) < 2 ^ 32"
    by simp
  moreover have "(2 :: nat) ^ 32 + 2 ^ 32 < 2 ^ 64" by simp
  ultimately have "2 ^ (32 - unat (p4_len p)) + unat (p4_address p) < 2 ^ 64" by linarith
  then show ?thesis
    by (simp add: prefix4_next_def unat_word_ariths unat_prefix4_get_addr_count unat_ucast_up)
qed

lemma addr4_cursor_loop_eq:
  "addr4_cursor_loop c n = map word_of_nat [unat c..<unat n]"
proof (induction c n rule: addr4_cursor_loop.induct)
  case (1 cursor "next")
  show ?case
  proof (cases "cursor < next")
    case True
    then have "[unat cursor..<unat next] = unat cursor # [unat (cursor + 1)..<unat next]"
      by (simp add: unat_inc word_less_nat_alt upt_conv_Cons)
    moreover have "(ucast cursor :: in_addr) = word_of_nat (unat cursor)"
      by simp
    ultimately show ?thesis
      using True 1 by (simp add: addr4_cursor_loop.simps [of cursor "next"])
  next
    case False
    then show ?thesis
      by (simp add: addr4_cursor_loop.simps [of cursor "next"] word_less_nat_alt)
  qed
qed

lemma foreach_addr4_eq:
  "foreach_addr4 p =
     map word_of_nat [unat (p4_address p)..<unat (p4_address p) + 2 ^ (32 - unat (p4_len p))]"
  by (simp add: foreach_addr4_def addr4_cursor_loop_eq unat_prefix4_next unat_ucast_up)

lemma prefix4_wf_upper:
  assumes "prefix4_wf p"
  shows "unat (p4_address p) + 2 ^ (32 - unat (p4_len p)) \<le> 2 ^ 32"
proof -
  let ?n = "32 - unat (p4_len p)"
  obtain q where q: "unat (p4_address p) = q * 2 ^ ?n"
    using prefix4_wf_address [OF assms] .
  have "(2 :: nat) ^ 32 = 2 ^ (32 - ?n) * 2 ^ ?n"
    by (simp flip: power_add)
  moreover have "unat (p4_address p) < 2 ^ 32"
    using unsigned_less [of "p4_address p", where 'a = nat] by simp
  ultimately have "q < 2 ^ (32 - ?n)"
    using q by (metis mult_less_cancel2)
  then have "(q + 1) * 2 ^ ?n \<le> 2 ^ (32 - ?n) * 2 ^ ?n"
    by (intro mult_le_mono1) simp
  also have "\<dots> = (2 :: nat) ^ 32"
    by (simp flip: power_add)
  finally show ?thesis
    using q by (simp add: algebra_simps)
qed

lemma set_foreach_addr4:
  assumes "prefix4_wf p"
  shows "set (foreach_addr4 p) = {a. prefix4_contains p a}"
proof (intro set_eqI iffI)
  fix a assume "a \<in> set (foreach_addr4 p)"
  then obtain k where k: "a = word_of_nat k" "unat (p4_address p) \<le> k"
      "k < unat (p4_address p) + 2 ^ (32 - unat (p4_len p))"
    by (auto simp: foreach_addr4_eq)
  then have "unat a = k"
    using prefix4_wf_upper [OF assms] by (simp add: unat_of_nat)
  then show "a \<in> {a. prefix4_contains p a}"
    using k by (simp add: prefix4_contains_interval [OF assms])
next
  fix a assume "a \<in> {a. prefix4_contains p a}"
  then have "unat a \<in> {unat (p4_address p)..<unat (p4_address p) + 2 ^ (32 - unat (p4_len p))}"
    by (simp add: prefix4_contains_interval [OF assms])
  then have "word_of_nat (unat a) \<in> set (foreach_addr4 p)"
    unfolding foreach_addr4_eq by (simp only: set_map set_upt) (rule imageI)
  then show "a \<in> set (foreach_addr4 p)"
    by simp
qed

lemma distinct_foreach_addr4:
  assumes "prefix4_wf p"
  shows "distinct (foreach_addr4 p)"
proof -
  have "inj_on (word_of_nat :: nat \<Rightarrow> in_addr) {..<2 ^ 32}"
    using word_of_nat_inj_on [where 'a = 32] by simp
  then show ?thesis
    unfolding foreach_addr4_eq distinct_map
    using prefix4_wf_upper [OF assms] by (auto elim!: inj_on_subset)
qed

lemma prefix4_intersects_iff:
  assumes "prefix4_wf p" "prefix4_wf q"
  shows "prefix4_intersects p q \<longleftrightarrow> (\<exists>a. prefix4_contains p a \<and> prefix4_contains q a)"
proof
  assume "prefix4_intersects p q"
  then show "\<exists>a. prefix4_contains p a \<and> prefix4_contains q a"
    using assms by (auto simp: prefix4_intersects_def prefix4_contains_div)
next
  assume "\<exists>a. prefix4_contains p a \<and> prefix4_contains q a"
  then obtain a where a: "prefix4_contains p a" "prefix4_contains q a" by blast
  have shorter: "prefix4_contains r (p4_address s)"
    if "unat (p4_len r) \<le> unat (p4_len s)" "prefix4_contains r a" "prefix4_contains s a" for r s
    using that by (auto simp: prefix4_contains_drop_bit drop_bit_eq_iff_bits)
  show "prefix4_intersects p q"
    using shorter [of p q] shorter [of q p] a
      nat_le_linear [of "unat (p4_len p)" "unat (p4_len q)"]
    by (auto simp: prefix4_intersects_def)
qed

lemma length_foreach_addr4: "length (foreach_addr4 p) = unat (prefix4_get_addr_count p)"
  by (simp add: foreach_addr4_eq unat_prefix4_get_addr_count)

subsection \<open>Bits of addresses and IPv6 prefixes\<close>

lemma and_push_bit_1: "(w :: 'a::len word) AND push_bit n 1 \<noteq> 0 \<longleftrightarrow> bit w n"
  by (auto simp: word_eq_iff_allbits bit_and_iff bit_exp_iff dest: bit_imp_possible_bit)

lemma addr4_get_bit_iff: "addr4_get_bit a pos \<noteq> 0 \<longleftrightarrow> bit a (31 - pos)"
  by (simp only: addr4_get_bit_def and_push_bit_1)

lemma bit_s6_addr32:
  "q \<le> 3 \<Longrightarrow> i < 32 \<Longrightarrow> bit (s6_addr32 a q) i \<longleftrightarrow> bit a (32 * (3 - q) + i)"
  by (simp add: s6_addr32_def bit_unsigned_iff bit_drop_bit_eq)

lemma bit_s6_addr:
  "q \<le> 15 \<Longrightarrow> i < 8 \<Longrightarrow> bit (s6_addr a q) i \<longleftrightarrow> bit a (8 * (15 - q) + i)"
  by (simp add: s6_addr_def bit_unsigned_iff bit_drop_bit_eq)

lemma quadrant_pos:
  fixes pos :: nat
  assumes "pos < 128"
  shows "pos div 32 \<le> 3" "32 * (3 - pos div 32) + (31 - pos mod 32) = 127 - pos"
proof -
  have "pos div 32 < 4"
    using assms by (intro less_mult_imp_div_less) simp
  moreover have "pos = 32 * (pos div 32) + pos mod 32" "pos mod 32 < 32"
    by simp_all
  ultimately show "pos div 32 \<le> 3" "32 * (3 - pos div 32) + (31 - pos mod 32) = 127 - pos"
    by linarith+
qed

lemma addr6_get_bit_iff: "pos < 128 \<Longrightarrow> addr6_get_bit a pos \<noteq> 0 \<longleftrightarrow> bit a (127 - pos)"
  using quadrant_pos [of pos]
  by (simp only: addr6_get_bit_def Let_def and_push_bit_1) (simp add: bit_s6_addr32)

lemma bit_put_field:
  fixes a :: "'a::len word" and w :: "'b::len word"
  assumes "i < LENGTH('a)" "m = LENGTH('b)"
  shows "bit ((a AND NOT (push_bit n (mask m))) OR push_bit n (ucast w)) i \<longleftrightarrow>
    (if n \<le> i \<and> i < n + m then bit w (i - n) else bit a i)"
  using assms
  by (auto simp: bit_or_iff bit_and_iff bit_not_iff bit_push_bit_iff bit_mask_iff bit_unsigned_iff
      dest: bit_imp_le_length)

lemma bit_put_s6_addr32:
  assumes "i < 128"
  shows "bit (put_s6_addr32 q w a) i \<longleftrightarrow>
    (if 32 * (3 - q) \<le> i \<and> i < 32 * (3 - q) + 32 then bit w (i - 32 * (3 - q)) else bit a i)"
proof -
  have m: "(0xFFFFFFFF :: in6_addr) = mask 32" by (simp add: mask_eq_exp_minus_1)
  show ?thesis
    unfolding put_s6_addr32_def m by (rule bit_put_field) (simp_all add: assms)
qed

lemma bit_put_s6_addr:
  assumes "i < 128"
  shows "bit (put_s6_addr q w a) i \<longleftrightarrow>
    (if 8 * (15 - q) \<le> i \<and> i < 8 * (15 - q) + 8 then bit w (i - 8 * (15 - q)) else bit a i)"
proof -
  have m: "(0xFF :: in6_addr) = mask 8" by (simp add: mask_eq_exp_minus_1)
  show ?thesis
    unfolding put_s6_addr_def m by (rule bit_put_field) (simp_all add: assms)
qed

lemma bit_write_bit:
  fixes w :: "'a::len word"
  assumes "i < LENGTH('a)"
  shows "bit (if v then w OR push_bit k 1 else w AND NOT (push_bit k 1)) i \<longleftrightarrow>
    (if i = k then v else bit w i)"
  using assms by (auto simp: bit_or_iff bit_and_iff bit_not_iff bit_exp_iff)

lemma bit_addr6_set_bit:
  assumes "p < 128" "i < 128"
  shows "bit (addr6_set_bit a p v) i \<longleftrightarrow> (if i = 127 - p then v else bit a i)"
proof -
  define n where "n = 32 * (3 - p div 32)"
  have n: "n + (31 - p mod 32) = 127 - p" "p div 32 \<le> 3"
    using quadrant_pos [OF assms(1)] by (simp_all add: n_def)
  have q: "bit (s6_addr32 a (p div 32)) (i - n) \<longleftrightarrow> bit a i" if "n \<le> i" "i < n + 32"
  proof -
    have "i - n < 32" "n + (i - n) = i" using that by linarith+
    then show ?thesis
      using bit_s6_addr32 [of "p div 32" "i - n" a] n by (simp flip: n_def)
  qed
  show ?thesis
  proof (cases "n \<le> i \<and> i < n + 32")
    case True
    then have "i - n < LENGTH(32)" and "i - n = 31 - p mod 32 \<longleftrightarrow> i = 127 - p"
      unfolding n(1) [symmetric] by auto
    then show ?thesis
      using True q assms(2)
      by (simp only: addr6_set_bit_def Let_def bit_put_s6_addr32 flip: n_def) (simp add: bit_write_bit
          flip: push_bit_of_1)
  next
    case False
    then have "i \<noteq> 127 - p" using n by auto
    then show ?thesis
      using False assms(2)
      by (simp only: addr6_set_bit_def Let_def bit_put_s6_addr32 flip: n_def) simp
  qed
qed

lemma bit_addr4_set_bit:
  "p < 32 \<Longrightarrow> i < 32 \<Longrightarrow> bit (addr4_set_bit a p v) i \<longleftrightarrow> (if i = 31 - p then v else bit a i)"
  by (simp only: addr4_set_bit_def Let_def) (simp add: bit_write_bit flip: push_bit_of_1)

definition prefix6_wf :: "ipv6_prefix \<Rightarrow> bool" where
  "prefix6_wf p \<longleftrightarrow> p6_len p \<le> 128 \<and> take_bit (128 - unat (p6_len p)) (p6_address p) = 0"

lemma take_bit_0_iff_bits:
  "take_bit n (w :: 'a::len word) = 0 \<longleftrightarrow> (\<forall>i < LENGTH('a). i < n \<longrightarrow> \<not> bit w i)"
  by (auto simp: word_eq_iff_bits bit_take_bit_iff)

lemma prefix6_validate_Inr_iff: "prefix6_validate (Some p) = Inr () \<longleftrightarrow> prefix6_wf p"
proof (cases "p6_len p \<le> 128")
  case True
  define n where "n = unat (p6_len p)"
  have "n \<le> 128" using True by (simp add: n_def word_le_nat_alt)
  have "(\<forall>i \<in> {n..<128}. \<not> bit (p6_address p) (127 - i)) \<longleftrightarrow>
      (\<forall>j < 128. j < 128 - n \<longrightarrow> \<not> bit (p6_address p) j)"
  proof (intro iffI allI impI ballI)
    fix j :: nat
    assume *: "\<forall>i \<in> {n..<128}. \<not> bit (p6_address p) (127 - i)" "j < 128" "j < 128 - n"
    then have "127 - j \<in> {n..<128}" "127 - (127 - j) = j" by auto
    then show "\<not> bit (p6_address p) j" using *(1) by metis
  next
    fix i assume "\<forall>j<128. j < 128 - n \<longrightarrow> \<not> bit (p6_address p) j" "i \<in> {n..<128}"
    then show "\<not> bit (p6_address p) (127 - i)" by auto
  qed
  then have "(\<exists>i \<in> set [n..<128]. addr6_get_bit (p6_address p) i \<noteq> 0) \<longleftrightarrow>
      take_bit (128 - n) (p6_address p) \<noteq> 0"
    by (auto simp: addr6_get_bit_iff take_bit_0_iff_bits)
  then show ?thesis
    using True by (auto simp: prefix6_validate_def prefix6_wf_def n_def not_le)
qed (auto simp: prefix6_validate_def prefix6_wf_def)

section \<open>Properties\<close>

text \<open>
  C20: \<^verbatim>\<open>prefix4_validate\<close> accepts exactly the prefixes without host bits, and for those
  \<^verbatim>\<open>prefix4_contains\<close> is membership in the interval of \<^verbatim>\<open>prefix4_get_addr_count\<close> addresses
  that starts at the prefix's address.
\<close>

theorem prefix4_contains_correct:
  assumes "prefix4_validate (Some p) = Inr ()"
  shows "prefix4_contains p a \<longleftrightarrow>
    unat (p4_address p) \<le> unat a \<and>
    unat a < unat (p4_address p) + unat (prefix4_get_addr_count p)"
  using assms
  by (simp only: prefix4_validate_Inr_iff prefix4_contains_interval unat_prefix4_get_addr_count)

theorem prefix4_contains_correct_witness:
  "prefix4_validate (Some \<lparr>p4_address = 0xC0000200, p4_len = 24\<rparr>) = Inr () \<and>
   prefix4_contains \<lparr>p4_address = 0xC0000200, p4_len = 24\<rparr> 0xC00002FF"
  using prefix4_contains_correct [of "\<lparr>p4_address = 0xC0000200, p4_len = 24\<rparr>" "0xC00002FF"]
  by (simp add: prefix4_validate_def get_prefix4_mask_def prefix4_get_addr_count_def)

text \<open>
  C21: on a validated prefix the \<^verbatim>\<open>foreach_addr4\<close> loop visits every address of the prefix
  exactly once, also when the prefix ends at 255.255.255.255 (the 64-bit cursor does not wrap).
\<close>

theorem foreach_addr4_visits:
  assumes "prefix4_validate (Some p) = Inr ()"
  shows "set (foreach_addr4 p) = {a. prefix4_contains p a} \<and> distinct (foreach_addr4 p) \<and>
    length (foreach_addr4 p) = unat (prefix4_get_addr_count p)"
  using assms
  by (simp add: prefix4_validate_Inr_iff set_foreach_addr4 distinct_foreach_addr4
      length_foreach_addr4)

theorem foreach_addr4_visits_witness:
  "prefix4_validate (Some \<lparr>p4_address = 0xFFFFFFFE, p4_len = 31\<rparr>) = Inr () \<and>
   set (foreach_addr4 \<lparr>p4_address = 0xFFFFFFFE, p4_len = 31\<rparr>) =
     {a. prefix4_contains \<lparr>p4_address = 0xFFFFFFFE, p4_len = 31\<rparr> a}"
  using foreach_addr4_visits [of "\<lparr>p4_address = 0xFFFFFFFE, p4_len = 31\<rparr>"]
  by (simp add: prefix4_validate_def get_prefix4_mask_def)

text \<open>
  C22: for validated prefixes the two-sided test of \<^verbatim>\<open>prefix4_intersects\<close> decides whether the
  two address sets share an address.
\<close>

theorem prefix4_intersects_correct:
  assumes "prefix4_validate (Some p) = Inr ()" "prefix4_validate (Some q) = Inr ()"
  shows "prefix4_intersects p q \<longleftrightarrow>
    {a. prefix4_contains p a} \<inter> {a. prefix4_contains q a} \<noteq> {}"
  using assms by (auto simp: prefix4_validate_Inr_iff prefix4_intersects_iff)

theorem prefix4_intersects_correct_witness:
  "{a. prefix4_contains \<lparr>p4_address = 0x0A000000, p4_len = 8\<rparr> a} \<inter>
   {a. prefix4_contains \<lparr>p4_address = 0x0A010000, p4_len = 16\<rparr> a} \<noteq> {}"
  using prefix4_intersects_correct
    [of "\<lparr>p4_address = 0x0A000000, p4_len = 8\<rparr>" "\<lparr>p4_address = 0x0A010000, p4_len = 16\<rparr>"]
  by (simp add: prefix4_validate_def get_prefix4_mask_def prefix4_intersects_def prefix4_contains_def)

text \<open>
  C23: writing a bit of an IPv6 address with \<^verbatim>\<open>addr6_set_bit\<close> and reading it back with
  \<^verbatim>\<open>addr6_get_bit\<close> gives the written value, and no other bit changes.
\<close>

theorem addr6_set_get_bit:
  assumes "p < 128" "q < 128"
  shows "(addr6_get_bit (addr6_set_bit a p v) q \<noteq> 0) = (if p = q then v else addr6_get_bit a q \<noteq> 0)"
  using assms by (auto simp: addr6_get_bit_iff bit_addr6_set_bit)

theorem addr6_set_get_bit_witness:
  "addr6_get_bit (addr6_set_bit 0 77 True) 77 \<noteq> 0 \<and> addr6_get_bit (addr6_set_bit 0 77 True) 78 = 0"
  using addr6_set_get_bit [of 77 77 0 True] addr6_set_get_bit [of 77 78 0 True]
  by (simp add: addr6_get_bit_def s6_addr32_def)

end
