(* ===== verification/Pool6.thy ===== *)
theory Pool6
  imports Addresses
begin

text \<open>
  The pool of IPv6 prefixes (\<^verbatim>\<open>mod/common/pool6.c\<close>) and the prefix parsers of
  \<^verbatim>\<open>mod/common/address.c\<close>.

  The global \<^verbatim>\<open>pool\<close> pointer is an option: \<open>None\<close> before \<^verbatim>\<open>pool6_init\<close> and after
  \<^verbatim>\<open>pool6_destroy\<close>. Dereferencing it while it is NULL is the outer \<open>None\<close> of every operation, so
  that a theorem can say that an operation does not fault. The kernel's \<^verbatim>\<open>kmalloc\<close> outcome and
  the string routines \<^verbatim>\<open>in6_pton\<close>, \<^verbatim>\<open>in4_pton\<close> and \<^verbatim>\<open>kstrtou8\<close> are parameters.
\<close>

section \<open>Parsing prefixes\<close>

text \<open>
  A parser routine of the kernel returns the address and the unconsumed rest of the string, whose
  first character is the delimiter. The rest is empty when the string ended first; then
  \<^verbatim>\<open>slash_pos + 1\<close> points past the terminator (outcome \<open>None\<close>).
\<close>

type_synonym 'a pton = "string \<Rightarrow> char option \<Rightarrow> ('a \<times> string) option"

definition prefix6_parse ::
    "in6_addr pton \<Rightarrow> (string \<Rightarrow> u8 option) \<Rightarrow> string \<Rightarrow> (errno + ipv6_prefix) option" where
  "prefix6_parse in6_pton kstrtou8 str =
     (case in6_pton str (Some (CHR ''/'')) of
        None \<Rightarrow> Some (Inl EINVAL)
      | Some (address, []) \<Rightarrow> None
      | Some (address, slash # rest) \<Rightarrow>
          (case kstrtou8 rest of
             None \<Rightarrow> Some (Inl EINVAL)
           | Some plen \<Rightarrow> Some (Inr \<lparr>p6_address = address, p6_len = plen\<rparr>)))"

definition prefix4_parse ::
    "in_addr pton \<Rightarrow> (string \<Rightarrow> u8 option) \<Rightarrow> string \<Rightarrow> (errno + ipv4_prefix) option" where
  "prefix4_parse in4_pton kstrtou8 str =
     (if CHR ''/'' \<in> set str then
        (case in4_pton str (Some (CHR ''/'')) of
           None \<Rightarrow> Some (Inl EINVAL)
         | Some (address, []) \<Rightarrow> None
         | Some (address, slash # rest) \<Rightarrow>
             (case kstrtou8 rest of
                None \<Rightarrow> Some (Inl EINVAL)
              | Some plen \<Rightarrow> Some (Inr \<lparr>p4_address = address, p4_len = plen\<rparr>)))
      else
        (case in4_pton str None of
           None \<Rightarrow> Some (Inl EINVAL)
         | Some (address, _) \<Rightarrow> Some (Inr \<lparr>p4_address = address, p4_len = 32\<rparr>)))"

section \<open>Validation\<close>

definition verify_prefix :: "nat \<Rightarrow> ipv6_prefix \<Rightarrow> errno + unit" where
  "verify_prefix start prefix =
     (if \<exists>i \<in> set [start..<16]. s6_addr (p6_address prefix) i AND 0xFF \<noteq> 0
      then Inl EINVAL else Inr ())"

definition validate_prefix :: "ipv6_prefix \<Rightarrow> errno + unit" where
  "validate_prefix prefix =
     (if p6_len prefix = 32 then verify_prefix 4 prefix
      else if p6_len prefix = 40 then verify_prefix 5 prefix
      else if p6_len prefix = 48 then verify_prefix 6 prefix
      else if p6_len prefix = 56 then verify_prefix 7 prefix
      else if p6_len prefix = 64 then verify_prefix 8 prefix
      else if p6_len prefix = 96 then verify_prefix 12 prefix
      else Inl EINVAL)"

section \<open>The pool\<close>

type_synonym pool6 = "ipv6_prefix list option"

definition create_pool :: "bool \<Rightarrow> pool6" where
  "create_pool kmalloc = (if kmalloc then Some [] else None)"

definition pool6_add :: "xlat_type \<Rightarrow> bool \<Rightarrow> ipv6_prefix \<Rightarrow> pool6 \<Rightarrow> (status \<times> pool6) option" where
  "pool6_add xlat kmalloc prefix pool =
     (case validate_prefix prefix of
        Inl e \<Rightarrow> Some (Err e, pool)
      | Inr _ \<Rightarrow>
          do { list \<leftarrow> pool;
               Some (if xlat = XLAT_SIIT \<and> list \<noteq> [] then (Err EINVAL, pool)
                     else if \<exists>entry \<in> set list. prefix6_equals (Some entry) (Some prefix)
                     then (Err EEXIST, pool)
                     else if \<not> kmalloc then (Err ENOMEM, pool)
                     else (Ok, Some (list @ [prefix]))) })"

fun pool6_remove_loop :: "ipv6_prefix list \<Rightarrow> ipv6_prefix \<Rightarrow> ipv6_prefix list option" where
  "pool6_remove_loop [] prefix = None"
| "pool6_remove_loop (entry # list) prefix =
     (if prefix6_equals (Some entry) (Some prefix) then Some list
      else map_option (Cons entry) (pool6_remove_loop list prefix))"

definition pool6_remove :: "ipv6_prefix \<Rightarrow> pool6 \<Rightarrow> (status \<times> pool6) option" where
  "pool6_remove prefix pool =
     do { list \<leftarrow> pool;
          Some (case pool6_remove_loop list prefix of
                  None \<Rightarrow> (Err ESRCH, pool)
                | Some list' \<Rightarrow> (Ok, Some list')) }"

text \<open>\<^verbatim>\<open>pool6_replace\<close> walks the old list to free it, so it faults on a NULL old pool.\<close>

definition pool6_replace :: "pool6 \<Rightarrow> pool6 \<Rightarrow> pool6 option" where
  "pool6_replace new pool = do { old_pool \<leftarrow> pool; Some new }"

definition pool6_destroy :: "pool6 \<Rightarrow> pool6 option" where
  "pool6_destroy pool = pool6_replace None pool"

definition pool6_flush :: "bool \<Rightarrow> pool6 \<Rightarrow> (status \<times> pool6) option" where
  "pool6_flush kmalloc pool =
     (case create_pool kmalloc of
        None \<Rightarrow> Some (Err ENOMEM, pool)
      | Some new \<Rightarrow> do { pool' \<leftarrow> pool6_replace (Some new) pool; Some (Ok, pool') })"

text \<open>
  \<^verbatim>\<open>pool6_init\<close>: every string is parsed and added; the first failure destroys the pool. The
  boolean paired with a string is the outcome of the allocation in its \<^verbatim>\<open>pool6_add\<close>.
\<close>

fun pool6_init_loop :: "(string \<Rightarrow> (errno + ipv6_prefix) option) \<Rightarrow> xlat_type \<Rightarrow>
    (string \<times> bool) list \<Rightarrow> pool6 \<Rightarrow> (status \<times> pool6) option" where
  "pool6_init_loop parse xlat [] pool = Some (Ok, pool)"
| "pool6_init_loop parse xlat ((str, kmalloc) # strs) pool =
     do { parsed \<leftarrow> parse str;
          (case parsed of
             Inl e \<Rightarrow> do { pool' \<leftarrow> pool6_destroy pool; Some (Err e, pool') }
           | Inr prefix \<Rightarrow>
               do { (error, pool') \<leftarrow> pool6_add xlat kmalloc prefix pool;
                    (if error \<noteq> Ok
                     then do { pool'' \<leftarrow> pool6_destroy pool'; Some (error, pool'') }
                     else pool6_init_loop parse xlat strs pool') }) }"

definition pool6_init :: "(string \<Rightarrow> (errno + ipv6_prefix) option) \<Rightarrow> xlat_type \<Rightarrow> bool \<Rightarrow>
    (string \<times> bool) list \<Rightarrow> pool6 \<Rightarrow> (status \<times> pool6) option" where
  "pool6_init parse xlat kmalloc pref_strs pool =
     (case create_pool kmalloc of
        None \<Rightarrow> Some (Err ENOMEM, pool)
      | Some tmp \<Rightarrow>
          if pref_strs = [] then Some (Ok, Some tmp)
          else pool6_init_loop parse xlat pref_strs (Some tmp))"

definition pool6_get :: "pool6 \<Rightarrow> in6_addr option \<Rightarrow> (errno + ipv6_prefix) option" where
  "pool6_get pool addr =
     (case addr of
        None \<Rightarrow> Some (Inl EINVAL)
      | Some a \<Rightarrow>
          do { list \<leftarrow> pool;
               Some (if list = [] then Inl ESRCH
                     else case find (\<lambda>entry. ipv6_prefix_equal (p6_address entry) a
                                                (unat (p6_len entry))) list of
                            Some entry \<Rightarrow> Inr entry
                          | None \<Rightarrow> Inl ESRCH) })"

definition pool6_peek :: "pool6 \<Rightarrow> (errno + ipv6_prefix) option" where
  "pool6_peek pool =
     do { list \<leftarrow> pool;
          Some (case list of [] \<Rightarrow> Inl ESRCH | entry # _ \<Rightarrow> Inr entry) }"

definition pool6_contains :: "pool6 \<Rightarrow> in6_addr option \<Rightarrow> bool option" where
  "pool6_contains pool addr =
     do { r \<leftarrow> pool6_get pool addr; Some (case r of Inr _ \<Rightarrow> True | Inl _ \<Rightarrow> False) }"

fun pool6_for_each_loop :: "(ipv6_prefix \<Rightarrow> 's \<Rightarrow> status \<times> 's) \<Rightarrow> ipv6_prefix list \<Rightarrow>
    ipv6_prefix option \<Rightarrow> 's \<Rightarrow> status \<times> 's" where
  "pool6_for_each_loop func [] offset arg =
     (case offset of Some _ \<Rightarrow> (Err ESRCH, arg) | None \<Rightarrow> (Ok, arg))"
| "pool6_for_each_loop func (entry # list) offset arg =
     (case offset of
        None \<Rightarrow> (case func entry arg of (error, arg') \<Rightarrow>
                   if error \<noteq> Ok then (error, arg')
                   else pool6_for_each_loop func list None arg')
      | Some o' \<Rightarrow>
          if prefix6_equals (Some o') (Some entry)
          then pool6_for_each_loop func list None arg
          else pool6_for_each_loop func list offset arg)"

definition pool6_for_each :: "(ipv6_prefix \<Rightarrow> 's \<Rightarrow> status \<times> 's) \<Rightarrow> pool6 \<Rightarrow>
    ipv6_prefix option \<Rightarrow> 's \<Rightarrow> (status \<times> 's) option" where
  "pool6_for_each func pool offset arg =
     do { list \<leftarrow> pool; Some (pool6_for_each_loop func list offset arg) }"

text \<open>The counter is an \<^verbatim>\<open>unsigned int\<close> that is widened on return.\<close>

definition pool6_count :: "pool6 \<Rightarrow> u64 option" where
  "pool6_count pool =
     do { list \<leftarrow> pool; Some (ucast (fold (\<lambda>_ count. count + 1) list (0 :: u32))) }"

definition pool6_is_empty :: "pool6 \<Rightarrow> bool option" where
  "pool6_is_empty pool = do { list \<leftarrow> pool; Some (list = []) }"

section \<open>Invariant and facts\<close>

text \<open>
  What the configuration operations keep of the pool: valid prefixes only, no duplicates, and at
  most one prefix in a SIIT instance.
\<close>

definition pool6_inv :: "xlat_type \<Rightarrow> pool6 \<Rightarrow> bool" where
  "pool6_inv xlat pool =
     (case pool of
        None \<Rightarrow> True
      | Some list \<Rightarrow> list_all (\<lambda>p. validate_prefix p = Inr ()) list \<and> distinct list
                     \<and> (xlat = XLAT_SIIT \<longrightarrow> length list \<le> 1))"

lemma pool6_inv_None [simp]: "pool6_inv xlat None"
  by (simp add: pool6_inv_def)

lemma validate_prefix_len:
  "validate_prefix p = Inr () \<Longrightarrow> p6_len p \<in> {32, 40, 48, 56, 64, 96}"
  by (auto simp: validate_prefix_def split: if_splits)

lemma pool6_add_inv:
  assumes "pool6_inv xlat pool" "pool6_add xlat k p pool = Some (r, pool')"
  shows "pool6_inv xlat pool'"
  using assms
  by (auto simp: pool6_add_def pool6_inv_def split: sum.splits option.splits if_splits bind_splits)

lemma pool6_remove_loop_eq:
  "pool6_remove_loop list p = (if p \<in> set list then Some (remove1 p list) else None)"
  by (induction list) auto

lemma pool6_remove_inv:
  assumes "pool6_inv xlat pool" "pool6_remove p pool = Some (r, pool')"
  shows "pool6_inv xlat pool'"
  using assms length_remove1 [of p]
  by (auto simp: pool6_remove_def pool6_inv_def pool6_remove_loop_eq list_all_iff
      split: option.splits if_splits bind_splits dest: notin_set_remove1)

lemma pool6_init_loop_inv:
  assumes "pool6_inv xlat pool" "pool6_init_loop parse xlat strs pool = Some (r, pool')"
  shows "pool6_inv xlat pool'"
  using assms
proof (induction strs arbitrary: pool)
  case (Cons s strs)
  obtain str k where s: "s = (str, k)" by fastforce
  from Cons.prems show ?case
    unfolding s
    by (auto split: bind_splits sum.splits if_splits dest!: pool6_add_inv [OF Cons.prems(1)]
        elim!: Cons.IH [rotated] simp: pool6_destroy_def pool6_replace_def)
qed simp

lemma pool6_for_each_loop_None: "pool6_for_each_loop f list None s = foreach_cb f list s"
  by (induction list arbitrary: s) (auto split: prod.splits)

lemma pool6_for_each_loop_Some:
  "pool6_for_each_loop f list (Some p) s =
     (if p \<in> set list then foreach_cb f (tl (dropWhile (\<lambda>q. q \<noteq> p) list)) s else (Err ESRCH, s))"
  by (induction list) (auto simp: pool6_for_each_loop_None)

text \<open>The states the configuration interface can bring the pool to.\<close>

inductive pool6_reach :: "xlat_type \<Rightarrow> pool6 \<Rightarrow> bool" for xlat where
  init: "pool6_init parse xlat k strs None = Some (r, pool) \<Longrightarrow> pool6_reach xlat pool"
| add: "pool6_reach xlat pool \<Longrightarrow> pool6_add xlat k p pool = Some (r, pool') \<Longrightarrow>
    pool6_reach xlat pool'"
| remove: "pool6_reach xlat pool \<Longrightarrow> pool6_remove p pool = Some (r, pool') \<Longrightarrow>
    pool6_reach xlat pool'"
| flush: "pool6_reach xlat pool \<Longrightarrow> pool6_flush k pool = Some (r, pool') \<Longrightarrow>
    pool6_reach xlat pool'"

lemma pool6_init_inv:
  "pool6_init parse xlat k strs None = Some (r, pool) \<Longrightarrow> pool6_inv xlat pool"
  by (auto simp: pool6_init_def create_pool_def split: if_splits option.splits
      elim!: pool6_init_loop_inv [rotated]) (auto simp: pool6_inv_def)

lemma pool6_flush_inv:
  "pool6_inv xlat pool \<Longrightarrow> pool6_flush k pool = Some (r, pool') \<Longrightarrow> pool6_inv xlat pool'"
  by (auto simp: pool6_flush_def create_pool_def pool6_replace_def pool6_inv_def
      split: if_splits bind_splits)

lemma pool6_reach_pool6_inv: "pool6_reach xlat pool \<Longrightarrow> pool6_inv xlat pool"
  by (induction rule: pool6_reach.induct)
    (auto intro: pool6_init_inv pool6_add_inv pool6_remove_inv pool6_flush_inv)

section \<open>Properties\<close>

text \<open>
  C18: however the configuration interface is used, the pool only holds prefixes of a length that
  RFC 6052 defines and without suffix bits, holds none of them twice, and holds at most one of
  them in a SIIT instance.
\<close>

theorem pool6_reach_inv:
  assumes "pool6_reach xlat (Some list)"
  shows "(\<forall>p. p \<in> set list \<longrightarrow> validate_prefix p = Inr ()) \<and> distinct list \<and>
    (xlat = XLAT_SIIT \<longrightarrow> length list \<le> 1)"
  using pool6_reach_pool6_inv [OF assms] by (auto simp: pool6_inv_def list_all_iff)

theorem pool6_reach_inv_witness:
  "pool6_reach XLAT_SIIT (Some [\<lparr>p6_address = 0x20010DB8000000000000000000000000, p6_len = 32\<rparr>])
   \<and> validate_prefix \<lparr>p6_address = 0x20010DB8000000000000000000000000, p6_len = 32\<rparr> = Inr ()"
proof -
  let ?p = "\<lparr>p6_address = 0x20010DB8000000000000000000000000, p6_len = 32\<rparr>"
  have "pool6_reach XLAT_SIIT (Some [])"
    by (rule pool6_reach.init [of "\<lambda>_. None" _ True "[]" Ok])
      (simp add: pool6_init_def create_pool_def)
  then have "pool6_reach XLAT_SIIT (Some [?p])"
    by (rule pool6_reach.add [of _ _ True ?p Ok])
      (simp add: pool6_add_def validate_prefix_def verify_prefix_def s6_addr_def upt_rec)
  then show ?thesis
    using pool6_reach_inv [of XLAT_SIIT "[?p]"] by simp
qed



end
