(* ===== verification/Rfc6052.thy ===== *)
theory Rfc6052
  imports Pool6
begin

text \<open>
  The RFC 6052 address translation (\<^verbatim>\<open>mod/common/rfc6052.c\<close>): an IPv4 address is embedded in an
  IPv6 prefix of one of six lengths, around the reserved octet 8. The \<^verbatim>\<open>union ipv4_address\<close> is
  read and written with \<open>as8\<close> and \<open>of_as8\<close>.
\<close>

section \<open>Definitions\<close>

definition addr_6to4 :: "in6_addr \<Rightarrow> ipv6_prefix \<Rightarrow> errno + in_addr" where
  "addr_6to4 src prefix =
     (if p6_len prefix = 32 then Inr (s6_addr32 src 1)
      else if p6_len prefix = 40 then
        Inr (of_as8 (s6_addr src 5) (s6_addr src 6) (s6_addr src 7) (s6_addr src 9))
      else if p6_len prefix = 48 then
        Inr (of_as8 (s6_addr src 6) (s6_addr src 7) (s6_addr src 9) (s6_addr src 10))
      else if p6_len prefix = 56 then
        Inr (of_as8 (s6_addr src 7) (s6_addr src 9) (s6_addr src 10) (s6_addr src 11))
      else if p6_len prefix = 64 then
        Inr (of_as8 (s6_addr src 9) (s6_addr src 10) (s6_addr src 11) (s6_addr src 12))
      else if p6_len prefix = 96 then Inr (s6_addr32 src 3)
      else Inl EINVAL)"

text \<open>
  The statements of a case run from top to bottom, starting from a zeroed address; in the
  composition below the last statement is the outermost one.
\<close>

definition addr_4to6 :: "in_addr \<Rightarrow> ipv6_prefix \<Rightarrow> errno + in6_addr" where
  "addr_4to6 src prefix =
     (let p32 = s6_addr32 (p6_address prefix); p8 = s6_addr (p6_address prefix)
      in
      if p6_len prefix = 32 then
        Inr (put_s6_addr32 1 src (put_s6_addr32 0 (p32 0) 0))
      else if p6_len prefix = 40 then
        Inr (put_s6_addr 9 (as8 src 3) (put_s6_addr 7 (as8 src 2) (put_s6_addr 6 (as8 src 1)
            (put_s6_addr 5 (as8 src 0) (put_s6_addr 4 (p8 4) (put_s6_addr32 0 (p32 0) 0))))))
      else if p6_len prefix = 48 then
        Inr (put_s6_addr 10 (as8 src 3) (put_s6_addr 9 (as8 src 2) (put_s6_addr 7 (as8 src 1)
            (put_s6_addr 6 (as8 src 0) (put_s6_addr 5 (p8 5) (put_s6_addr 4 (p8 4)
              (put_s6_addr32 0 (p32 0) 0)))))))
      else if p6_len prefix = 56 then
        Inr (put_s6_addr 11 (as8 src 3) (put_s6_addr 10 (as8 src 2) (put_s6_addr 9 (as8 src 1)
            (put_s6_addr 7 (as8 src 0) (put_s6_addr 6 (p8 6) (put_s6_addr 5 (p8 5)
              (put_s6_addr 4 (p8 4) (put_s6_addr32 0 (p32 0) 0))))))))
      else if p6_len prefix = 64 then
        Inr (put_s6_addr 12 (as8 src 3) (put_s6_addr 11 (as8 src 2) (put_s6_addr 10 (as8 src 1)
            (put_s6_addr 9 (as8 src 0) (put_s6_addr32 1 (p32 1) (put_s6_addr32 0 (p32 0) 0))))))
      else if p6_len prefix = 96 then
        Inr (put_s6_addr32 3 src (put_s6_addr32 2 (p32 2) (put_s6_addr32 1 (p32 1)
            (put_s6_addr32 0 (p32 0) 0))))
      else Inl EINVAL)"

text \<open>The pool is the one of \<^verbatim>\<open>pool6.c\<close>; the outer option is the fault of a NULL pool.\<close>

definition rfc6052_6to4 :: "pool6 \<Rightarrow> in6_addr \<Rightarrow> (errno + in_addr) option" where
  "rfc6052_6to4 pool a6 =
     do { r \<leftarrow> pool6_get pool (Some a6);
          Some (case r of Inl error \<Rightarrow> Inl error | Inr prefix \<Rightarrow> addr_6to4 a6 prefix) }"

definition rfc6052_4to6 :: "pool6 \<Rightarrow> in_addr \<Rightarrow> (errno + in6_addr) option" where
  "rfc6052_4to6 pool a4 =
     do { r \<leftarrow> pool6_peek pool;
          Some (case r of Inl error \<Rightarrow> Inl error | Inr prefix \<Rightarrow> addr_4to6 a4 prefix) }"

section \<open>Bytes and quadrants\<close>

text \<open>
  Both directions are compared byte by byte. \<open>bytes6\<close> holds what every write does to every
  byte and how quadrants are made of bytes.
\<close>

named_theorems bytes6

declare numeral_2_eq_2 [symmetric, bytes6]

lemma byte_cases: "(i :: nat) < 128 \<Longrightarrow> \<exists>q k. q \<le> 15 \<and> k < 8 \<and> i = 8 * (15 - q) + k"
proof -
  assume i: "i < 128"
  have "i div 8 < 16" using i by (intro less_mult_imp_div_less) simp
  then have "15 - i div 8 \<le> 15 \<and> i mod 8 < 8 \<and> i = 8 * (15 - (15 - i div 8)) + i mod 8"
    by simp
  then show ?thesis by blast
qed

lemma in6_addr_eq_bytes: "a = b \<longleftrightarrow> (\<forall>q \<le> 15. s6_addr a q = s6_addr b q)"
proof
  assume *: "\<forall>q \<le> 15. s6_addr a q = s6_addr b q"
  have "bit a i = bit b i" if i: "i < 128" for i
  proof -
    obtain q k where "q \<le> 15" "k < 8" "i = 8 * (15 - q) + k"
      using byte_cases [OF i] by blast
    then show ?thesis
      using * bit_s6_addr [of q k a] bit_s6_addr [of q k b] by simp
  qed
  then show "a = b" by (simp add: word_eq_iff_bits)
qed simp

lemma s6_addr_put_s6_addr [bytes6]:
  assumes "i \<le> 15" "j \<le> 15"
  shows "s6_addr (put_s6_addr i b a) j = (if i = j then b else s6_addr a j)"
proof -
  have "bit (s6_addr (put_s6_addr i b a) j) k = bit (if i = j then b else s6_addr a j) k"
    if k: "k < 8" for k
  proof -
    have "8 * (15 - j) + k < 128" using k by simp
    moreover have "8 * (15 - i) \<le> 8 * (15 - j) + k \<and> 8 * (15 - j) + k < 8 * (15 - i) + 8 \<longleftrightarrow> i = j"
      using assms k by auto
    ultimately show ?thesis
      using assms k by (simp add: bit_s6_addr bit_put_s6_addr)
  qed
  then show ?thesis by (simp add: word_eq_iff_bits)
qed

lemma bit_as8: "j \<le> 3 \<Longrightarrow> i < 8 \<Longrightarrow> bit (as8 w j) i \<longleftrightarrow> bit w (8 * (3 - j) + i)"
  by (simp add: as8_def bit_unsigned_iff bit_drop_bit_eq)

lemma s6_addr_put_s6_addr32 [bytes6]:
  assumes "q \<le> 3" "j \<le> 15"
  shows "s6_addr (put_s6_addr32 q w a) j = (if j div 4 = q then as8 w (j mod 4) else s6_addr a j)"
proof -
  have "bit (s6_addr (put_s6_addr32 q w a) j) k =
      bit (if j div 4 = q then as8 w (j mod 4) else s6_addr a j) k" if k: "k < 8" for k
  proof -
    have j: "j = 4 * (j div 4) + j mod 4" "j mod 4 < 4" by simp_all
    have "8 * (15 - j) + k < 128" using k by simp
    moreover have "32 * (3 - q) \<le> 8 * (15 - j) + k \<and> 8 * (15 - j) + k < 32 * (3 - q) + 32
        \<longleftrightarrow> j div 4 = q"
      using assms k j by linarith
    moreover have "j div 4 = q \<Longrightarrow> 8 * (15 - j) + k - 32 * (3 - q) = 8 * (3 - j mod 4) + k"
      using assms j by linarith
    ultimately show ?thesis
      using assms k j(2) by (simp add: bit_s6_addr bit_put_s6_addr32 bit_as8)
  qed
  then show ?thesis by (simp add: word_eq_iff_bits)
qed

lemma as8_s6_addr32 [bytes6]:
  assumes "q \<le> 3" "j \<le> 3"
  shows "as8 (s6_addr32 a q) j = s6_addr a (4 * q + j)"
proof -
  have "bit (as8 (s6_addr32 a q) j) k = bit (s6_addr a (4 * q + j)) k" if k: "k < 8" for k
  proof -
    have "32 * (3 - q) + (8 * (3 - j) + k) = 8 * (15 - (4 * q + j)) + k"
      using assms by linarith
    moreover have "bit (as8 (s6_addr32 a q) j) k = bit a (32 * (3 - q) + (8 * (3 - j) + k))"
      using assms k by (simp add: bit_s6_addr32 bit_as8)
    moreover have "bit (s6_addr a (4 * q + j)) k = bit a (8 * (15 - (4 * q + j)) + k)"
      using assms k by (simp add: bit_s6_addr)
    ultimately show ?thesis by (simp only:)
  qed
  then show ?thesis by (simp add: word_eq_iff_bits)
qed

lemma s6_addr_0 [bytes6]: "s6_addr 0 i = 0"
  by (simp add: s6_addr_def)

lemma in_addr_eq_bytes: "(a :: in_addr) = b \<longleftrightarrow> (\<forall>j \<le> 3. as8 a j = as8 b j)"
proof
  assume *: "\<forall>j \<le> 3. as8 a j = as8 b j"
  have "bit a i = bit b i" if i: "i < 32" for i
  proof -
    have "i div 8 < 4" using i by (intro less_mult_imp_div_less) simp
    then have "3 - i div 8 \<le> 3" "i mod 8 < 8" "i = 8 * (3 - (3 - i div 8)) + i mod 8"
      by simp_all
    then show ?thesis
      using * bit_as8 [of "3 - i div 8" "i mod 8" a] bit_as8 [of "3 - i div 8" "i mod 8" b] by simp
  qed
  then show "a = b" by (simp add: word_eq_iff_bits)
qed simp

lemma le3_cases: "(\<forall>j \<le> (3 :: nat). P j) \<longleftrightarrow> P 0 \<and> P 1 \<and> P 2 \<and> P 3"
  by (auto simp: le_Suc_eq numeral_3_eq_3 numeral_2_eq_2)

lemma le15_cases: "(\<forall>j \<le> (15 :: nat). P j) \<longleftrightarrow> P 0 \<and> P 1 \<and> P 2 \<and> P 3 \<and> P 4 \<and> P 5 \<and> P 6 \<and> P 7
    \<and> P 8 \<and> P 9 \<and> P 10 \<and> P 11 \<and> P 12 \<and> P 13 \<and> P 14 \<and> P 15"
proof -
  have "{..15 :: nat} = {0, 1, 2, 3, 4, 5, 6, 7, 8, 9, 10, 11, 12, 13, 14, 15}"
    by (auto simp: numeral_eq_Suc le_Suc_eq)
  moreover have "(\<forall>j \<le> (15 :: nat). P j) \<longleftrightarrow> (\<forall>j \<in> {..15}. P j)"
    by auto
  ultimately show ?thesis by (simp only: ball_simps) simp
qed

lemma as8_of_as8 [bytes6]:
  "as8 (of_as8 b0 b1 b2 b3) 0 = b0" "as8 (of_as8 b0 b1 b2 b3) (Suc 0) = b1"
  "as8 (of_as8 b0 b1 b2 b3) 2 = b2" "as8 (of_as8 b0 b1 b2 b3) 3 = b3"
  by (auto simp: word_eq_iff_bits bit_as8 of_as8_def bit_or_iff bit_push_bit_iff bit_unsigned_iff
      dest: bit_imp_le_length)

lemma ipv6_prefix_equal_bytes:
  assumes "k \<le> 16"
  shows "ipv6_prefix_equal a b (8 * k) \<longleftrightarrow> (\<forall>q < k. s6_addr a q = s6_addr b q)"
proof -
  have "ipv6_prefix_equal a b (8 * k) \<longleftrightarrow> (\<forall>i. 128 - 8 * k \<le> i \<longrightarrow> i < 128 \<longrightarrow> bit a i = bit b i)"
    by (simp add: ipv6_prefix_equal_def drop_bit_eq_iff_bits)
  also have "\<dots> \<longleftrightarrow> (\<forall>q < k. \<forall>j < 8. bit a (8 * (15 - q) + j) = bit b (8 * (15 - q) + j))"
  proof (rule iffI; intro allI impI)
    fix q j :: nat
    assume *: "\<forall>i. 128 - 8 * k \<le> i \<longrightarrow> i < 128 \<longrightarrow> bit a i = bit b i" "q < k" "j < 8"
    then have "128 - 8 * k \<le> 8 * (15 - q) + j" "8 * (15 - q) + j < 128" using assms by linarith+
    then show "bit a (8 * (15 - q) + j) = bit b (8 * (15 - q) + j)" using *(1) by blast
  next
    fix i assume *: "\<forall>q < k. \<forall>j < 8. bit a (8 * (15 - q) + j) = bit b (8 * (15 - q) + j)"
      "128 - 8 * k \<le> i" "i < 128"
    obtain q j where q: "q \<le> 15" "j < 8" "i = 8 * (15 - q) + j"
      using byte_cases [OF *(3)] by blast
    then have "q < k" using *(2) assms by linarith
    then show "bit a i = bit b i" using * q by blast
  qed
  also have "\<dots> \<longleftrightarrow> (\<forall>q < k. s6_addr a q = s6_addr b q)"
    using assms by (simp add: word_eq_iff_bits bit_s6_addr)
  finally show ?thesis .
qed

lemma validate_prefix_cases:
  assumes "validate_prefix p = Inr ()"
  obtains "p6_len p = 32" | "p6_len p = 40" | "p6_len p = 48" | "p6_len p = 56"
    | "p6_len p = 64" | "p6_len p = 96"
  using validate_prefix_len [OF assms] by auto

lemma prefix6_contains_bytes:
  assumes "unat (p6_len p) = 8 * k" "k \<le> 16"
  shows "prefix6_contains p a \<longleftrightarrow>
    (\<forall>q \<le> 15. q < k \<longrightarrow> s6_addr (p6_address p) q = s6_addr a q)"
  using assms by (auto simp: prefix6_contains_def ipv6_prefix_equal_bytes)

lemmas prefix6_contains_len =
  prefix6_contains_bytes [of _ 4, simplified] prefix6_contains_bytes [of _ 5, simplified]
  prefix6_contains_bytes [of _ 6, simplified] prefix6_contains_bytes [of _ 7, simplified]
  prefix6_contains_bytes [of _ 8, simplified] prefix6_contains_bytes [of _ 12, simplified]

text \<open>The octets of an embedded address that RFC 6052 leaves at zero.\<close>

definition rfc6052_reserved :: "ipv6_prefix \<Rightarrow> nat set" where
  "rfc6052_reserved p =
     (if p6_len p = 96 then {} else {q. q \<le> 15 \<and> (q = 8 \<or> unat (p6_len p) div 8 + 4 < q)})"

lemma addr_4to6_Inr:
  assumes "validate_prefix p = Inr ()"
  obtains d where "addr_4to6 a p = Inr d"
  using assms by (cases rule: validate_prefix_cases) (auto simp: addr_4to6_def Let_def)

lemma addr_4to6_contains:
  assumes "validate_prefix p = Inr ()" "addr_4to6 a p = Inr d"
  shows "prefix6_contains p d"
  using assms(1)
  by (cases rule: validate_prefix_cases)
    (use assms(2) in \<open>auto simp: prefix6_contains_len addr_4to6_def Let_def bytes6 le15_cases\<close>)

lemma addr_4to6_reserved:
  assumes "validate_prefix p = Inr ()" "addr_4to6 a p = Inr d" "q \<in> rfc6052_reserved p"
  shows "s6_addr d q = 0"
proof -
  have "\<forall>q \<le> 15. q \<in> rfc6052_reserved p \<longrightarrow> s6_addr d q = 0"
    using assms(1)
    by (cases rule: validate_prefix_cases)
      (use assms(2) in \<open>auto simp: le15_cases rfc6052_reserved_def addr_4to6_def Let_def bytes6\<close>)
  then show ?thesis
    using assms(3) by (auto simp: rfc6052_reserved_def split: if_splits)
qed

lemma addr_6to4_4to6:
  assumes "validate_prefix p = Inr ()" "addr_4to6 a p = Inr d"
  shows "addr_6to4 d p = Inr a"
  using assms(1)
  by (cases rule: validate_prefix_cases)
    (use assms(2) in \<open>auto simp: addr_4to6_def addr_6to4_def Let_def in_addr_eq_bytes le3_cases bytes6\<close>)

lemma addr_4to6_6to4:
  assumes "validate_prefix p = Inr ()" "addr_6to4 s p = Inr a" "prefix6_contains p s"
    "\<forall>q \<in> rfc6052_reserved p. s6_addr s q = 0"
  shows "addr_4to6 a p = Inr s"
proof -
  have "\<forall>q \<le> 15. q \<in> rfc6052_reserved p \<longrightarrow> s6_addr s q = 0"
    using assms(4) by blast
  with assms(1) show ?thesis
    by (cases rule: validate_prefix_cases)
      (use assms(2,3) in \<open>auto simp: addr_4to6_def addr_6to4_def Let_def in6_addr_eq_bytes le15_cases
        bytes6 rfc6052_reserved_def prefix6_contains_len\<close>)
qed

section \<open>Properties\<close>

text \<open>
  C15: for a prefix the pool accepts, \<^verbatim>\<open>addr_4to6\<close> always succeeds, its result lies in the prefix and
  has zeros in the octets RFC 6052 reserves, and \<^verbatim>\<open>addr_6to4\<close> with the same prefix gives the IPv4
  address back.
\<close>

theorem addr_4to6_roundtrip:
  assumes "validate_prefix p = Inr ()"
  shows "\<exists>d. addr_4to6 a p = Inr d \<and> addr_6to4 d p = Inr a \<and> prefix6_contains p d \<and>
    (\<forall>q. q \<in> rfc6052_reserved p \<longrightarrow> s6_addr d q = 0)"
  using addr_4to6_Inr [OF assms, of a] addr_6to4_4to6 [OF assms] addr_4to6_contains [OF assms]
    addr_4to6_reserved [OF assms] by metis

theorem addr_4to6_roundtrip_witness:
  "\<exists>d. addr_4to6 0xC0000221 \<lparr>p6_address = 0x20010DB8012234000000000000000000, p6_len = 56\<rparr> = Inr d \<and>
     addr_6to4 d \<lparr>p6_address = 0x20010DB8012234000000000000000000, p6_len = 56\<rparr> = Inr 0xC0000221"
proof -
  have "validate_prefix \<lparr>p6_address = 0x20010DB8012234000000000000000000, p6_len = 56\<rparr> = Inr ()"
    by (simp add: validate_prefix_def verify_prefix_def s6_addr_def upt_rec)
  from addr_4to6_roundtrip [OF this, of "0xC0000221"] show ?thesis by blast
qed

text \<open>
  C16: the other direction. An IPv6 address of the prefix whose reserved octets are zero is
  the image of the IPv4 address that \<^verbatim>\<open>addr_6to4\<close> extracts from it.
\<close>

theorem addr_6to4_roundtrip:
  assumes "validate_prefix p = Inr ()" "prefix6_contains p s"
    "\<forall>q \<in> rfc6052_reserved p. s6_addr s q = 0"
  shows "\<exists>a. addr_6to4 s p = Inr a \<and> addr_4to6 a p = Inr s"
proof -
  obtain a where "addr_6to4 s p = Inr a"
    using assms(1) by (cases rule: validate_prefix_cases) (auto simp: addr_6to4_def)
  then show ?thesis
    using addr_4to6_6to4 [OF assms(1) _ assms(2,3)] by blast
qed

theorem addr_6to4_roundtrip_witness:
  "\<exists>a. addr_6to4 0x0064FF9B0000000000000000C0000221
         \<lparr>p6_address = 0x0064FF9B000000000000000000000000, p6_len = 96\<rparr> = Inr a \<and>
       addr_4to6 a \<lparr>p6_address = 0x0064FF9B000000000000000000000000, p6_len = 96\<rparr> =
         Inr 0x0064FF9B0000000000000000C0000221"
  by (rule addr_6to4_roundtrip)
    (simp_all add: validate_prefix_def verify_prefix_def s6_addr_def upt_rec prefix6_contains_def
      ipv6_prefix_equal_def rfc6052_reserved_def)

text \<open>
  C17: with the prefixes the configuration can put in the pool, an IPv4 address translated with
  \<^verbatim>\<open>rfc6052_4to6\<close> (first prefix of the pool) is translated back to itself by
  \<^verbatim>\<open>rfc6052_6to4\<close> (first prefix that matches), even when prefixes of the pool overlap.
\<close>

theorem rfc6052_pool_roundtrip:
  assumes "pool6_reach xlat (Some (p # list))"
  shows "\<exists>d. rfc6052_4to6 (Some (p # list)) a = Some (Inr d) \<and>
    rfc6052_6to4 (Some (p # list)) d = Some (Inr a)"
proof -
  have valid: "validate_prefix p = Inr ()"
    using pool6_reach_pool6_inv [OF assms] by (simp add: pool6_inv_def)
  obtain d where d: "addr_4to6 a p = Inr d" "addr_6to4 d p = Inr a" "prefix6_contains p d"
    using addr_4to6_Inr [OF valid, of a] addr_6to4_4to6 [OF valid] addr_4to6_contains [OF valid]
    by metis
  then show ?thesis
    by (auto simp: rfc6052_4to6_def rfc6052_6to4_def pool6_peek_def pool6_get_def
        prefix6_contains_def)
qed

theorem rfc6052_pool_roundtrip_witness:
  "\<exists>d. rfc6052_4to6 (Some [\<lparr>p6_address = 0x0064FF9B000000000000000000000000, p6_len = 96\<rparr>]) 0x01020304
         = Some (Inr d) \<and>
       rfc6052_6to4 (Some [\<lparr>p6_address = 0x0064FF9B000000000000000000000000, p6_len = 96\<rparr>]) d
         = Some (Inr 0x01020304)"
proof (rule rfc6052_pool_roundtrip)
  let ?p = "\<lparr>p6_address = 0x0064FF9B000000000000000000000000, p6_len = 96\<rparr>"
  have "pool6_reach XLAT_NAT64 (Some [])"
    by (rule pool6_reach.init [of "\<lambda>_. None" _ True "[]" Ok])
      (simp add: pool6_init_def create_pool_def)
  then show "pool6_reach XLAT_NAT64 (Some [?p])"
    by (rule pool6_reach.add [of _ _ True ?p Ok])
      (simp add: pool6_add_def validate_prefix_def verify_prefix_def s6_addr_def upt_rec)
qed

end
