(* ===== verification/Rbtree.thy ===== *)
theory Rbtree
  imports Jool_Prelude
begin

text \<open>
  The red-black tree helpers (\<^verbatim>\<open>include/nat64/mod/common/rbtree.h\<close>, \<^verbatim>\<open>mod/common/rbtree.c\<close>).

  A tree is a binary tree of entries (in the clients: of pointers). The macros walk it with a
  comparison function that returns C's three-way result; the comparison may fault (\<open>None\<close>), as it
  dereferences the entry. The kernel's own tree code is a parameter \<open>rb_ops\<close>: rebalancing after an
  insertion, erasure and the in-order iterators. \<open>rb_laws\<close> states its documented
  behaviour on the in-order sequence of entries.
\<close>

section \<open>The kernel's tree operations\<close>

record 'e rb_ops =
  rb_insert_color :: "'e \<Rightarrow> 'e tree \<Rightarrow> 'e tree"
  rb_erase :: "'e \<Rightarrow> 'e tree \<Rightarrow> 'e tree"
  rb_first :: "'e tree \<Rightarrow> 'e option"
  rb_next :: "'e tree \<Rightarrow> 'e \<Rightarrow> 'e option"

definition rb_laws :: "'e rb_ops \<Rightarrow> bool" where
  "rb_laws ops \<longleftrightarrow>
     (\<forall>e t. inorder (rb_insert_color ops e t) = inorder t) \<and>
     (\<forall>e t. inorder (rb_erase ops e t) = remove1 e (inorder t)) \<and>
     (\<forall>t. rb_first ops t = (case inorder t of [] \<Rightarrow> None | x # _ \<Rightarrow> Some x)) \<and>
     (\<forall>t x xs ys. inorder t = xs @ x # ys \<longrightarrow> distinct (inorder t) \<longrightarrow>
        rb_next ops t x = (case ys of [] \<Rightarrow> None | y # _ \<Rightarrow> Some y))"

section \<open>Searching and adding\<close>

fun rbtree_find :: "('e \<Rightarrow> int option) \<Rightarrow> 'e tree \<Rightarrow> 'e option option" where
  "rbtree_find compare_fn Leaf = Some None"
| "rbtree_find compare_fn (Node l entry r) =
     do { comparison \<leftarrow> compare_fn entry;
          (if comparison < 0 then rbtree_find compare_fn r
           else if comparison > 0 then rbtree_find compare_fn l
           else Some (Some entry)) }"

text \<open>
  The walk of \<^verbatim>\<open>rbtree_add\<close> down to the free slot, and \<^verbatim>\<open>rb_link_node\<close> there; \<open>Some None\<close> is the
  \<^verbatim>\<open>-EEXIST\<close> exit.
\<close>

fun rbtree_link :: "'e \<Rightarrow> ('e \<Rightarrow> int option) \<Rightarrow> 'e tree \<Rightarrow> 'e tree option option" where
  "rbtree_link entry compare_fn Leaf = Some (Some (Node Leaf entry Leaf))"
| "rbtree_link entry compare_fn (Node l this r) =
     do { result \<leftarrow> compare_fn this;
          (if result < 0 then do { t \<leftarrow> rbtree_link entry compare_fn r; Some (map_option (Node l this) t) }
           else if result > 0
           then do { t \<leftarrow> rbtree_link entry compare_fn l; Some (map_option (\<lambda>l'. Node l' this r) t) }
           else Some None) }"

definition rbtree_add :: "'e rb_ops \<Rightarrow> 'e \<Rightarrow> ('e \<Rightarrow> int option) \<Rightarrow> 'e tree \<Rightarrow>
    (status \<times> 'e tree) option" where
  "rbtree_add ops entry compare_fn root =
     do { linked \<leftarrow> rbtree_link entry compare_fn root;
          Some (case linked of
                  None \<Rightarrow> (Err EEXIST, root)
                | Some t \<Rightarrow> (Ok, rb_insert_color ops entry t)) }"

text \<open>\<^verbatim>\<open>rbtree_find_node\<close>: the matching node, if any, and the last node visited (\<^verbatim>\<open>parent\<close>).\<close>

fun rbtree_find_node :: "('e \<Rightarrow> int option) \<Rightarrow> 'e option \<Rightarrow> 'e tree \<Rightarrow>
    ('e option \<times> 'e option) option" where
  "rbtree_find_node compare_cb parent Leaf = Some (None, parent)"
| "rbtree_find_node compare_cb parent (Node l entry r) =
     do { comparison \<leftarrow> compare_cb entry;
          (if comparison < 0 then rbtree_find_node compare_cb (Some entry) r
           else if comparison > 0 then rbtree_find_node compare_cb (Some entry) l
           else Some (Some entry, Some entry)) }"

section \<open>Clearing\<close>

text \<open>
  \<^verbatim>\<open>rbtree_clear\<close> walks with parent pointers. The current node is the root of a subtree together
  with the path to it: for every ancestor, from the parent up, which child we are, the ancestor,
  and its other subtree. The result is the sequence of nodes handed to the destructor.
\<close>

datatype 'e rb_up = Left_of 'e "'e tree" | Right_of "'e tree" 'e

fun rb_leftmost :: "'e tree \<Rightarrow> 'e rb_up list \<Rightarrow> 'e tree \<times> 'e rb_up list" where
  "rb_leftmost (Node (Node ll lx lr) x r) path = rb_leftmost (Node ll lx lr) (Left_of x r # path)"
| "rb_leftmost t path = (t, path)"

text \<open>
  The node that the inner loops reach: down to the right child and then leftmost, as long as
  there is a right child.
\<close>

fun up_size :: "'e rb_up \<Rightarrow> nat" where
  "up_size (Left_of x r) = Suc (size r)"
| "up_size (Right_of l x) = Suc (size l)"

lemma rb_leftmost_size:
  "rb_leftmost t path = (t', path') \<Longrightarrow>
     size t' + sum_list (map up_size path') = size t + sum_list (map up_size path) \<and> size t' \<le> size t"
  by (induction t path rule: rb_leftmost.induct) auto

function rb_descend :: "'e tree \<Rightarrow> 'e rb_up list \<Rightarrow> 'e tree \<times> 'e rb_up list" where
  "rb_descend (Node l x (Node rl rx rr)) path =
     (case rb_leftmost (Node rl rx rr) (Right_of l x # path) of (t', path') \<Rightarrow> rb_descend t' path')"
| "rb_descend (Node l x Leaf) path = (Node l x Leaf, path)"
| "rb_descend Leaf path = (Leaf, path)"
  by pat_completeness auto
termination
  by (relation "measure (\<lambda>(t, path). size t)") (auto split: prod.splits dest: rb_leftmost_size)

lemma rb_descend_size:
  "rb_descend t path = (t', path') \<Longrightarrow>
     size t' + sum_list (map up_size path') = size t + sum_list (map up_size path)"
  by (induction t path rule: rb_descend.induct)
    (auto split: prod.splits dest!: rb_leftmost_size)

text \<open>The parent, with the link to the destroyed child cleared.\<close>

fun rb_go_up :: "'e rb_up list \<Rightarrow> 'e tree \<times> 'e rb_up list" where
  "rb_go_up [] = (Leaf, [])"
| "rb_go_up (Left_of x r # path) = (Node Leaf x r, path)"
| "rb_go_up (Right_of l x # path) = (Node l x Leaf, path)"

lemma rb_go_up_size:
  "rb_go_up path = (parent, path') \<Longrightarrow>
     size parent + sum_list (map up_size path') = sum_list (map up_size path)"
  by (cases path rule: rb_go_up.cases) auto

function rb_clear_loop :: "'e tree \<Rightarrow> 'e rb_up list \<Rightarrow> 'e list" where
  "rb_clear_loop t path =
     (case rb_descend t path of
        (Leaf, _) \<Rightarrow> []
      | (Node l current r, path') \<Rightarrow>
          (case rb_go_up path' of (parent, path'') \<Rightarrow> current # rb_clear_loop parent path''))"
  by pat_completeness auto
termination
  by (relation "measure (\<lambda>(t, path). size t + sum_list (map up_size path))")
    (auto split: prod.splits dest!: rb_descend_size [OF sym] dest: rb_go_up_size)

declare rb_clear_loop.simps [simp del]

definition rbtree_clear :: "'e tree \<Rightarrow> 'e list" where
  "rbtree_clear root = (case rb_leftmost root [] of (first, path) \<Rightarrow> rb_clear_loop first path)"

section \<open>What clearing visits\<close>

text \<open>The nodes still to be destroyed, in postorder, when \<open>t\<close> is done and the path remains.\<close>

fun up_postorder :: "'e rb_up list \<Rightarrow> 'e list" where
  "up_postorder [] = []"
| "up_postorder (Left_of x r # path) = postorder r @ x # up_postorder path"
| "up_postorder (Right_of l x # path) = x # up_postorder path"

text \<open>Left subtrees above the current node are gone by the time the walk is in a right child.\<close>

fun up_clean :: "'e rb_up list \<Rightarrow> bool" where
  "up_clean [] = True"
| "up_clean (Left_of x r # path) = up_clean path"
| "up_clean (Right_of l x # path) = (l = Leaf \<and> up_clean path)"

fun left_free :: "'e tree \<Rightarrow> bool" where
  "left_free Leaf = True"
| "left_free (Node l x r) = (l = Leaf)"

lemma rb_leftmost_spec:
  "rb_leftmost t path = (t', path') \<Longrightarrow> up_clean path \<Longrightarrow>
     left_free t' \<and> up_clean path' \<and>
     postorder t' @ up_postorder path' = postorder t @ up_postorder path \<and> (t' = Leaf \<longleftrightarrow> t = Leaf)"
  by (induction t path rule: rb_leftmost.induct) auto

lemma rb_descend_spec:
  "rb_descend t path = (t', path') \<Longrightarrow> left_free t \<Longrightarrow> up_clean path \<Longrightarrow>
     up_clean path' \<and> (t = Leaf \<longrightarrow> t' = Leaf) \<and>
     (t \<noteq> Leaf \<longrightarrow> (\<exists>x. t' = Node Leaf x Leaf \<and>
        x # up_postorder path' = postorder t @ up_postorder path))"
proof (induction t path rule: rb_descend.induct)
  case (1 l x rl rx rr path)
  obtain t1 p1 where m: "rb_leftmost (Node rl rx rr) (Right_of l x # path) = (t1, p1)" by fastforce
  then have "left_free t1" "up_clean p1" "t1 \<noteq> Leaf"
    "postorder t1 @ up_postorder p1 = postorder (Node l x (Node rl rx rr)) @ up_postorder path"
    using rb_leftmost_spec [OF m] 1(3,4) by auto
  then show ?case using 1(1) [OF m [symmetric]] 1(2) m by auto
qed auto

lemma rb_clear_loop_postorder:
  "left_free t \<Longrightarrow> up_clean path \<Longrightarrow> t \<noteq> Leaf \<Longrightarrow>
     rb_clear_loop t path = postorder t @ up_postorder path"
proof (induction t path rule: rb_clear_loop.induct)
  case (1 t path)
  obtain x path' where d: "rb_descend t path = (Node Leaf x Leaf, path')" "up_clean path'"
    "x # up_postorder path' = postorder t @ up_postorder path"
    using rb_descend_spec [of t path] 1(2-4) by (metis surj_pair)
  obtain parent path'' where u: "rb_go_up path' = (parent, path'')" by fastforce
  have "rb_clear_loop parent path'' = up_postorder path'"
  proof (cases path')
    case Nil
    then show ?thesis using u by (simp add: rb_clear_loop.simps)
  next
    case (Cons up rest)
    then have "left_free parent" "up_clean path''" "parent \<noteq> Leaf"
      "postorder parent @ up_postorder path'' = up_postorder path'"
      using u d(2) by (cases up; auto)+
    then show ?thesis using 1(1) [OF d(1) [symmetric] refl u [symmetric]] by simp
  qed
  then show ?case using d u by (simp add: rb_clear_loop.simps [of t path])
qed

lemma set_postorder: "set (postorder t) = set_tree t"
  by (induction t) auto

section \<open>Search trees\<close>

text \<open>
  The contract between the tree helpers and a client: the client's entries have a key in the
  client's store \<open>h\<close> (\<open>None\<close> for an entry that must not be dereferenced), and its comparison
  function orders entries against a wanted key the way the linear order of keys does.
\<close>

locale rb_order =
  fixes key_of :: "'h \<Rightarrow> 'e \<Rightarrow> 'k::linorder option"
    and cmp :: "'h \<Rightarrow> 'k \<Rightarrow> 'e \<Rightarrow> int option"
  assumes cmp_sign: "key_of h e = Some k' \<Longrightarrow>
    \<exists>c. cmp h k e = Some c \<and> (c < 0 \<longleftrightarrow> k' < k) \<and> (c > 0 \<longleftrightarrow> k < k')"
begin

definition keys_sorted :: "'h \<Rightarrow> 'e list \<Rightarrow> bool" where
  "keys_sorted h es \<longleftrightarrow>
     (\<forall>e \<in> set es. key_of h e \<noteq> None) \<and> sorted_wrt (\<lambda>a b. the (key_of h a) < the (key_of h b)) es"

lemma keys_sorted_simps [simp]:
  "keys_sorted h []"
  "keys_sorted h (e # es) \<longleftrightarrow> key_of h e \<noteq> None \<and> keys_sorted h es \<and>
     (\<forall>x \<in> set es. the (key_of h e) < the (key_of h x))"
  "keys_sorted h (xs @ ys) \<longleftrightarrow> keys_sorted h xs \<and> keys_sorted h ys \<and>
     (\<forall>x \<in> set xs. \<forall>y \<in> set ys. the (key_of h x) < the (key_of h y))"
  by (auto simp: keys_sorted_def sorted_wrt_append)

lemma keys_sorted_distinct: "keys_sorted h es \<Longrightarrow> distinct es"
  by (induction es) auto

lemma keys_sorted_unique:
  "keys_sorted h es \<Longrightarrow> a \<in> set es \<Longrightarrow> b \<in> set es \<Longrightarrow> key_of h a = key_of h b \<Longrightarrow> a = b"
  by (induction es) fastforce+

lemma keys_sorted_remove1: "keys_sorted h es \<Longrightarrow> keys_sorted h (remove1 e es)"
  by (induction es) (auto dest: notin_set_remove1)

lemma cmp_cases:
  assumes "key_of h e \<noteq> None"
  obtains c where "cmp h k e = Some c" "c < 0 \<longleftrightarrow> the (key_of h e) < k" "c > 0 \<longleftrightarrow> k < the (key_of h e)"
    "c = 0 \<longleftrightarrow> key_of h e = Some k"
  using assms cmp_sign [of h e "the (key_of h e)" k] by (fastforce simp: not_less)

lemma find_ok:
  assumes "keys_sorted h (inorder t)"
  shows "\<exists>r. rbtree_find (cmp h k) t = Some r \<and>
    (\<forall>e. r = Some e \<longleftrightarrow> e \<in> set (inorder t) \<and> key_of h e = Some k)"
  using assms
proof (induction t)
  case (Node l x r)
  obtain c where c: "cmp h k x = Some c" "c < 0 \<longleftrightarrow> the (key_of h x) < k"
    "c > 0 \<longleftrightarrow> k < the (key_of h x)" "c = 0 \<longleftrightarrow> key_of h x = Some k"
    using cmp_cases [of h x k] Node.prems by auto
  obtain rl rr where sub:
    "rbtree_find (cmp h k) l = Some rl" "\<forall>e. rl = Some e \<longleftrightarrow> e \<in> set (inorder l) \<and> key_of h e = Some k"
    "rbtree_find (cmp h k) r = Some rr" "\<forall>e. rr = Some e \<longleftrightarrow> e \<in> set (inorder r) \<and> key_of h e = Some k"
    using Node by auto
  have l: "key_of h e \<noteq> Some k" if "e \<in> set (inorder l)" "c \<le> 0" for e
    using that Node.prems c by fastforce
  have r: "key_of h e \<noteq> Some k" if "e \<in> set (inorder r)" "c \<ge> 0" for e
    using that Node.prems c by fastforce
  consider "c < 0" | "c > 0" | "c = 0" by linarith
  then show ?case
  proof cases
    case 1
    then show ?thesis using c sub l by auto
  next
    case 2
    then show ?thesis using c sub r by auto
  next
    case 3
    then show ?thesis using c l r by auto
  qed
qed simp

lemma link_ok:
  assumes "keys_sorted h (inorder t)" "key_of h e = Some k"
  shows "if \<exists>x \<in> set (inorder t). key_of h x = Some k then rbtree_link e (cmp h k) t = Some None
    else \<exists>t' xs ys. rbtree_link e (cmp h k) t = Some (Some t') \<and> inorder t = xs @ ys \<and>
      inorder t' = xs @ e # ys \<and> (\<forall>x \<in> set xs. the (key_of h x) < k) \<and>
      (\<forall>y \<in> set ys. k < the (key_of h y))"
  using assms(1)
proof (induction t)
  case (Node l x r)
  obtain c where c: "cmp h k x = Some c" "c < 0 \<longleftrightarrow> the (key_of h x) < k"
    "c > 0 \<longleftrightarrow> k < the (key_of h x)" "c = 0 \<longleftrightarrow> key_of h x = Some k"
    using cmp_cases [of h x k] Node.prems by auto
  have l: "the (key_of h y) < k \<and> key_of h y \<noteq> Some k" if "y \<in> set (inorder l)" "c \<le> 0" for y
    using that Node.prems c by fastforce
  have r: "k < the (key_of h y) \<and> key_of h y \<noteq> Some k" if "y \<in> set (inorder r)" "c \<ge> 0" for y
    using that Node.prems c by fastforce
  consider "c < 0" | "c > 0" | "c = 0" by linarith
  then show ?case
  proof cases
    case 1
    then show ?thesis
    proof (cases "\<exists>x \<in> set (inorder r). key_of h x = Some k")
      case True
      then show ?thesis using Node c 1 by auto
    next
      case False
      then obtain t' xs ys where t': "rbtree_link e (cmp h k) r = Some (Some t')" "inorder r = xs @ ys"
        "inorder t' = xs @ e # ys" "\<forall>x \<in> set xs. the (key_of h x) < k" "\<forall>y \<in> set ys. k < the (key_of h y)"
        using Node by auto
      have "\<not> (\<exists>y \<in> set (inorder (Node l x r)). key_of h y = Some k)"
        using False l c 1 by auto
      then show ?thesis
        using t' c 1 l
        by (simp only: if_False) (intro exI [of _ "Node l x t'"] exI [of _ "inorder l @ x # xs"] exI [of _ ys], auto)
    qed
  next
    case 2
    then show ?thesis
    proof (cases "\<exists>x \<in> set (inorder l). key_of h x = Some k")
      case True
      then show ?thesis using Node c 2 by auto
    next
      case False
      then obtain t' xs ys where t': "rbtree_link e (cmp h k) l = Some (Some t')" "inorder l = xs @ ys"
        "inorder t' = xs @ e # ys" "\<forall>x \<in> set xs. the (key_of h x) < k" "\<forall>y \<in> set ys. k < the (key_of h y)"
        using Node by auto
      have "\<not> (\<exists>y \<in> set (inorder (Node l x r)). key_of h y = Some k)"
        using False r c 2 by auto
      then show ?thesis
        using t' c 2 r
        by (simp only: if_False) (intro exI [of _ "Node t' x r"] exI [of _ xs] exI [of _ "ys @ x # inorder r"], auto)
    qed
  next
    case 3
    then show ?thesis using c by auto
  qed
qed auto

end

text \<open>
  C31: \<^verbatim>\<open>rbtree_clear\<close> ends and hands every node of the tree to the destructor exactly once,
  children before their parent (postorder), so that no node is read after it was destroyed.
\<close>

theorem rbtree_clear_postorder: "rbtree_clear root = postorder root"
proof (cases root)
  case Leaf
  then show ?thesis by (simp add: rbtree_clear_def rb_clear_loop.simps)
next
  case (Node l x r)
  obtain t path where m: "rb_leftmost root [] = (t, path)" by fastforce
  then show ?thesis
    using rb_leftmost_spec [OF m] rb_clear_loop_postorder [of t path] Node
    by (auto simp: rbtree_clear_def)
qed

section \<open>Adding to and iterating over search trees\<close>

context rb_order
begin

lemma add_ok:
  assumes "rb_laws ops" "keys_sorted h (inorder t)" "key_of h e = Some k"
  shows "if \<exists>x \<in> set (inorder t). key_of h x = Some k then rbtree_add ops e (cmp h k) t = Some (Err EEXIST, t)
    else \<exists>t' xs ys. rbtree_add ops e (cmp h k) t = Some (Ok, t') \<and> inorder t = xs @ ys \<and>
      inorder t' = xs @ e # ys \<and> keys_sorted h (inorder t')"
proof (cases "\<exists>x \<in> set (inorder t). key_of h x = Some k")
  case True
  then show ?thesis using link_ok [OF assms(2,3)] by (simp add: rbtree_add_def)
next
  case False
  then obtain t' xs ys where "rbtree_link e (cmp h k) t = Some (Some t')" "inorder t = xs @ ys"
    "inorder t' = xs @ e # ys" "\<forall>x \<in> set xs. the (key_of h x) < k" "\<forall>y \<in> set ys. k < the (key_of h y)"
    using link_ok [OF assms(2,3)] by auto
  then show ?thesis
    using False assms
    by (simp only: if_False, intro exI [of _ "rb_insert_color ops e t'"] exI [of _ xs] exI [of _ ys])
      (auto simp: rbtree_add_def rb_laws_def)
qed

lemma add_Ok_iff:
  assumes "rb_laws ops" "keys_sorted h (inorder t)" "key_of h e = Some k"
  obtains (exists) x where "x \<in> set (inorder t)" "key_of h x = Some k"
      "rbtree_add ops e (cmp h k) t = Some (Err EEXIST, t)"
    | (added) t' xs ys where "\<forall>x \<in> set (inorder t). key_of h x \<noteq> Some k"
      "rbtree_add ops e (cmp h k) t = Some (Ok, t')" "inorder t = xs @ ys" "inorder t' = xs @ e # ys"
      "keys_sorted h (inorder t')"
  using add_ok [OF assms] exists added by (metis (no_types, lifting))

lemma find_node_ok:
  assumes "keys_sorted h (inorder t)"
  shows "\<exists>node parent. rbtree_find_node (cmp h k) p t = Some (node, parent) \<and>
    (case node of
       Some e \<Rightarrow> e \<in> set (inorder t) \<and> key_of h e = Some k
     | None \<Rightarrow> \<exists>xs ys. inorder t = xs @ ys \<and> (\<forall>x \<in> set xs. the (key_of h x) < k) \<and>
         (\<forall>y \<in> set ys. k < the (key_of h y)) \<and>
         (t = Leaf \<and> parent = p \<or> xs \<noteq> [] \<and> parent = Some (last xs) \<or> ys \<noteq> [] \<and> parent = Some (hd ys)))"
  using assms
proof (induction t arbitrary: p)
  case (Node l x r)
  obtain c where c: "cmp h k x = Some c" "c < 0 \<longleftrightarrow> the (key_of h x) < k"
    "c > 0 \<longleftrightarrow> k < the (key_of h x)" "c = 0 \<longleftrightarrow> key_of h x = Some k"
    using cmp_cases [of h x k] Node.prems by auto
  have l: "the (key_of h y) < k" if "y \<in> set (inorder l)" "c \<le> 0" for y
    using that Node.prems c by fastforce
  have r: "k < the (key_of h y)" if "y \<in> set (inorder r)" "c \<ge> 0" for y
    using that Node.prems c by fastforce
  consider "c < 0" | "c > 0" | "c = 0" by linarith
  then show ?case
  proof cases
    case 1
    obtain node parent where n: "rbtree_find_node (cmp h k) (Some x) r = Some (node, parent)"
      "case node of
         Some e \<Rightarrow> e \<in> set (inorder r) \<and> key_of h e = Some k
       | None \<Rightarrow> \<exists>xs ys. inorder r = xs @ ys \<and> (\<forall>x \<in> set xs. the (key_of h x) < k) \<and>
           (\<forall>y \<in> set ys. k < the (key_of h y)) \<and>
           (r = Leaf \<and> parent = Some x \<or> xs \<noteq> [] \<and> parent = Some (last xs) \<or> ys \<noteq> [] \<and> parent = Some (hd ys))"
      using Node.IH(2) [of "Some x"] Node.prems by auto
    show ?thesis
    proof (cases node)
      case None
      then obtain xs ys where xy: "inorder r = xs @ ys" "\<forall>x \<in> set xs. the (key_of h x) < k"
        "\<forall>y \<in> set ys. k < the (key_of h y)"
        "r = Leaf \<and> parent = Some x \<or> xs \<noteq> [] \<and> parent = Some (last xs) \<or> ys \<noteq> [] \<and> parent = Some (hd ys)"
        using n(2) by auto
      have "\<exists>xs' ys'. inorder (Node l x r) = xs' @ ys' \<and> (\<forall>x \<in> set xs'. the (key_of h x) < k) \<and>
          (\<forall>y \<in> set ys'. k < the (key_of h y)) \<and>
          (xs' \<noteq> [] \<and> parent = Some (last xs') \<or> ys' \<noteq> [] \<and> parent = Some (hd ys'))"
        using xy c 1 l by (intro exI [of _ "inorder l @ x # xs"] exI [of _ ys]) auto
      then show ?thesis using n(1) c 1 None by auto
    next
      case (Some e)
      then show ?thesis using n c 1 by auto
    qed
  next
    case 2
    obtain node parent where n: "rbtree_find_node (cmp h k) (Some x) l = Some (node, parent)"
      "case node of
         Some e \<Rightarrow> e \<in> set (inorder l) \<and> key_of h e = Some k
       | None \<Rightarrow> \<exists>xs ys. inorder l = xs @ ys \<and> (\<forall>x \<in> set xs. the (key_of h x) < k) \<and>
           (\<forall>y \<in> set ys. k < the (key_of h y)) \<and>
           (l = Leaf \<and> parent = Some x \<or> xs \<noteq> [] \<and> parent = Some (last xs) \<or> ys \<noteq> [] \<and> parent = Some (hd ys))"
      using Node.IH(1) [of "Some x"] Node.prems by auto
    show ?thesis
    proof (cases node)
      case None
      then obtain xs ys where xy: "inorder l = xs @ ys" "\<forall>x \<in> set xs. the (key_of h x) < k"
        "\<forall>y \<in> set ys. k < the (key_of h y)"
        "l = Leaf \<and> parent = Some x \<or> xs \<noteq> [] \<and> parent = Some (last xs) \<or> ys \<noteq> [] \<and> parent = Some (hd ys)"
        using n(2) by auto
      have "\<exists>xs' ys'. inorder (Node l x r) = xs' @ ys' \<and> (\<forall>x \<in> set xs'. the (key_of h x) < k) \<and>
          (\<forall>y \<in> set ys'. k < the (key_of h y)) \<and>
          (xs' \<noteq> [] \<and> parent = Some (last xs') \<or> ys' \<noteq> [] \<and> parent = Some (hd ys'))"
        using xy c 2 r by (intro exI [of _ xs] exI [of _ "ys @ x # inorder r"]) auto
      then show ?thesis using n(1) c 2 None by auto
    next
      case (Some e)
      then show ?thesis using n c 2 by auto
    qed
  next
    case 3
    then show ?thesis using c by auto
  qed
qed simp

end

section \<open>Erasing, and iterating from a starting point\<close>

text \<open>Erasing a node that is not linked in the tree corrupts memory: a fault.\<close>

definition rbtree_erase :: "'e rb_ops \<Rightarrow> 'e \<Rightarrow> 'e tree \<Rightarrow> 'e tree option" where
  "rbtree_erase ops e root = (if e \<in> set (inorder root) then Some (rb_erase ops e root) else None)"

text \<open>
  The tables' \<^verbatim>\<open>find_starting_point\<close> once there is an offset: the offset's node or its successor if
  it is in the tree, else the first node past it.
\<close>

definition rb_start :: "'e rb_ops \<Rightarrow> ('e \<Rightarrow> int option) \<Rightarrow> bool \<Rightarrow> 'e tree \<Rightarrow> 'e option option" where
  "rb_start ops compare include_offset root =
     do { (node, parent) \<leftarrow> rbtree_find_node compare None root;
          (case node of
             Some n \<Rightarrow> Some (if include_offset then Some n else rb_next ops root n)
           | None \<Rightarrow>
               (case parent of
                  None \<Rightarrow> Some None
                | Some p \<Rightarrow> do { gap \<leftarrow> compare p;
                               Some (if gap < 0 then rb_next ops root p else Some p) })) }"

text \<open>
  The tables' \<^verbatim>\<open>for (; node && !error; node = next)\<close> loop, in a state \<open>s\<close> that holds the tree: the
  successor is read before the callback runs, which may remove the node.
\<close>

partial_function (option) rb_iterate :: "'e rb_ops \<Rightarrow> ('s \<Rightarrow> 'e tree) \<Rightarrow>
    ('e \<Rightarrow> 's \<Rightarrow> (status \<times> 's) option) \<Rightarrow> 'e option \<Rightarrow> 's \<Rightarrow> (status \<times> 's) option" where
  "rb_iterate ops root func node s =
     (case node of
        None \<Rightarrow> Some (Ok, s)
      | Some e \<Rightarrow>
          do { (error, s') \<leftarrow> func e s;
               (if error = Ok then rb_iterate ops root func (rb_next ops (root s) e) s'
                else Some (error, s')) })"

declare rb_iterate.simps [code]

text \<open>The same loop over a list that is fixed beforehand.\<close>

fun list_iterate :: "('e \<Rightarrow> 's \<Rightarrow> (status \<times> 's) option) \<Rightarrow> 'e list \<Rightarrow> 's \<Rightarrow> (status \<times> 's) option" where
  "list_iterate func [] s = Some (Ok, s)"
| "list_iterate func (e # es) s =
     do { (error, s') \<leftarrow> func e s;
          (if error = Ok then list_iterate func es s' else Some (error, s')) }"

definition first_of :: "'e list \<Rightarrow> 'e option" where
  "first_of es = (case es of [] \<Rightarrow> None | e # _ \<Rightarrow> Some e)"

lemma first_of_simps [simp]: "first_of [] = None" "first_of (e # es) = Some e"
  by (simp_all add: first_of_def)

lemma rb_laws_insert [simp]: "rb_laws ops \<Longrightarrow> inorder (rb_insert_color ops e t) = inorder t"
  by (simp add: rb_laws_def)

lemma rb_laws_erase [simp]: "rb_laws ops \<Longrightarrow> inorder (rb_erase ops e t) = remove1 e (inorder t)"
  unfolding rb_laws_def by blast

lemma rb_laws_first: "rb_laws ops \<Longrightarrow> rb_first ops t = first_of (inorder t)"
  unfolding rb_laws_def first_of_def by blast

lemma rb_laws_next:
  "rb_laws ops \<Longrightarrow> inorder t = xs @ x # ys \<Longrightarrow> distinct (inorder t) \<Longrightarrow> rb_next ops t x = first_of ys"
  unfolding rb_laws_def first_of_def by blast

text \<open>
  The tree loop is the loop over the nodes that follow the starting point, provided a callback
  removes no node that is still to come.
\<close>

lemma rb_iterate_list:
  assumes laws: "rb_laws ops"
    and step: "\<And>e s pre rest s'. inorder (root s) = pre @ e # rest \<Longrightarrow> distinct (inorder (root s)) \<Longrightarrow>
      func e s = Some (Ok, s') \<Longrightarrow> (\<exists>pre'. inorder (root s') = pre' @ rest) \<and> distinct (inorder (root s'))"
    and "inorder (root s) = pre @ es" "distinct (inorder (root s))"
  shows "rb_iterate ops root func (first_of es) s = list_iterate func es s"
  using assms(3,4)
proof (induction es arbitrary: pre s)
  case Nil
  then show ?case by (simp add: rb_iterate.simps)
next
  case (Cons e es)
  have n: "rb_next ops (root s) e = first_of es"
    using rb_laws_next [OF laws] Cons.prems by blast
  have "rb_iterate ops root func (first_of es) s' = list_iterate func es s'"
    if "func e s = Some (Ok, s')" for s'
    using step [OF Cons.prems that] Cons.IH by blast
  then show ?case
    by (cases "func e s") (auto simp: rb_iterate.simps [of ops root func "Some e"] n split: prod.splits)
qed

lemma list_iterate_append:
  "list_iterate func (xs @ ys) s =
     do { (error, s') \<leftarrow> list_iterate func xs s;
          (if error = Ok then list_iterate func ys s' else Some (error, s')) }"
proof (induction xs arbitrary: s)
  case (Cons x xs)
  then show ?case by (cases "func x s") (auto split: prod.splits)
qed simp

context rb_order
begin

lemma keys_sorted_cong:
  "\<forall>e \<in> set es. key_of h' e = key_of h e \<Longrightarrow> keys_sorted h' es = keys_sorted h es"
  by (induction es) auto

lemma start_ok:
  assumes laws: "rb_laws ops" and srt: "keys_sorted h (inorder t)"
  shows "rb_start ops (cmp h k) include t =
    Some (first_of (dropWhile (\<lambda>x. the (key_of h x) < k \<or> \<not> include \<and> the (key_of h x) = k) (inorder t)))"
proof -
  obtain node parent where n: "rbtree_find_node (cmp h k) None t = Some (node, parent)"
    and r: "case node of
       Some e \<Rightarrow> e \<in> set (inorder t) \<and> key_of h e = Some k
     | None \<Rightarrow> \<exists>xs ys. inorder t = xs @ ys \<and> (\<forall>x \<in> set xs. the (key_of h x) < k) \<and>
         (\<forall>y \<in> set ys. k < the (key_of h y)) \<and>
         (t = Leaf \<and> parent = None \<or> xs \<noteq> [] \<and> parent = Some (last xs) \<or> ys \<noteq> [] \<and> parent = Some (hd ys))"
    using find_node_ok [OF srt, of k None] by blast
  have dist: "distinct (inorder t)" using srt keys_sorted_distinct by blast
  show ?thesis
  proof (cases node)
    case (Some e)
    then obtain xs ys where t: "inorder t = xs @ e # ys" "key_of h e = Some k"
      using r split_list [of e "inorder t"] by auto
    have "the (key_of h x) < k" if "x \<in> set xs" for x using that srt t by auto
    moreover have "k < the (key_of h y)" if "y \<in> set ys" for y using that srt t by auto
    ultimately have "dropWhile (\<lambda>x. the (key_of h x) < k \<or> \<not> include \<and> the (key_of h x) = k) (inorder t) =
      (if include then e # ys else ys)"
      using t by (cases ys) (auto simp: dropWhile_append dest: less_asym)
    moreover have "rb_next ops t e = first_of ys" using rb_laws_next [OF laws t(1) dist] .
    ultimately show ?thesis using n Some by (simp add: rb_start_def)
  next
    case None
    then obtain xs ys where t: "inorder t = xs @ ys" "\<forall>x \<in> set xs. the (key_of h x) < k"
      "\<forall>y \<in> set ys. k < the (key_of h y)"
      "t = Leaf \<and> parent = None \<or> xs \<noteq> [] \<and> parent = Some (last xs) \<or> ys \<noteq> [] \<and> parent = Some (hd ys)"
      using r by auto
    have d: "dropWhile (\<lambda>x. the (key_of h x) < k \<or> \<not> include \<and> the (key_of h x) = k) (inorder t) = ys"
      using t(1-3) by (cases ys) (auto simp: dropWhile_append dest: less_asym)
    consider "t = Leaf" "parent = None" | "xs \<noteq> []" "parent = Some (last xs)" | "ys \<noteq> []" "parent = Some (hd ys)"
      using t(4) by blast
    then show ?thesis
    proof cases
      case 1
      then show ?thesis using n None t by (simp add: rb_start_def)
    next
      case 2
      have "key_of h (last xs) \<noteq> None" using srt t(1) 2 by (auto simp: keys_sorted_def)
      then obtain c where c: "cmp h k (last xs) = Some c" "c < 0"
        using cmp_cases [of h "last xs" k] t(2) 2 by (metis last_in_set)
      have "inorder t = butlast xs @ last xs # ys" using t(1) 2 by simp
      then have "rb_next ops t (last xs) = first_of ys" using rb_laws_next [OF laws _ dist] by blast
      then show ?thesis using n None c 2 d by (simp add: rb_start_def)
    next
      case 3
      have "key_of h (hd ys) \<noteq> None" using srt t(1) 3 by (auto simp: keys_sorted_def)
      then obtain c where c: "cmp h k (hd ys) = Some c" "\<not> c < 0"
        using cmp_cases [of h "hd ys" k] t(3) 3 by (metis hd_in_set not_less_iff_gr_or_eq)
      then show ?thesis using n None 3 d by (cases ys) (simp_all add: rb_start_def)
    qed
  qed
qed

end

section \<open>A concrete instance of the kernel's operations\<close>

text \<open>Unbalanced trees satisfy the laws; this instance serves to evaluate examples.\<close>

fun right_spine :: "'e list \<Rightarrow> 'e tree" where
  "right_spine [] = Leaf"
| "right_spine (e # es) = Node Leaf e (right_spine es)"

fun list_next :: "'e list \<Rightarrow> 'e \<Rightarrow> 'e option" where
  "list_next [] e = None"
| "list_next (x # xs) e = (if x = e then first_of xs else list_next xs e)"

definition plain_ops :: "'e rb_ops" where
  "plain_ops =
     \<lparr>rb_insert_color = (\<lambda>e t. t),
      rb_erase = (\<lambda>e t. right_spine (remove1 e (inorder t))),
      rb_first = (\<lambda>t. first_of (inorder t)),
      rb_next = (\<lambda>t e. list_next (inorder t) e)\<rparr>"

lemma inorder_right_spine [simp]: "inorder (right_spine es) = es"
  by (induction es) auto

lemma list_next_split: "distinct (xs @ e # ys) \<Longrightarrow> list_next (xs @ e # ys) e = first_of ys"
  by (induction xs) auto

lemma rb_laws_plain_ops: "rb_laws plain_ops"
  unfolding rb_laws_def plain_ops_def by (auto simp: list_next_split first_of_def)

end
