(* ===== verification/Bib.thy ===== *)
theory Bib
  imports Addresses Rbtree
begin

text \<open>
  The Binding Information Base (\<^verbatim>\<open>mod/stateful/bib/entry.c\<close>, \<^verbatim>\<open>table.c\<close>, \<^verbatim>\<open>db.c\<close>).

  Entries live in a heap from pointers to \<open>bib_entry\<close> records; a missing pointer is freed or
  unallocated memory, and every operation that would touch it is \<open>None\<close>. A table has two trees
  of pointers, by IPv6 and by IPv4 transport address. \<^verbatim>\<open>kmem_cache_alloc\<close> is a parameter: a
  function that yields an unused pointer or \<open>None\<close>. Spinlocks and log messages are not modelled;
  \<^verbatim>\<open>host4_addr\<close>, which is only ever NULL, is left out.
\<close>

section \<open>Entries\<close>

record bib_entry =
  b_ipv4 :: ipv4_transport_addr
  b_ipv6 :: ipv6_transport_addr
  b_l4_proto :: l4_protocol
  b_is_static :: bool
  b_refcounter :: int
  b_tree6_hook :: bool
  b_tree4_hook :: bool

text \<open>
  A hook is \<open>False\<close> after \<^verbatim>\<open>RB_CLEAR_NODE\<close> (then \<^verbatim>\<open>RB_EMPTY_NODE\<close> holds) and \<open>True\<close> from the time the
  node was linked; \<^verbatim>\<open>rb_erase\<close> does not reset it.
\<close>

type_synonym bib_heap = "ptr \<rightharpoonup> bib_entry"

type_synonym bib_alloc = "bib_heap \<Rightarrow> ptr option"

definition bib_alloc_ok :: "bib_alloc \<Rightarrow> bool" where
  "bib_alloc_ok alloc \<longleftrightarrow> (\<forall>h p. alloc h = Some p \<longrightarrow> h p = None)"

definition bibentry_create :: "bib_alloc \<Rightarrow> ipv4_transport_addr \<Rightarrow> ipv6_transport_addr \<Rightarrow> bool \<Rightarrow>
    l4_protocol \<Rightarrow> bib_heap \<Rightarrow> ptr option \<times> bib_heap" where
  "bibentry_create alloc ad4 ad6 is_static proto h =
     (case alloc h of
        None \<Rightarrow> (None, h)
      | Some result \<Rightarrow>
          (Some result,
           h(result \<mapsto> \<lparr>b_ipv4 = ad4, b_ipv6 = ad6, b_l4_proto = proto, b_is_static = is_static,
                        b_refcounter = 1, b_tree6_hook = False, b_tree4_hook = False\<rparr>)))"

definition bibentry_kfree :: "ptr \<Rightarrow> bib_heap \<Rightarrow> bib_heap option" where
  "bibentry_kfree bib h = (case h bib of None \<Rightarrow> None | Some _ \<Rightarrow> Some (h(bib := None)))"

definition bibentry_get :: "ptr \<Rightarrow> bib_heap \<Rightarrow> bib_heap option" where
  "bibentry_get bib h =
     do { b \<leftarrow> h bib; Some (h(bib \<mapsto> b\<lparr>b_refcounter := b_refcounter b + 1\<rparr>)) }"

text \<open>The kernel's \<^verbatim>\<open>kref_put\<close> tells whether the count reached zero.\<close>

definition bibentry_return :: "ptr \<Rightarrow> bib_heap \<Rightarrow> (bool \<times> bib_heap) option" where
  "bibentry_return bib h =
     do { b \<leftarrow> h bib;
          Some (b_refcounter b - 1 = 0, h(bib \<mapsto> b\<lparr>b_refcounter := b_refcounter b - 1\<rparr>)) }"

section \<open>Tables\<close>

record bib_table =
  bt_tree6 :: "ptr tree"
  bt_tree4 :: "ptr tree"
  bt_count :: u64

definition bibtable_init :: bib_table where
  "bibtable_init = \<lparr>bt_tree6 = Leaf, bt_tree4 = Leaf, bt_count = 0\<rparr>"

text \<open>The destructor \<^verbatim>\<open>destroy_aux\<close> frees the entry of each node \<^verbatim>\<open>rbtree_clear\<close> hands to it.\<close>

fun free_all :: "ptr list \<Rightarrow> bib_heap \<Rightarrow> bib_heap option" where
  "free_all [] h = Some h"
| "free_all (node # nodes) h = do { h' \<leftarrow> bibentry_kfree node h; free_all nodes h' }"

definition bibtable_destroy :: "bib_table \<Rightarrow> bib_heap \<Rightarrow> bib_heap option" where
  "bibtable_destroy table h = free_all (rbtree_clear (bt_tree6 table)) h"

definition bib_compare_addr6 :: "bib_entry \<Rightarrow> in6_addr \<Rightarrow> int" where
  "bib_compare_addr6 bib addr = ipv6_addr_cmp (ta6_l3 (b_ipv6 bib)) addr"

definition bib_compare_full6 :: "bib_heap \<Rightarrow> ipv6_transport_addr \<Rightarrow> ptr \<Rightarrow> int option" where
  "bib_compare_full6 h addr bib =
     do { b \<leftarrow> h bib;
          let gap = bib_compare_addr6 b (ta6_l3 addr)
          in Some (if gap \<noteq> 0 then gap else uint (ta6_l4 (b_ipv6 b)) - uint (ta6_l4 addr)) }"

definition bib_compare_addr4 :: "bib_entry \<Rightarrow> in_addr \<Rightarrow> int" where
  "bib_compare_addr4 bib addr = ipv4_addr_cmp (ta4_l3 (b_ipv4 bib)) addr"

definition bib_compare_full4 :: "bib_heap \<Rightarrow> ipv4_transport_addr \<Rightarrow> ptr \<Rightarrow> int option" where
  "bib_compare_full4 h addr bib =
     do { b \<leftarrow> h bib;
          let gap = bib_compare_addr4 b (ta4_l3 addr)
          in Some (if gap \<noteq> 0 then gap else uint (ta4_l4 (b_ipv4 b)) - uint (ta4_l4 addr)) }"

definition find_by_addr6 :: "bib_heap \<Rightarrow> bib_table \<Rightarrow> ipv6_transport_addr \<Rightarrow> ptr option option" where
  "find_by_addr6 h table addr = rbtree_find (bib_compare_full6 h addr) (bt_tree6 table)"

definition find_by_addr4 :: "bib_heap \<Rightarrow> bib_table \<Rightarrow> ipv4_transport_addr \<Rightarrow> ptr option option" where
  "find_by_addr4 h table addr = rbtree_find (bib_compare_full4 h addr) (bt_tree4 table)"

text \<open>The getters return the entry with a new reference, or \<^verbatim>\<open>-ESRCH\<close>.\<close>

definition bibtable_get6 :: "bib_table \<Rightarrow> ipv6_transport_addr \<Rightarrow> bib_heap \<Rightarrow>
    ((errno + ptr) \<times> bib_heap) option" where
  "bibtable_get6 table addr h =
     do { result \<leftarrow> find_by_addr6 h table addr;
          (case result of
             None \<Rightarrow> Some (Inl ESRCH, h)
           | Some bib \<Rightarrow> do { h' \<leftarrow> bibentry_get bib h; Some (Inr bib, h') }) }"

definition bibtable_get4 :: "bib_table \<Rightarrow> ipv4_transport_addr \<Rightarrow> bib_heap \<Rightarrow>
    ((errno + ptr) \<times> bib_heap) option" where
  "bibtable_get4 table addr h =
     do { result \<leftarrow> find_by_addr4 h table addr;
          (case result of
             None \<Rightarrow> Some (Inl ESRCH, h)
           | Some bib \<Rightarrow> do { h' \<leftarrow> bibentry_get bib h; Some (Inr bib, h') }) }"

definition bibtable_contains4 :: "bib_table \<Rightarrow> ipv4_transport_addr \<Rightarrow> bib_heap \<Rightarrow> bool option" where
  "bibtable_contains4 table addr h =
     do { result \<leftarrow> find_by_addr4 h table addr; Some (result \<noteq> None) }"

definition bib_add6 :: "ptr rb_ops \<Rightarrow> bib_table \<Rightarrow> ptr \<Rightarrow> bib_heap \<Rightarrow>
    (status \<times> bib_table \<times> bib_heap) option" where
  "bib_add6 ops table bib h =
     do { b \<leftarrow> h bib;
          (error, tree6) \<leftarrow> rbtree_add ops bib (bib_compare_full6 h (b_ipv6 b)) (bt_tree6 table);
          Some (if error = Ok
                then (Ok, table\<lparr>bt_tree6 := tree6\<rparr>, h(bib \<mapsto> b\<lparr>b_tree6_hook := True\<rparr>))
                else (error, table, h)) }"

definition bib_add4 :: "ptr rb_ops \<Rightarrow> bib_table \<Rightarrow> ptr \<Rightarrow> bib_heap \<Rightarrow>
    (status \<times> bib_table \<times> bib_heap) option" where
  "bib_add4 ops table bib h =
     do { b \<leftarrow> h bib;
          (error, tree4) \<leftarrow> rbtree_add ops bib (bib_compare_full4 h (b_ipv4 b)) (bt_tree4 table);
          Some (if error = Ok
                then (Ok, table\<lparr>bt_tree4 := tree4\<rparr>, h(bib \<mapsto> b\<lparr>b_tree4_hook := True\<rparr>))
                else (error, table, h)) }"

definition bibtable_add :: "ptr rb_ops \<Rightarrow> bib_table \<Rightarrow> ptr \<Rightarrow> bib_heap \<Rightarrow>
    (status \<times> bib_table \<times> bib_heap) option" where
  "bibtable_add ops table bib h =
     do { (error, table1, h1) \<leftarrow> bib_add6 ops table bib h;
          (if error \<noteq> Ok then Some (error, table1, h1)
           else
             do { (error, table2, h2) \<leftarrow> bib_add4 ops table1 bib h1;
                  (if error \<noteq> Ok
                   then do { tree6 \<leftarrow> rbtree_erase ops bib (bt_tree6 table2);
                             Some (error, table2\<lparr>bt_tree6 := tree6\<rparr>, h2) }
                   else Some (Ok, table2\<lparr>bt_count := bt_count table2 + 1\<rparr>, h2)) }) }"

definition bib_rm :: "ptr rb_ops \<Rightarrow> bib_table \<Rightarrow> ptr \<Rightarrow> bib_heap \<Rightarrow> bib_table option" where
  "bib_rm ops table bib h =
     do { b \<leftarrow> h bib;
          tree6 \<leftarrow> (if b_tree6_hook b then rbtree_erase ops bib (bt_tree6 table) else Some (bt_tree6 table));
          tree4 \<leftarrow> (if b_tree4_hook b then rbtree_erase ops bib (bt_tree4 table) else Some (bt_tree4 table));
          Some \<lparr>bt_tree6 = tree6, bt_tree4 = tree4, bt_count = bt_count table - 1\<rparr> }"

definition bibtable_rm :: "ptr rb_ops \<Rightarrow> bib_table \<Rightarrow> ptr \<Rightarrow> bib_heap \<Rightarrow> bib_table option" where
  "bibtable_rm ops table bib h = bib_rm ops table bib h"

definition bib_find_starting_point :: "ptr rb_ops \<Rightarrow> bib_table \<Rightarrow> ipv4_transport_addr option \<Rightarrow> bool \<Rightarrow>
    bib_heap \<Rightarrow> ptr option option" where
  "bib_find_starting_point ops table offset include_offset h =
     (case offset of
        None \<Rightarrow> Some (rb_first ops (bt_tree4 table))
      | Some addr \<Rightarrow> rb_start ops (bib_compare_full4 h addr) include_offset (bt_tree4 table))"

text \<open>
  The loop runs in a state that holds the table and the heap, as its callbacks may change both;
  a third component is the callback's own argument.
\<close>

type_synonym 'a bib_loop = "bib_table \<times> bib_heap \<times> 'a"

definition bib_foreach :: "ptr rb_ops \<Rightarrow> (ptr \<Rightarrow> 'a bib_loop \<Rightarrow> (status \<times> 'a bib_loop) option) \<Rightarrow>
    ipv4_transport_addr option \<Rightarrow> bool \<Rightarrow> 'a bib_loop \<Rightarrow> (status \<times> 'a bib_loop) option" where
  "bib_foreach ops func offset include_offset s =
     (case s of (table, h, _) \<Rightarrow>
        do { node \<leftarrow> bib_find_starting_point ops table offset include_offset h;
             rb_iterate ops (\<lambda>(table, _). bt_tree4 table) func node s })"

definition bibtable_foreach :: "ptr rb_ops \<Rightarrow> (ptr \<Rightarrow> 'a bib_loop \<Rightarrow> (status \<times> 'a bib_loop) option) \<Rightarrow>
    ipv4_transport_addr option \<Rightarrow> 'a bib_loop \<Rightarrow> (status \<times> 'a bib_loop) option" where
  "bibtable_foreach ops func offset s = bib_foreach ops func offset False s"

definition bibtable_count :: "bib_table \<Rightarrow> u64" where
  "bibtable_count table = bt_count table"

text \<open>The callback's argument is \<^verbatim>\<open>deleted_count\<close>.\<close>

definition bib_flush_cb :: "ptr rb_ops \<Rightarrow> ptr \<Rightarrow> u32 bib_loop \<Rightarrow> (status \<times> u32 bib_loop) option" where
  "bib_flush_cb ops bib s =
     (case s of (table, h, deleted_count) \<Rightarrow>
        do { b \<leftarrow> h bib;
             (if b_is_static b
              then do { (last, h1) \<leftarrow> bibentry_return bib h;
                        (if last
                         then do { table' \<leftarrow> bib_rm ops table bib h1;
                                   h2 \<leftarrow> bibentry_kfree bib h1;
                                   Some (Ok, table', h2, deleted_count + 1) }
                         else Some (Ok, table, h1, deleted_count)) }
              else Some (Ok, table, h, deleted_count)) })"

definition bibtable_flush :: "ptr rb_ops \<Rightarrow> bib_table \<Rightarrow> bib_heap \<Rightarrow> (bib_table \<times> bib_heap) option" where
  "bibtable_flush ops table h =
     do { (_, table', h', _) \<leftarrow> bib_foreach ops (bib_flush_cb ops) None False (table, h, 0);
          Some (table', h') }"

definition bib_delete_taddr4s_cb :: "ptr rb_ops \<Rightarrow> ipv4_prefix \<Rightarrow> port_range \<Rightarrow> ptr \<Rightarrow> u32 bib_loop \<Rightarrow>
    (status \<times> u32 bib_loop) option" where
  "bib_delete_taddr4s_cb ops prefix ports bib s =
     (case s of (_, h, _) \<Rightarrow>
        do { b \<leftarrow> h bib;
             (if \<not> prefix4_contains prefix (ta4_l3 (b_ipv4 b)) then Some (Stop, s)
              else if \<not> port_range_contains ports (ta4_l4 (b_ipv4 b)) then Some (Ok, s)
              else bib_flush_cb ops bib s) })"

definition bibtable_delete_taddr4s :: "ptr rb_ops \<Rightarrow> bib_table \<Rightarrow> ipv4_prefix \<Rightarrow> port_range \<Rightarrow> bib_heap \<Rightarrow>
    (bib_table \<times> bib_heap) option" where
  "bibtable_delete_taddr4s ops table prefix ports h =
     (let offset = \<lparr>ta4_l3 = p4_address prefix, ta4_l4 = pr_min ports\<rparr>
      in do { (_, table', h', _) \<leftarrow>
                bib_foreach ops (bib_delete_taddr4s_cb ops prefix ports) (Some offset) True (table, h, 0);
              Some (table', h') })"

section \<open>The database\<close>

record bib_db =
  bibs :: bib_heap
  bib_tcp :: bib_table
  bib_udp :: bib_table
  bib_icmp :: bib_table

text \<open>\<^verbatim>\<open>get_table\<close> yields a pointer; the model reads and writes the table it designates.\<close>

definition bib_get_table :: "l4_protocol \<Rightarrow> 'a bib_db_scheme \<Rightarrow> bib_table option" where
  "bib_get_table proto s =
     (case proto of
        L4PROTO_TCP \<Rightarrow> Some (bib_tcp s)
      | L4PROTO_UDP \<Rightarrow> Some (bib_udp s)
      | L4PROTO_ICMP \<Rightarrow> Some (bib_icmp s)
      | L4PROTO_OTHER \<Rightarrow> None)"

definition bib_put_table :: "l4_protocol \<Rightarrow> bib_table \<Rightarrow> 'a bib_db_scheme \<Rightarrow> 'a bib_db_scheme" where
  "bib_put_table proto table s =
     (case proto of
        L4PROTO_TCP \<Rightarrow> s\<lparr>bib_tcp := table\<rparr>
      | L4PROTO_UDP \<Rightarrow> s\<lparr>bib_udp := table\<rparr>
      | L4PROTO_ICMP \<Rightarrow> s\<lparr>bib_icmp := table\<rparr>
      | L4PROTO_OTHER \<Rightarrow> s)"

text \<open>The argument is whether \<^verbatim>\<open>kmem_cache_create\<close> succeeds.\<close>

definition bibentry_init :: "bool \<Rightarrow> status" where
  "bibentry_init cache_ok = (if cache_ok then Ok else Err ENOMEM)"

definition bibdb_init :: "bool \<Rightarrow> 'a bib_db_scheme \<Rightarrow> status \<times> 'a bib_db_scheme" where
  "bibdb_init cache_ok s =
     (let error = bibentry_init cache_ok
      in if error \<noteq> Ok then (error, s)
         else (Ok, s\<lparr>bib_tcp := bibtable_init, bib_udp := bibtable_init, bib_icmp := bibtable_init\<rparr>))"

definition bibdb_destroy :: "'a bib_db_scheme \<Rightarrow> 'a bib_db_scheme option" where
  "bibdb_destroy s =
     do { h1 \<leftarrow> bibtable_destroy (bib_udp s) (bibs s);
          h2 \<leftarrow> bibtable_destroy (bib_tcp s) h1;
          h3 \<leftarrow> bibtable_destroy (bib_icmp s) h2;
          Some (s\<lparr>bibs := h3\<rparr>) }"

definition bibdb_get4 :: "ipv4_transport_addr \<Rightarrow> l4_protocol \<Rightarrow> 'a bib_db_scheme \<Rightarrow>
    ((errno + ptr) \<times> 'a bib_db_scheme) option" where
  "bibdb_get4 addr proto s =
     (case bib_get_table proto s of
        None \<Rightarrow> Some (Inl EINVAL, s)
      | Some table \<Rightarrow> do { (r, h) \<leftarrow> bibtable_get4 table addr (bibs s); Some (r, s\<lparr>bibs := h\<rparr>) })"

definition bibdb_get6 :: "ipv6_transport_addr \<Rightarrow> l4_protocol \<Rightarrow> 'a bib_db_scheme \<Rightarrow>
    ((errno + ptr) \<times> 'a bib_db_scheme) option" where
  "bibdb_get6 addr proto s =
     (case bib_get_table proto s of
        None \<Rightarrow> Some (Inl EINVAL, s)
      | Some table \<Rightarrow> do { (r, h) \<leftarrow> bibtable_get6 table addr (bibs s); Some (r, s\<lparr>bibs := h\<rparr>) })"

definition bibdb_get :: "tuple \<Rightarrow> 'a bib_db_scheme \<Rightarrow> ((errno + ptr) \<times> 'a bib_db_scheme) option" where
  "bibdb_get tuple s =
     (case t_l3_proto tuple of
        L3PROTO_IPV6 \<Rightarrow> bibdb_get6 (addr6 (t_src tuple)) (t_l4_proto tuple) s
      | L3PROTO_IPV4 \<Rightarrow> bibdb_get4 (addr4 (t_dst tuple)) (t_l4_proto tuple) s)"

definition bibdb_contains4 :: "ipv4_transport_addr \<Rightarrow> l4_protocol \<Rightarrow> 'a bib_db_scheme \<Rightarrow> bool option" where
  "bibdb_contains4 addr proto s =
     (case bib_get_table proto s of
        None \<Rightarrow> Some False
      | Some table \<Rightarrow> bibtable_contains4 table addr (bibs s))"

definition bibdb_return :: "ptr rb_ops \<Rightarrow> ptr option \<Rightarrow> 'a bib_db_scheme \<Rightarrow> 'a bib_db_scheme option" where
  "bibdb_return ops bib_ptr s =
     (case bib_ptr of
        None \<Rightarrow> Some s
      | Some bib \<Rightarrow>
          do { (delete, h1) \<leftarrow> bibentry_return bib (bibs s);
               (if \<not> delete then Some (s\<lparr>bibs := h1\<rparr>)
                else
                  do { b \<leftarrow> h1 bib;
                       s2 \<leftarrow> (case bib_get_table (b_l4_proto b) s of
                                None \<Rightarrow> Some s
                              | Some table \<Rightarrow>
                                  do { table' \<leftarrow> bibtable_rm ops table bib h1;
                                       Some (bib_put_table (b_l4_proto b) table' s) });
                       h2 \<leftarrow> bibentry_kfree bib h1;
                       Some (s2\<lparr>bibs := h2\<rparr>) }) })"

definition bibdb_add :: "ptr rb_ops \<Rightarrow> ptr \<Rightarrow> 'a bib_db_scheme \<Rightarrow> (status \<times> 'a bib_db_scheme) option" where
  "bibdb_add ops entry s =
     do { b \<leftarrow> bibs s entry;
          (case bib_get_table (b_l4_proto b) s of
             None \<Rightarrow> Some (Err EINVAL, s)
           | Some table \<Rightarrow>
               do { (error, table', h) \<leftarrow> bibtable_add ops table entry (bibs s);
                    Some (error, (bib_put_table (b_l4_proto b) table' s)\<lparr>bibs := h\<rparr>) }) }"

text \<open>\<^verbatim>\<open>bibdb_foreach\<close>'s callbacks copy entries out; they leave the database alone.\<close>

definition bibdb_foreach :: "ptr rb_ops \<Rightarrow> l4_protocol \<Rightarrow> (bib_entry \<Rightarrow> 'b \<Rightarrow> status \<times> 'b) \<Rightarrow>
    ipv4_transport_addr option \<Rightarrow> 'a bib_db_scheme \<Rightarrow> 'b \<Rightarrow> (status \<times> 'b) option" where
  "bibdb_foreach ops proto func offset s arg =
     (case bib_get_table proto s of
        None \<Rightarrow> Some (Err EINVAL, arg)
      | Some table \<Rightarrow>
          do { (error, _, _, arg') \<leftarrow>
                 bibtable_foreach ops
                   (\<lambda>bib (t, h, a). do { b \<leftarrow> h bib; case func b a of (r, a') \<Rightarrow> Some (r, t, h, a') })
                   offset (table, bibs s, arg);
               Some (error, arg') })"

definition bibdb_count :: "l4_protocol \<Rightarrow> 'a bib_db_scheme \<Rightarrow> errno + u64" where
  "bibdb_count proto s =
     (case bib_get_table proto s of
        None \<Rightarrow> Inl EINVAL
      | Some table \<Rightarrow> Inr (bibtable_count table))"

definition bib_on_table :: "(bib_table \<Rightarrow> bib_heap \<Rightarrow> (bib_table \<times> bib_heap) option) \<Rightarrow> l4_protocol \<Rightarrow>
    'a bib_db_scheme \<Rightarrow> 'a bib_db_scheme option" where
  "bib_on_table f proto s =
     do { table \<leftarrow> bib_get_table proto s;
          (table', h) \<leftarrow> f table (bibs s);
          Some ((bib_put_table proto table' s)\<lparr>bibs := h\<rparr>) }"

definition bibdb_delete_taddr4s :: "ptr rb_ops \<Rightarrow> ipv4_prefix \<Rightarrow> port_range \<Rightarrow> 'a bib_db_scheme \<Rightarrow>
    'a bib_db_scheme option" where
  "bibdb_delete_taddr4s ops prefix ports s =
     do { s1 \<leftarrow> bib_on_table (\<lambda>t. bibtable_delete_taddr4s ops t prefix ports) L4PROTO_TCP s;
          s2 \<leftarrow> bib_on_table (\<lambda>t. bibtable_delete_taddr4s ops t prefix ports) L4PROTO_UDP s1;
          bib_on_table (\<lambda>t. bibtable_delete_taddr4s ops t prefix ports) L4PROTO_ICMP s2 }"

definition bibdb_flush :: "ptr rb_ops \<Rightarrow> 'a bib_db_scheme \<Rightarrow> 'a bib_db_scheme option" where
  "bibdb_flush ops s =
     do { s1 \<leftarrow> bib_on_table (bibtable_flush ops) L4PROTO_TCP s;
          s2 \<leftarrow> bib_on_table (bibtable_flush ops) L4PROTO_ICMP s1;
          bib_on_table (bibtable_flush ops) L4PROTO_UDP s2 }"

section \<open>The trees are search trees\<close>

definition bib_key6 :: "bib_heap \<Rightarrow> ptr \<Rightarrow> ipv6_transport_addr option" where
  "bib_key6 h p = map_option b_ipv6 (h p)"

definition bib_key4 :: "bib_heap \<Rightarrow> ptr \<Rightarrow> ipv4_transport_addr option" where
  "bib_key4 h p = map_option b_ipv4 (h p)"

interpretation bib6: rb_order bib_key6 bib_compare_full6
  by unfold_locales
    (auto simp: bib_key6_def bib_compare_full6_def bib_compare_addr6_def ipv6_addr_cmp_def
      taddr6_less_iff word_less_def)

interpretation bib4: rb_order bib_key4 bib_compare_full4
  by unfold_locales
    (auto simp: bib_key4_def bib_compare_full4_def bib_compare_addr4_def ipv4_addr_cmp_def
      taddr4_less_iff word_less_def)

section \<open>The invariant\<close>

definition bib_nodes :: "bib_table \<Rightarrow> ptr set" where
  "bib_nodes table = set (inorder (bt_tree4 table))"

definition bib_entry_ok :: "l4_protocol \<Rightarrow> bib_entry \<Rightarrow> bool" where
  "bib_entry_ok proto b \<longleftrightarrow>
     b_l4_proto b = proto \<and> b_tree6_hook b \<and> b_tree4_hook b \<and> b_refcounter b \<ge> 1"

definition bib_table_ok :: "l4_protocol \<Rightarrow> bib_heap \<Rightarrow> bib_table \<Rightarrow> bool" where
  "bib_table_ok proto h t \<longleftrightarrow>
     bib6.keys_sorted h (inorder (bt_tree6 t)) \<and> bib4.keys_sorted h (inorder (bt_tree4 t)) \<and>
     set (inorder (bt_tree6 t)) = bib_nodes t \<and> bt_count t = of_nat (length (inorder (bt_tree4 t))) \<and>
     (\<forall>p \<in> bib_nodes t. \<exists>b. h p = Some b \<and> bib_entry_ok proto b)"

definition bib_db_ok :: "'a bib_db_scheme \<Rightarrow> bool" where
  "bib_db_ok s \<longleftrightarrow> (\<forall>proto t. bib_get_table proto s = Some t \<longrightarrow> bib_table_ok proto (bibs s) t)"

text \<open>Two entries that agree on everything but the reference count and the static mark.\<close>

definition bib_same :: "bib_entry \<Rightarrow> bib_entry \<Rightarrow> bool" where
  "bib_same b b' \<longleftrightarrow> b_ipv4 b' = b_ipv4 b \<and> b_ipv6 b' = b_ipv6 b \<and> b_l4_proto b' = b_l4_proto b \<and>
     b_tree6_hook b' = b_tree6_hook b \<and> b_tree4_hook b' = b_tree4_hook b"

lemma bib_same_refl [simp]: "bib_same b b" "bib_same b (b\<lparr>b_refcounter := n\<rparr>)"
  by (simp_all add: bib_same_def)

lemma bib_same_ok: "bib_same b b' \<Longrightarrow> bib_entry_ok proto b \<Longrightarrow> b_refcounter b' \<ge> 1 \<Longrightarrow> bib_entry_ok proto b'"
  by (simp add: bib_same_def bib_entry_ok_def)

lemma bib_table_ok_heap:
  assumes "bib_table_ok proto h t"
    "\<And>p b. p \<in> bib_nodes t \<Longrightarrow> h p = Some b \<Longrightarrow> \<exists>b'. h' p = Some b' \<and> bib_same b b' \<and> b_refcounter b' \<ge> 1"
  shows "bib_table_ok proto h' t"
proof -
  have e: "\<exists>b b'. h p = Some b \<and> h' p = Some b' \<and> bib_same b b' \<and> bib_entry_ok proto b'" if "p \<in> bib_nodes t" for p
    using that assms bib_same_ok unfolding bib_table_ok_def by meson
  then have "bib_key6 h' p = bib_key6 h p" "bib_key4 h' p = bib_key4 h p" if "p \<in> bib_nodes t" for p
    using that by (force simp: bib_key6_def bib_key4_def bib_same_def)+
  then show ?thesis
    using assms(1) e bib6.keys_sorted_cong [of "inorder (bt_tree6 t)" h' h]
      bib4.keys_sorted_cong [of "inorder (bt_tree4 t)" h' h]
    unfolding bib_table_ok_def by (metis bib_nodes_def)
qed

lemma bib_table_ok_outside:
  "bib_table_ok proto h t \<Longrightarrow> (\<And>p. p \<in> bib_nodes t \<Longrightarrow> h' p = h p) \<Longrightarrow> bib_table_ok proto h' t"
  by (rule bib_table_ok_heap) (auto simp: bib_table_ok_def bib_entry_ok_def)

lemma bib_table_ok_node:
  assumes "bib_table_ok proto h t" "p \<in> bib_nodes t"
  obtains b where "h p = Some b" "bib_entry_ok proto b"
  using assms unfolding bib_table_ok_def by blast

section \<open>Table operations\<close>

lemma find_by_addr6_ok:
  assumes "bib_table_ok proto h t"
  obtains r where "find_by_addr6 h t a = Some r"
    "\<And>p. r = Some p \<longleftrightarrow> p \<in> bib_nodes t \<and> bib_key6 h p = Some a"
  using assms bib6.find_ok [of h "bt_tree6 t" a] unfolding find_by_addr6_def bib_table_ok_def by metis

lemma find_by_addr4_ok:
  assumes "bib_table_ok proto h t"
  obtains r where "find_by_addr4 h t a = Some r"
    "\<And>p. r = Some p \<longleftrightarrow> p \<in> bib_nodes t \<and> bib_key4 h p = Some a"
  using assms bib4.find_ok [of h "bt_tree4 t" a] unfolding find_by_addr4_def bib_table_ok_def bib_nodes_def
  by metis

lemma bib_key4_inj:
  "bib_table_ok proto h t \<Longrightarrow> p \<in> bib_nodes t \<Longrightarrow> q \<in> bib_nodes t \<Longrightarrow> bib_key4 h p = bib_key4 h q \<Longrightarrow> p = q"
  unfolding bib_table_ok_def bib_nodes_def by (metis bib4.keys_sorted_unique)

lemma bib_key6_inj:
  "bib_table_ok proto h t \<Longrightarrow> p \<in> bib_nodes t \<Longrightarrow> q \<in> bib_nodes t \<Longrightarrow> bib_key6 h p = bib_key6 h q \<Longrightarrow> p = q"
  unfolding bib_table_ok_def by (metis bib6.keys_sorted_unique)

lemma bib_get_keeps_ok:
  assumes "bib_table_ok proto h t" "bibentry_get p h = Some h'"
  shows "bib_table_ok proto h' t"
proof (rule bib_table_ok_heap [OF assms(1)])
  fix q b assume q: "q \<in> bib_nodes t" "h q = Some b"
  then have "b_refcounter b \<ge> 1"
    using bib_table_ok_node [OF assms(1)] by (metis bib_entry_ok_def option.inject)
  then show "\<exists>b'. h' q = Some b' \<and> bib_same b b' \<and> b_refcounter b' \<ge> 1"
    using assms(2) q(2) by (auto simp: bibentry_get_def bind_eq_Some_conv)
qed

text \<open>Adding: the IPv6 index rejects, the IPv4 index rejects, or the entry gets in.\<close>

lemma bibtable_add_cases:
  assumes laws: "rb_laws ops" and ok: "bib_table_ok proto h t"
    and p: "h p = Some b" "p \<notin> bib_nodes t" "b_l4_proto b = proto" "b_refcounter b \<ge> 1"
  obtains (dup6) q where "q \<in> bib_nodes t" "bib_key6 h q = Some (b_ipv6 b)"
      "bibtable_add ops t p h = Some (Err EEXIST, t, h)"
    | (dup4) q t' where "\<forall>q \<in> bib_nodes t. bib_key6 h q \<noteq> Some (b_ipv6 b)"
      "q \<in> bib_nodes t" "bib_key4 h q = Some (b_ipv4 b)"
      "bibtable_add ops t p h = Some (Err EEXIST, t', h(p \<mapsto> b\<lparr>b_tree6_hook := True\<rparr>))"
      "bib_table_ok proto (h(p \<mapsto> b\<lparr>b_tree6_hook := True\<rparr>)) t'" "bib_nodes t' = bib_nodes t"
      "bt_tree4 t' = bt_tree4 t"
    | (added) t' where "\<forall>q \<in> bib_nodes t. bib_key6 h q \<noteq> Some (b_ipv6 b)"
      "\<forall>q \<in> bib_nodes t. bib_key4 h q \<noteq> Some (b_ipv4 b)"
      "bibtable_add ops t p h = Some (Ok, t', h(p \<mapsto> b\<lparr>b_tree6_hook := True, b_tree4_hook := True\<rparr>))"
      "bib_table_ok proto (h(p \<mapsto> b\<lparr>b_tree6_hook := True, b_tree4_hook := True\<rparr>)) t'"
      "bib_nodes t' = insert p (bib_nodes t)"
proof -
  let ?h1 = "h(p \<mapsto> b\<lparr>b_tree6_hook := True\<rparr>)"
  let ?h2 = "h(p \<mapsto> b\<lparr>b_tree6_hook := True, b_tree4_hook := True\<rparr>)"
  have s6: "bib6.keys_sorted h (inorder (bt_tree6 t))" and s4: "bib4.keys_sorted h (inorder (bt_tree4 t))"
    and n6: "set (inorder (bt_tree6 t)) = bib_nodes t" and n4: "set (inorder (bt_tree4 t)) = bib_nodes t"
    using ok by (auto simp: bib_table_ok_def bib_nodes_def)
  have k: "bib_key6 h p = Some (b_ipv6 b)" using p by (simp add: bib_key6_def)
  have k1: "bib_key4 ?h1 p = Some (b_ipv4 b)" using p by (simp add: bib_key4_def)
  have s4': "bib4.keys_sorted ?h1 (inorder (bt_tree4 t))"
    using s4 p(1,2) n4 bib4.keys_sorted_cong [of "inorder (bt_tree4 t)" ?h1 h] by (auto simp: bib_key4_def)
  show ?thesis
  proof (cases rule: bib6.add_Ok_iff [OF laws s6 k])
    case (1 x)
    then show ?thesis
      using that(1) [of x] n6 p(1) by (simp add: bibtable_add_def bib_add6_def)
  next
    case a6: (2 t6 xs ys)
    let ?t1 = "t\<lparr>bt_tree6 := t6\<rparr>"
    have st1: "bib_add6 ops t p h = Some (Ok, ?t1, ?h1)"
      using a6 p(1) by (simp add: bib_add6_def)
    have no6: "\<forall>q \<in> bib_nodes t. bib_key6 h q \<noteq> Some (b_ipv6 b)" using a6(1) n6 by simp
    have pn: "p \<notin> set xs" "p \<notin> set ys" using a6(3) n6 p(2) by auto
    show ?thesis
    proof (cases rule: bib4.add_Ok_iff [OF laws s4' k1])
      case (1 q)
      let ?t' = "t\<lparr>bt_tree6 := rb_erase ops p t6\<rparr>"
      have r: "bibtable_add ops t p h = Some (Err EEXIST, ?t', ?h1)"
        using st1 1 a6(4) p by (simp add: bibtable_add_def bib_add4_def rbtree_erase_def flip: set_inorder)
      have i6: "inorder (rb_erase ops p t6) = inorder (bt_tree6 t)"
        using laws a6(3,4) pn by (simp add: remove1_append)
      have nq: "q \<in> bib_nodes t" "q \<noteq> p" using 1(1) n4 p(2) by auto
      have "bib_table_ok proto h ?t'" "bib_nodes ?t' = bib_nodes t"
        using ok i6 by (simp_all add: bib_table_ok_def bib_nodes_def flip: set_inorder)
      then have "bib_table_ok proto ?h1 ?t'"
        using p(2) by (auto intro: bib_table_ok_outside)
      moreover have "bib_key4 h q = Some (b_ipv4 b)" using 1(2) nq by (simp add: bib_key4_def)
      ultimately show ?thesis
        using that(2) [OF no6 nq(1) _ r] \<open>bib_nodes ?t' = bib_nodes t\<close> by simp
    next
      case a4: (2 t4 us vs)
      let ?t' = "t\<lparr>bt_tree6 := t6, bt_tree4 := t4, bt_count := bt_count t + 1\<rparr>"
      have r: "bibtable_add ops t p h = Some (Ok, ?t', ?h2)"
        using st1 a4 p by (simp add: bibtable_add_def bib_add4_def)
      have no4: "\<forall>q \<in> bib_nodes t. bib_key4 h q \<noteq> Some (b_ipv4 b)"
        using a4(1) n4 p(2) unfolding bib_key4_def by (metis fun_upd_other)
      have nn: "bib_nodes ?t' = insert p (bib_nodes t)"
        using a4(3,4) n4 by (auto simp: bib_nodes_def simp flip: set_inorder)
      have "bib_key6 ?h2 = bib_key6 h" using p(1) by (auto simp: bib_key6_def)
      then have c6: "bib6.keys_sorted ?h2 (inorder t6)"
        using a6(5) bib6.keys_sorted_cong [of "inorder t6" ?h2 h] by simp
      have "bib_key4 ?h2 = bib_key4 ?h1" by (auto simp: bib_key4_def)
      then have c4: "bib4.keys_sorted ?h2 (inorder t4)"
        using a4(5) bib4.keys_sorted_cong [of "inorder t4" ?h2 ?h1] by simp
      have "set (inorder t6) = insert p (bib_nodes t)" using a6(3,4) n6 by auto
      moreover have "bt_count ?t' = of_nat (length (inorder t4))"
        using ok a4(3,4) by (simp add: bib_table_ok_def flip: length_inorder)
      moreover have "\<exists>c. ?h2 q = Some c \<and> bib_entry_ok proto c" if "q \<in> insert p (bib_nodes t)" for q
        using that p(3,4) bib_table_ok_node [OF ok] by (auto simp: bib_entry_ok_def)
      ultimately have "bib_table_ok proto ?h2 ?t'"
        using c6 c4 nn unfolding bib_table_ok_def by simp
      then show ?thesis using that(3) [OF no6 no4 r] nn by blast
    qed
  qed
qed

text \<open>Removing a node of the table.\<close>

lemma bib_rm_ok:
  assumes laws: "rb_laws ops" and ok: "bib_table_ok proto h t" and p: "p \<in> bib_nodes t"
    and h': "\<And>q b. q \<in> bib_nodes t \<Longrightarrow> h q = Some b \<Longrightarrow> \<exists>b'. h' q = Some b' \<and> bib_same b b' \<and> (q \<noteq> p \<longrightarrow> b_refcounter b' \<ge> 1)"
  obtains t' where "bib_rm ops t p h' = Some t'" "bib_table_ok proto h' t'" "bib_nodes t' = bib_nodes t - {p}"
    "inorder (bt_tree4 t') = remove1 p (inorder (bt_tree4 t))"
proof -
  let ?t' = "\<lparr>bt_tree6 = rb_erase ops p (bt_tree6 t), bt_tree4 = rb_erase ops p (bt_tree4 t),
    bt_count = bt_count t - 1\<rparr>"
  have s6: "bib6.keys_sorted h (inorder (bt_tree6 t))" and s4: "bib4.keys_sorted h (inorder (bt_tree4 t))"
    and n6: "set (inorder (bt_tree6 t)) = bib_nodes t" and n4: "set (inorder (bt_tree4 t)) = bib_nodes t"
    using ok by (auto simp: bib_table_ok_def bib_nodes_def)
  obtain b' where b': "h' p = Some b'" "b_tree6_hook b'" "b_tree4_hook b'"
    using h' [OF p] bib_table_ok_node [OF ok p] by (metis bib_same_def bib_entry_ok_def)
  then have r: "bib_rm ops t p h' = Some ?t'"
    using p n6 n4 by (simp add: bib_rm_def rbtree_erase_def flip: set_inorder)
  have nn: "bib_nodes ?t' = bib_nodes t - {p}"
    using laws n4 bib4.keys_sorted_distinct [OF s4] by (simp add: bib_nodes_def set_remove1_eq flip: set_inorder)
  have keys: "bib_key6 h' q = bib_key6 h q" "bib_key4 h' q = bib_key4 h q" if "q \<in> bib_nodes t" for q
    using h' [OF that] bib_table_ok_node [OF ok that]
    by (metis bib_key6_def bib_same_def option.map(2), metis bib_key4_def bib_same_def option.map(2))
  have "bib6.keys_sorted h' (inorder (bt_tree6 t))" "bib4.keys_sorted h' (inorder (bt_tree4 t))"
    using s6 s4 keys n6 n4 bib6.keys_sorted_cong [of "inorder (bt_tree6 t)" h' h]
      bib4.keys_sorted_cong [of "inorder (bt_tree4 t)" h' h] by simp_all
  then have "bib6.keys_sorted h' (remove1 p (inorder (bt_tree6 t)))" "bib4.keys_sorted h' (remove1 p (inorder (bt_tree4 t)))"
    by (auto intro: bib6.keys_sorted_remove1 bib4.keys_sorted_remove1)
  moreover have "set (remove1 p (inorder (bt_tree6 t))) = bib_nodes t - {p}"
    using n6 bib6.keys_sorted_distinct [OF s6] by (simp add: set_remove1_eq flip: set_inorder)
  moreover have "bt_count t - 1 = of_nat (length (remove1 p (inorder (bt_tree4 t))))"
  proof -
    have "p \<in> set (inorder (bt_tree4 t))" using p n4 by simp
    then have "length (inorder (bt_tree4 t)) = Suc (length (remove1 p (inorder (bt_tree4 t))))"
      by (rule length_Suc_remove1)
    then show ?thesis using ok by (simp add: bib_table_ok_def del: length_inorder)
  qed
  moreover have "\<exists>b. h' q = Some b \<and> bib_entry_ok proto b" if "q \<in> bib_nodes t - {p}" for q
    using that h' [of q] bib_table_ok_node [OF ok, of q] bib_same_ok by (metis Diff_iff insert_iff)
  ultimately have "bib_table_ok proto h' ?t'"
    using laws nn unfolding bib_table_ok_def by simp
  then show ?thesis using that [OF r _ nn] laws by simp
qed

section \<open>The database as a set of entries\<close>

lemma bib_get_put_table [simp]:
  "bib_get_table p (bib_put_table q t s) = (if p = q then map_option (\<lambda>_. t) (bib_get_table p s) else bib_get_table p s)"
  by (cases p; cases q) (auto simp: bib_get_table_def bib_put_table_def)

lemma bib_get_table_heap [simp]: "bib_get_table p (s\<lparr>bibs := h\<rparr>) = bib_get_table p s"
  by (cases p) (auto simp: bib_get_table_def)

lemma bibs_put_table [simp]: "bibs (bib_put_table p t s) = bibs s"
  by (cases p) (auto simp: bib_put_table_def)

lemma bib_get_table_None_iff: "bib_get_table proto s = None \<longleftrightarrow> proto = L4PROTO_OTHER"
  by (cases proto) (auto simp: bib_get_table_def)

lemma bib_get_tableE:
  assumes "proto \<noteq> L4PROTO_OTHER"
  obtains t where "bib_get_table proto s = Some t"
  using assms bib_get_table_None_iff [of proto s] by auto

text \<open>
  Between operations every allocated entry is in the table of its protocol; an entry that was
  created and not yet added is the exception.
\<close>

definition bib_live :: "'a bib_db_scheme \<Rightarrow> ptr set" where
  "bib_live s = {p. \<exists>proto t. bib_get_table proto s = Some t \<and> p \<in> bib_nodes t}"

definition bib_wf :: "'a bib_db_scheme \<Rightarrow> bool" where
  "bib_wf s \<longleftrightarrow> bib_db_ok s \<and> dom (bibs s) = bib_live s"

lemma bib_live_heap [simp]: "bib_live (s\<lparr>bibs := h\<rparr>) = bib_live s"
  by (simp add: bib_live_def)

text \<open>The states that differ in the BIB only.\<close>

definition bib_only :: "'a bib_db_scheme \<Rightarrow> 'a bib_db_scheme \<Rightarrow> bool" where
  "bib_only s s' \<longleftrightarrow> bib_db.more s' = bib_db.more s"

lemma bib_only_refl [simp]: "bib_only s s"
  by (simp add: bib_only_def)

lemma bib_only_heap [simp]: "bib_only s (s'\<lparr>bibs := h\<rparr>) = bib_only s s'"
  by (simp add: bib_only_def)

lemma bib_only_put [simp]: "bib_only s (bib_put_table proto t s') = bib_only s s'"
  by (cases proto) (simp_all add: bib_only_def bib_put_table_def)

lemma bib_only_trans: "bib_only s s' \<Longrightarrow> bib_only s' s'' \<Longrightarrow> bib_only s s''"
  by (simp add: bib_only_def)

lemma bib_db_ok_proto:
  assumes "bib_db_ok s" "bib_get_table proto s = Some t" "p \<in> bib_nodes t" "bibs s p = Some b"
  shows "b_l4_proto b = proto"
  using assms unfolding bib_db_ok_def bib_table_ok_def bib_entry_ok_def by (metis option.inject)

lemma bib_wf_node:
  assumes "bib_wf s" "bib_get_table proto s = Some t"
  shows "p \<in> bib_nodes t \<longleftrightarrow> (\<exists>b. bibs s p = Some b \<and> b_l4_proto b = proto)"
proof
  assume p: "p \<in> bib_nodes t"
  then have "p \<in> dom (bibs s)" using assms unfolding bib_wf_def bib_live_def by blast
  then show "\<exists>b. bibs s p = Some b \<and> b_l4_proto b = proto"
    using assms p bib_db_ok_proto unfolding bib_wf_def by blast
next
  assume "\<exists>b. bibs s p = Some b \<and> b_l4_proto b = proto"
  then obtain b where b: "bibs s p = Some b" "b_l4_proto b = proto" by blast
  then have "p \<in> bib_live s" using assms unfolding bib_wf_def by blast
  then obtain proto' t' where t': "bib_get_table proto' s = Some t'" "p \<in> bib_nodes t'"
    unfolding bib_live_def by blast
  then have "proto' = proto" using bib_db_ok_proto b assms unfolding bib_wf_def by blast
  then show "p \<in> bib_nodes t" using t' assms by simp
qed

lemma bib_wf_entry:
  assumes "bib_wf s" "bibs s p = Some b"
  obtains t where "bib_get_table (b_l4_proto b) s = Some t" "p \<in> bib_nodes t"
    "bib_entry_ok (b_l4_proto b) b" "b_l4_proto b \<noteq> L4PROTO_OTHER"
proof -
  have "p \<in> bib_live s" using assms unfolding bib_wf_def by blast
  then obtain proto t where t: "bib_get_table proto s = Some t" "p \<in> bib_nodes t"
    unfolding bib_live_def by blast
  have "b_l4_proto b = proto" using bib_db_ok_proto t assms unfolding bib_wf_def by blast
  moreover have "bib_entry_ok proto b"
    using t assms unfolding bib_wf_def bib_db_ok_def bib_table_ok_def by (metis option.inject)
  ultimately show ?thesis using that t bib_get_table_None_iff [of proto s] by auto
qed

lemma bib_wf_pos: "bib_wf s \<Longrightarrow> bibs s p = Some b \<Longrightarrow> b_refcounter b \<ge> 1"
  by (erule bib_wf_entry) (auto simp: bib_entry_ok_def)

lemma bib_wf_table: "bib_wf s \<Longrightarrow> bib_get_table proto s = Some t \<Longrightarrow> bib_table_ok proto (bibs s) t"
  by (simp add: bib_wf_def bib_db_ok_def)

text \<open>No two entries of a protocol share an address on either side.\<close>

lemma bib_wf_unique4:
  assumes "bib_wf s" "bibs s p = Some b" "bibs s q = Some c" "b_l4_proto b = b_l4_proto c" "b_ipv4 b = b_ipv4 c"
  shows "p = q"
proof -
  obtain t where t: "bib_get_table (b_l4_proto b) s = Some t" "p \<in> bib_nodes t"
    using bib_wf_entry [OF assms(1,2)] by blast
  moreover have "q \<in> bib_nodes t" using bib_wf_node [OF assms(1) t(1)] assms by auto
  ultimately show ?thesis
    using bib_key4_inj [OF bib_wf_table [OF assms(1) t(1)]] assms by (simp add: bib_key4_def)
qed

lemma bib_wf_unique6:
  assumes "bib_wf s" "bibs s p = Some b" "bibs s q = Some c" "b_l4_proto b = b_l4_proto c" "b_ipv6 b = b_ipv6 c"
  shows "p = q"
proof -
  obtain t where t: "bib_get_table (b_l4_proto b) s = Some t" "p \<in> bib_nodes t"
    using bib_wf_entry [OF assms(1,2)] by blast
  moreover have "q \<in> bib_nodes t" using bib_wf_node [OF assms(1) t(1)] assms by auto
  ultimately show ?thesis
    using bib_key6_inj [OF bib_wf_table [OF assms(1) t(1)]] assms by (simp add: bib_key6_def)
qed

text \<open>Changing a reference count, which must stay positive, keeps the database well-formed.\<close>

lemma bib_wf_refcount:
  assumes "bib_wf s" "bibs s p = Some b" "n \<ge> 1"
  shows "bib_wf (s\<lparr>bibs := (bibs s)(p \<mapsto> b\<lparr>b_refcounter := n\<rparr>)\<rparr>)"
proof -
  have "bib_table_ok proto ((bibs s)(p \<mapsto> b\<lparr>b_refcounter := n\<rparr>)) t" if t: "bib_get_table proto s = Some t" for proto t
  proof (rule bib_table_ok_heap [OF bib_wf_table [OF assms(1) t]])
    fix q c assume "q \<in> bib_nodes t" and q: "bibs s q = Some c"
    then have "b_refcounter c \<ge> 1"
      using bib_wf_pos [OF assms(1) q] by blast
    then show "\<exists>c'. ((bibs s)(p \<mapsto> b\<lparr>b_refcounter := n\<rparr>)) q = Some c' \<and> bib_same c c' \<and> b_refcounter c' \<ge> 1"
      using assms q by auto
  qed
  moreover have "dom ((bibs s)(p \<mapsto> b\<lparr>b_refcounter := n\<rparr>)) = dom (bibs s)"
    using assms(2) by auto
  ultimately show ?thesis
    using assms(1) unfolding bib_wf_def bib_db_ok_def by simp
qed

section \<open>Database operations\<close>

definition bib_get_ref :: "ptr \<Rightarrow> 'a bib_db_scheme \<Rightarrow> 'a bib_db_scheme" where
  "bib_get_ref p s = s\<lparr>bibs := (bibs s)(p := map_option (\<lambda>b. b\<lparr>b_refcounter := b_refcounter b + 1\<rparr>) (bibs s p))\<rparr>"

lemma bib_get_ref_wf: "bib_wf s \<Longrightarrow> bib_wf (bib_get_ref p s)"
proof (cases "bibs s p")
  case (Some b)
  assume "bib_wf s"
  then show ?thesis
    using Some bib_wf_refcount [of s p b "b_refcounter b + 1"] bib_wf_pos [of s p b]
    by (simp add: bib_get_ref_def)
qed (simp add: bib_get_ref_def fun_upd_idem)

lemma bibdb_get6_cases:
  assumes "bib_wf s" "proto \<noteq> L4PROTO_OTHER"
  obtains (found) p b where "bibs s p = Some b" "b_l4_proto b = proto" "b_ipv6 b = a"
      "bibdb_get6 a proto s = Some (Inr p, bib_get_ref p s)"
    | (missing) "\<forall>p b. bibs s p = Some b \<longrightarrow> b_l4_proto b = proto \<longrightarrow> b_ipv6 b \<noteq> a"
      "bibdb_get6 a proto s = Some (Inl ESRCH, s)"
proof -
  obtain t where t: "bib_get_table proto s = Some t" using bib_get_tableE [OF assms(2)] by blast
  obtain r where r: "find_by_addr6 (bibs s) t a = Some r"
    "\<And>p. r = Some p \<longleftrightarrow> p \<in> bib_nodes t \<and> bib_key6 (bibs s) p = Some a"
    using find_by_addr6_ok [OF bib_wf_table [OF assms(1) t]] by metis
  note node = bib_wf_node [OF assms(1) t]
  show ?thesis
  proof (cases r)
    case None
    then show ?thesis
      using missing t r node by (auto simp: bibdb_get6_def bibtable_get6_def bib_key6_def)
  next
    case (Some p)
    then obtain b where "bibs s p = Some b" "b_l4_proto b = proto" "b_ipv6 b = a"
      using r(2) [of p] node [of p] by (auto simp: bib_key6_def)
    then show ?thesis
      using found t r(1) Some by (simp add: bibdb_get6_def bibtable_get6_def bibentry_get_def bib_get_ref_def)
  qed
qed

lemma bibdb_get4_cases:
  assumes "bib_wf s" "proto \<noteq> L4PROTO_OTHER"
  obtains (found) p b where "bibs s p = Some b" "b_l4_proto b = proto" "b_ipv4 b = a"
      "bibdb_get4 a proto s = Some (Inr p, bib_get_ref p s)"
    | (missing) "\<forall>p b. bibs s p = Some b \<longrightarrow> b_l4_proto b = proto \<longrightarrow> b_ipv4 b \<noteq> a"
      "bibdb_get4 a proto s = Some (Inl ESRCH, s)"
proof -
  obtain t where t: "bib_get_table proto s = Some t" using bib_get_tableE [OF assms(2)] by blast
  obtain r where r: "find_by_addr4 (bibs s) t a = Some r"
    "\<And>p. r = Some p \<longleftrightarrow> p \<in> bib_nodes t \<and> bib_key4 (bibs s) p = Some a"
    using find_by_addr4_ok [OF bib_wf_table [OF assms(1) t]] by metis
  note node = bib_wf_node [OF assms(1) t]
  show ?thesis
  proof (cases r)
    case None
    then show ?thesis
      using missing t r node by (auto simp: bibdb_get4_def bibtable_get4_def bib_key4_def)
  next
    case (Some p)
    then obtain b where "bibs s p = Some b" "b_l4_proto b = proto" "b_ipv4 b = a"
      using r(2) [of p] node [of p] by (auto simp: bib_key4_def)
    then show ?thesis
      using found t r(1) Some by (simp add: bibdb_get4_def bibtable_get4_def bibentry_get_def bib_get_ref_def)
  qed
qed

lemma bibdb_contains4_iff:
  assumes "bib_wf s"
  shows "bibdb_contains4 a proto s = Some (\<exists>p b. bibs s p = Some b \<and> b_l4_proto b = proto \<and> b_ipv4 b = a)"
proof (cases "bib_get_table proto s")
  case None
  then show ?thesis
    using bib_wf_entry [OF assms] bib_get_table_None_iff [of proto s]
    by (auto simp: bibdb_contains4_def)
next
  case (Some t)
  then obtain r where r: "find_by_addr4 (bibs s) t a = Some r"
    "\<And>p. r = Some p \<longleftrightarrow> p \<in> bib_nodes t \<and> bib_key4 (bibs s) p = Some a"
    using find_by_addr4_ok [OF bib_wf_table [OF assms]] by metis
  have "r \<noteq> None \<longleftrightarrow> (\<exists>p. p \<in> bib_nodes t \<and> bib_key4 (bibs s) p = Some a)" using r(2) by auto
  also have "\<dots> \<longleftrightarrow> (\<exists>p b. bibs s p = Some b \<and> b_l4_proto b = proto \<and> b_ipv4 b = a)"
    using bib_wf_node [OF assms Some] by (fastforce simp: bib_key4_def)
  finally show ?thesis
    using r(1) Some by (simp add: bibdb_contains4_def bibtable_contains4_def)
qed

text \<open>Returning a reference: the last one removes the entry from its table and frees it.\<close>

lemma bibdb_return_cases:
  assumes laws: "rb_laws ops" and wf: "bib_wf s" and p: "bibs s p = Some b"
  obtains s' where "bibdb_return ops (Some p) s = Some s'" "bib_only s s'" "bib_wf s'"
    "bibs s' = (if b_refcounter b = 1 then (bibs s)(p := None)
                else (bibs s)(p \<mapsto> b\<lparr>b_refcounter := b_refcounter b - 1\<rparr>))"
proof (cases "b_refcounter b = 1")
  case False
  have "b_refcounter b \<ge> 1" using bib_wf_pos [OF wf p] .
  then have "bib_wf (s\<lparr>bibs := (bibs s)(p \<mapsto> b\<lparr>b_refcounter := b_refcounter b - 1\<rparr>)\<rparr>)"
    using False bib_wf_refcount [OF wf p] by simp
  then show ?thesis using that False p by (simp add: bibdb_return_def bibentry_return_def)
next
  case True
  let ?h1 = "(bibs s)(p \<mapsto> b\<lparr>b_refcounter := 0\<rparr>)"
  obtain t where t: "bib_get_table (b_l4_proto b) s = Some t" "p \<in> bib_nodes t" "b_l4_proto b \<noteq> L4PROTO_OTHER"
    using bib_wf_entry [OF wf p] by blast
  have pos: "b_refcounter c \<ge> 1" if "bibs s q = Some c" for q c
    using bib_wf_pos [OF wf that] .
  have h1: "\<exists>b'. ?h1 q = Some b' \<and> bib_same c b' \<and> (q \<noteq> p \<longrightarrow> b_refcounter b' \<ge> 1)" if "bibs s q = Some c" for q c
    using that pos p by auto
  obtain t' where t': "bib_rm ops t p ?h1 = Some t'" "bib_table_ok (b_l4_proto b) ?h1 t'" "bib_nodes t' = bib_nodes t - {p}"
    using bib_rm_ok [OF laws bib_wf_table [OF wf t(1)] t(2) h1] by blast
  let ?s' = "(bib_put_table (b_l4_proto b) t' s)\<lparr>bibs := (bibs s)(p := None)\<rparr>"
  have r: "bibdb_return ops (Some p) s = Some ?s'"
    using p t(1) t'(1) True by (simp add: bibdb_return_def bibentry_return_def bibtable_rm_def bibentry_kfree_def)
  have "bib_table_ok proto ((bibs s)(p := None)) u" if u: "bib_get_table proto ?s' = Some u" for proto u
  proof (cases "proto = b_l4_proto b")
    case True
    then show ?thesis using u t t' by (auto intro: bib_table_ok_outside)
  next
    case False
    then have "bib_get_table proto s = Some u" "p \<notin> bib_nodes u"
      using u p bib_wf_node [OF wf] by auto
    then show ?thesis by (intro bib_table_ok_outside [OF bib_wf_table [OF wf]]) auto
  qed
  moreover have "dom ((bibs s)(p := None)) = bib_live ?s'"
  proof -
    have "q \<in> bib_live ?s' \<longleftrightarrow> q \<noteq> p \<and> q \<in> bib_live s" for q
      using t t' p bib_wf_node [OF wf] by (auto simp: bib_live_def split: if_splits) metis+
    then show ?thesis using wf by (auto simp: bib_wf_def)
  qed
  ultimately have "bib_wf ?s'" by (simp add: bib_wf_def bib_db_ok_def)
  then show ?thesis using that [OF r] True by simp
qed

lemma bib_live_split:
  assumes "bib_get_table proto s = Some t"
  shows "bib_live s = bib_nodes t \<union> {p. \<exists>proto' u. proto' \<noteq> proto \<and> bib_get_table proto' s = Some u \<and> p \<in> bib_nodes u}"
  unfolding bib_live_def using assms by (intro set_eqI) (simp, metis option.inject)

lemma bib_live_put:
  assumes "bib_get_table proto s = Some t"
  shows "bib_live (bib_put_table proto t' s) =
    bib_nodes t' \<union> {p. \<exists>proto' u. proto' \<noteq> proto \<and> bib_get_table proto' s = Some u \<and> p \<in> bib_nodes u}"
proof -
  have "bib_get_table proto (bib_put_table proto t' s) = Some t'" using assms by simp
  note bib_live_split [OF this]
  also have "{p. \<exists>proto' u. proto' \<noteq> proto \<and> bib_get_table proto' (bib_put_table proto t' s) = Some u \<and> p \<in> bib_nodes u} =
    {p. \<exists>proto' u. proto' \<noteq> proto \<and> bib_get_table proto' s = Some u \<and> p \<in> bib_nodes u}"
    by (rule Collect_cong) (auto split: if_splits)
  finally show ?thesis .
qed

text \<open>Adding a freshly created entry.\<close>

lemma bibdb_add_cases:
  assumes laws: "rb_laws ops" and wf: "bib_wf s" and p: "bibs s p = None"
    and b: "b_refcounter b = 1" "b_l4_proto b \<noteq> L4PROTO_OTHER"
  obtains (dup) q c s' b' where "bibs s q = Some c" "b_l4_proto c = b_l4_proto b"
      "b_ipv6 c = b_ipv6 b \<or> b_ipv4 c = b_ipv4 b"
      "bibdb_add ops p (s\<lparr>bibs := (bibs s)(p \<mapsto> b)\<rparr>) = Some (Err EEXIST, s')"
      "bib_only s s'" "bibs s' = (bibs s)(p \<mapsto> b')" "bib_wf (s'\<lparr>bibs := bibs s\<rparr>)"
    | (added) s' where
      "\<forall>q c. bibs s q = Some c \<longrightarrow> b_l4_proto c = b_l4_proto b \<longrightarrow> b_ipv6 c \<noteq> b_ipv6 b \<and> b_ipv4 c \<noteq> b_ipv4 b"
      "bibdb_add ops p (s\<lparr>bibs := (bibs s)(p \<mapsto> b)\<rparr>) = Some (Ok, s')" "bib_only s s'" "bib_wf s'"
      "bibs s' = (bibs s)(p \<mapsto> b\<lparr>b_tree6_hook := True, b_tree4_hook := True\<rparr>)"
proof -
  let ?proto = "b_l4_proto b"
  define g where "g = (bibs s)(p \<mapsto> b)"
  have g2: "g(p \<mapsto> x) = (bibs s)(p \<mapsto> x)" for x by (simp add: g_def)
  obtain t where t: "bib_get_table ?proto s = Some t" using bib_get_tableE [OF b(2)] by blast
  have pn: "p \<notin> bib_nodes u" if "bib_get_table proto s = Some u" for proto u
    using bib_wf_node [OF wf that] p by simp
  have ok: "bib_table_ok proto h u" if "bib_get_table proto s = Some u" "\<And>q. q \<noteq> p \<Longrightarrow> h q = bibs s q" for proto u h
    using bib_table_ok_outside [OF bib_wf_table [OF wf that(1)]] pn [OF that(1)] that(2) by metis
  have live: "bib_live (bib_put_table ?proto t' s) = X \<union> bib_live s"
    if "bib_nodes t' = X \<union> bib_nodes t" for t' X
    using that bib_live_put [OF t, of t'] bib_live_split [OF t] by auto
  have keys: "bib_key6 g q = map_option b_ipv6 (bibs s q)" "bib_key4 g q = map_option b_ipv4 (bibs s q)"
    if "q \<in> bib_nodes t" for q using that pn [OF t] by (auto simp: bib_key6_def bib_key4_def g_def)
  note node = bib_wf_node [OF wf t]
  have hp: "g p = Some b" "b_refcounter b \<ge> 1" using b by (simp_all add: g_def)
  have tok: "bib_table_ok ?proto g t" by (rule ok [OF t]) (simp add: g_def)
  note add = bibtable_add_cases [OF laws tok hp(1) pn [OF t] refl hp(2)]
  have wfI: "bib_wf ((bib_put_table ?proto t' s)\<lparr>bibs := h'\<rparr>)"
    if "bib_table_ok ?proto h' t'" "bib_nodes t' = X \<union> bib_nodes t" "dom h' = X \<union> dom (bibs s)"
      "\<And>q. q \<noteq> p \<Longrightarrow> h' q = bibs s q" for h' t' X
  proof -
    have "bib_table_ok proto h' u" if "bib_get_table proto (bib_put_table ?proto t' s) = Some u" for proto u
      using that ok [of proto u h'] \<open>bib_table_ok ?proto h' t'\<close> \<open>\<And>q. q \<noteq> p \<Longrightarrow> h' q = bibs s q\<close> t
      by (cases "proto = ?proto") simp_all
    moreover have "dom h' = bib_live (bib_put_table ?proto t' s)"
      using that(3) live [OF that(2)] wf unfolding bib_wf_def by simp
    ultimately show ?thesis
      unfolding bib_wf_def bib_db_ok_def bib_get_table_heap bib_live_heap by simp
  qed
  show ?thesis
  proof (cases rule: add)
    case (1 q)
    then obtain c where c: "bibs s q = Some c" "b_l4_proto c = ?proto" "b_ipv6 c = b_ipv6 b"
      using keys [of q] node [of q] by auto
    have s': "bib_put_table ?proto t (s\<lparr>bibs := g\<rparr>) = s\<lparr>bibs := g\<rparr>"
      using t by (cases ?proto) (auto simp: bib_put_table_def bib_get_table_def)
    have r: "bibdb_add ops p (s\<lparr>bibs := (bibs s)(p \<mapsto> b)\<rparr>) = Some (Err EEXIST, s\<lparr>bibs := g\<rparr>)"
      using 1 t s' hp(1) by (simp add: bibdb_add_def flip: g_def)
    show ?thesis
      by (rule dup [OF c(1,2) _ r, of b]) (use c(3) wf in \<open>simp_all add: g_def\<close>)
  next
    case (2 q t')
    then obtain c where c: "bibs s q = Some c" "b_l4_proto c = ?proto" "b_ipv4 c = b_ipv4 b"
      using keys [of q] node [of q] by auto
    let ?s' = "(bib_put_table ?proto t' (s\<lparr>bibs := g\<rparr>))\<lparr>bibs := g(p \<mapsto> b\<lparr>b_tree6_hook := True\<rparr>)\<rparr>"
    have eq: "?s'\<lparr>bibs := bibs s\<rparr> = (bib_put_table ?proto t' s)\<lparr>bibs := bibs s\<rparr>"
      by (cases ?proto) (simp_all add: bib_put_table_def)
    have "bib_table_ok ?proto (bibs s) t'"
      by (rule bib_table_ok_outside [OF 2(5)]) (use 2(6) pn [OF t] in \<open>auto simp: g_def\<close>)
    then have "bib_wf (?s'\<lparr>bibs := bibs s\<rparr>)"
      unfolding eq using wfI [of "bibs s" t' "{}"] 2(6) by simp
    moreover have r: "bibdb_add ops p (s\<lparr>bibs := (bibs s)(p \<mapsto> b)\<rparr>) = Some (Err EEXIST, ?s')"
      using 2(4) t hp(1) by (simp add: bibdb_add_def flip: g_def)
    ultimately show ?thesis
      by (intro dup [OF c(1,2) _ r, of "b\<lparr>b_tree6_hook := True\<rparr>"]) (use c(3) in \<open>simp_all add: g_def\<close>)
  next
    case (3 t')
    have no: "\<forall>q c. bibs s q = Some c \<longrightarrow> b_l4_proto c = ?proto \<longrightarrow> b_ipv6 c \<noteq> b_ipv6 b \<and> b_ipv4 c \<noteq> b_ipv4 b"
    proof (intro allI impI)
      fix q c assume "bibs s q = Some c" "b_l4_proto c = ?proto"
      then show "b_ipv6 c \<noteq> b_ipv6 b \<and> b_ipv4 c \<noteq> b_ipv4 b"
        using 3(1,2) keys [of q] node [of q] by auto
    qed
    let ?h2 = "(bibs s)(p \<mapsto> b\<lparr>b_tree6_hook := True, b_tree4_hook := True\<rparr>)"
    have "bib_wf ((bib_put_table ?proto t' s)\<lparr>bibs := ?h2\<rparr>)"
      using wfI [of ?h2 t' "{p}"] 3(4,5) by (simp add: g2)
    moreover have "(bib_put_table ?proto t' (s\<lparr>bibs := g\<rparr>))\<lparr>bibs := ?h2\<rparr> = (bib_put_table ?proto t' s)\<lparr>bibs := ?h2\<rparr>"
      by (cases ?proto) (simp_all add: bib_put_table_def)
    moreover have r: "bibdb_add ops p (s\<lparr>bibs := (bibs s)(p \<mapsto> b)\<rparr>) =
        Some (Ok, (bib_put_table ?proto t' (s\<lparr>bibs := g\<rparr>))\<lparr>bibs := ?h2\<rparr>)"
      using 3(3) t hp(1) by (simp add: bibdb_add_def add: g2 flip: g_def)
    ultimately show ?thesis
      by (intro added [OF no r]) simp_all
  qed
qed

section \<open>Removing the fake users\<close>

definition drop_fake_user :: "bib_entry \<Rightarrow> bib_entry option" where
  "drop_fake_user b =
     (if \<not> b_is_static b then Some b
      else if b_refcounter b = 1 then None
      else Some (b\<lparr>b_refcounter := b_refcounter b - 1\<rparr>))"

definition drop_fake_users :: "(ptr \<Rightarrow> bool) \<Rightarrow> bib_heap \<Rightarrow> bib_heap" where
  "drop_fake_users P h p = (if P p then Option.bind (h p) drop_fake_user else h p)"

lemma bib_table_ok_dom: "bib_table_ok proto h t \<Longrightarrow> bib_nodes t \<subseteq> dom h"
  unfolding bib_table_ok_def by blast

lemma bib_flush_cb_ok:
  assumes laws: "rb_laws ops" and ok: "bib_table_ok proto h t" and p: "p \<in> bib_nodes t"
  obtains t' c' where "bib_flush_cb ops p (t, h, c) = Some (Ok, t', drop_fake_users (\<lambda>q. q = p) h, c')"
    "bib_table_ok proto (drop_fake_users (\<lambda>q. q = p) h) t'"
    "bib_nodes t' = bib_nodes t \<inter> dom (drop_fake_users (\<lambda>q. q = p) h)"
proof -
  let ?h' = "drop_fake_users (\<lambda>q. q = p) h"
  obtain b where b: "h p = Some b" "bib_entry_ok proto b" using bib_table_ok_node [OF ok p] by blast
  have pos: "b_refcounter c \<ge> 1" "h q = Some c \<Longrightarrow> q \<in> dom h" if "q \<in> bib_nodes t" "h q = Some c" for q c
    using bib_table_ok_node [OF ok that(1)] that(2) by (auto simp: bib_entry_ok_def)
  have dom: "bib_nodes t \<subseteq> dom h" using bib_table_ok_dom [OF ok] .
  show ?thesis
  proof (cases "b_is_static b \<and> b_refcounter b = 1")
    case True
    let ?h1 = "h(p \<mapsto> b\<lparr>b_refcounter := 0\<rparr>)"
    have h': "?h' = h(p := None)" using True b by (auto simp: drop_fake_users_def drop_fake_user_def)
    have "\<exists>b'. ?h1 q = Some b' \<and> bib_same c b' \<and> (q \<noteq> p \<longrightarrow> b_refcounter b' \<ge> 1)"
      if "q \<in> bib_nodes t" "h q = Some c" for q c
      using that pos(1) [OF that] b by auto
    then obtain t' where t': "bib_rm ops t p ?h1 = Some t'" "bib_table_ok proto ?h1 t'"
      "bib_nodes t' = bib_nodes t - {p}"
      using bib_rm_ok [OF laws ok p] by blast
    have "bib_table_ok proto (h(p := None)) t'"
      by (rule bib_table_ok_outside [OF t'(2)]) (use t'(3) in auto)
    moreover have "bib_flush_cb ops p (t, h, c) = Some (Ok, t', h(p := None), c + 1)"
      using True b t'(1) by (simp add: bib_flush_cb_def bibentry_return_def bibentry_kfree_def)
    moreover have "bib_nodes t' = bib_nodes t \<inter> dom (h(p := None))" using t'(3) dom by auto
    ultimately show ?thesis using that h' by metis
  next
    case False
    define b' where "b' = (if b_is_static b then b\<lparr>b_refcounter := b_refcounter b - 1\<rparr> else b)"
    have h': "?h' = h(p \<mapsto> b')"
      using False b by (auto simp: drop_fake_users_def drop_fake_user_def b'_def)
    have b': "bib_same b b'" "b_refcounter b' \<ge> 1"
      using False b by (auto simp: b'_def bib_entry_ok_def)
    have "bib_flush_cb ops p (t, h, c) = Some (Ok, t, h(p \<mapsto> b'), c)"
      using False b by (auto simp: bib_flush_cb_def bibentry_return_def b'_def fun_upd_idem)
    moreover have "bib_table_ok proto (h(p \<mapsto> b')) t"
      by (rule bib_table_ok_heap [OF ok]) (use b b' pos(1) in auto)
    moreover have "bib_nodes t = bib_nodes t \<inter> dom (h(p \<mapsto> b'))" using dom by auto
    ultimately show ?thesis using that h' by metis
  qed
qed

lemma drop_fake_users_Un:
  "(\<And>p. \<not> (P p \<and> Q p)) \<Longrightarrow> drop_fake_users P (drop_fake_users Q h) = drop_fake_users (\<lambda>p. P p \<or> Q p) h"
  by (auto simp: drop_fake_users_def)

lemma bib_flush_list:
  assumes laws: "rb_laws ops" and "bib_table_ok proto h t" "set es \<subseteq> bib_nodes t" "distinct es"
  shows "\<exists>t' c'. list_iterate (bib_flush_cb ops) es (t, h, c) =
      Some (Ok, t', drop_fake_users (\<lambda>p. p \<in> set es) h, c') \<and>
    bib_table_ok proto (drop_fake_users (\<lambda>p. p \<in> set es) h) t' \<and>
    bib_nodes t' = bib_nodes t \<inter> dom (drop_fake_users (\<lambda>p. p \<in> set es) h)"
  using assms(2-4)
proof (induction es arbitrary: h t c)
  case Nil
  have "drop_fake_users (\<lambda>p. False) h = h" by (auto simp: drop_fake_users_def)
  moreover have "bib_nodes t \<subseteq> dom h" using bib_table_ok_dom [OF Nil(1)] .
  ultimately show ?case using Nil by auto
next
  case (Cons e es)
  let ?h1 = "drop_fake_users (\<lambda>q. q = e) h"
  obtain t1 c1 where 1: "bib_flush_cb ops e (t, h, c) = Some (Ok, t1, ?h1, c1)" "bib_table_ok proto ?h1 t1"
    "bib_nodes t1 = bib_nodes t \<inter> dom ?h1"
    using bib_flush_cb_ok [OF laws Cons.prems(1), of e c] Cons.prems(2) by auto
  have "q \<in> dom ?h1" if "q \<in> set es" for q
    using that Cons.prems(2,3) bib_table_ok_dom [OF Cons.prems(1)] by (auto simp: drop_fake_users_def)
  then have "set es \<subseteq> bib_nodes t1" using 1(3) Cons.prems(2) by auto
  moreover have "drop_fake_users (\<lambda>p. p \<in> set es) ?h1 = drop_fake_users (\<lambda>p. p \<in> set (e # es)) h"
    using Cons.prems(3) by (subst drop_fake_users_Un) (auto simp: drop_fake_users_def)
  moreover have "dom (drop_fake_users (\<lambda>p. p \<in> set (e # es)) h) \<subseteq> dom ?h1"
    using Cons.prems(3) by (auto simp: drop_fake_users_def bind_eq_Some_conv split: if_splits)
  then have "bib_nodes t1 \<inter> dom (drop_fake_users (\<lambda>p. p \<in> set (e # es)) h) =
    bib_nodes t \<inter> dom (drop_fake_users (\<lambda>p. p \<in> set (e # es)) h)" using 1(3) by blast
  ultimately show ?case using Cons.IH [OF 1(2), of c1] Cons.prems(3) 1(1) by simp
qed

text \<open>The tree loop with such a callback is the list loop over what follows the starting point.\<close>

lemma bib_rm_tree4:
  assumes "rb_laws ops" "bib_rm ops t e h = Some t'"
  shows "inorder (bt_tree4 t') = inorder (bt_tree4 t) \<or> inorder (bt_tree4 t') = remove1 e (inorder (bt_tree4 t))"
  using assms by (auto simp: bib_rm_def bind_eq_Some_conv rbtree_erase_def split: if_splits)

lemma bib_flush_cb_tree4:
  assumes "rb_laws ops" "bib_flush_cb ops e s = Some (r, s')"
  shows "inorder (bt_tree4 (fst s')) = inorder (bt_tree4 (fst s)) \<or>
    inorder (bt_tree4 (fst s')) = remove1 e (inorder (bt_tree4 (fst s)))"
  using assms(2) bib_rm_tree4 [OF assms(1)]
  by (fastforce simp: bib_flush_cb_def bind_eq_Some_conv split: if_splits prod.splits)

lemma remove1_split: "distinct (pre @ e # rest) \<Longrightarrow> remove1 e (pre @ e # rest) = pre @ rest"
  by (induction pre) auto

lemma bib_foreach_list:
  assumes laws: "rb_laws ops" and ok: "bib_table_ok proto h t"
    and cb: "\<And>e s r s'. func e s = Some (r, s') \<Longrightarrow> inorder (bt_tree4 (fst s')) = inorder (bt_tree4 (fst s)) \<or>
      inorder (bt_tree4 (fst s')) = remove1 e (inorder (bt_tree4 (fst s)))"
  shows "bib_foreach ops func offset inc (t, h, c) =
    list_iterate func (case offset of None \<Rightarrow> inorder (bt_tree4 t)
      | Some a \<Rightarrow> dropWhile (\<lambda>p. the (bib_key4 h p) < a \<or> \<not> inc \<and> the (bib_key4 h p) = a) (inorder (bt_tree4 t)))
      (t, h, c)" (is "_ = list_iterate func ?es _")
proof -
  have srt: "bib4.keys_sorted h (inorder (bt_tree4 t))" using ok by (simp add: bib_table_ok_def)
  let ?pre = "case offset of None \<Rightarrow> []
    | Some a \<Rightarrow> takeWhile (\<lambda>p. the (bib_key4 h p) < a \<or> \<not> inc \<and> the (bib_key4 h p) = a) (inorder (bt_tree4 t))"
  have "bib_find_starting_point ops t offset inc h = Some (first_of ?es)"
    using bib4.start_ok [OF laws srt] rb_laws_first [OF laws]
    by (auto simp: bib_find_starting_point_def split: option.splits)
  moreover have "rb_iterate ops (\<lambda>(t, _). bt_tree4 t) func (first_of ?es) (t, h, c) = list_iterate func ?es (t, h, c)"
  proof (rule rb_iterate_list [OF laws, where pre = ?pre])
    fix e s pre rest s'
    assume a: "inorder ((\<lambda>(t, _). bt_tree4 t) s) = pre @ e # rest" "distinct (inorder ((\<lambda>(t, _). bt_tree4 t) s))"
      "func e s = Some (Ok, s')"
    then show "(\<exists>pre'. inorder ((\<lambda>(t, _). bt_tree4 t) s') = pre' @ rest) \<and> distinct (inorder ((\<lambda>(t, _). bt_tree4 t) s'))"
      using cb [OF a(3)] remove1_split [of pre e rest] by (auto simp: split_def intro: exI [of _ "pre @ [e]"])
  next
    show "inorder ((\<lambda>(t, _). bt_tree4 t) (t, h, c)) = ?pre @ ?es"
      by (simp split: option.split)
  next
    show "distinct (inorder ((\<lambda>(t, _). bt_tree4 t) (t, h, c)))" using bib4.keys_sorted_distinct [OF srt] by simp
  qed
  ultimately show ?thesis by (simp add: bib_foreach_def)
qed

lemma bibtable_flush_ok:
  assumes laws: "rb_laws ops" and ok: "bib_table_ok proto h t"
  shows "\<exists>t'. bibtable_flush ops t h = Some (t', drop_fake_users (\<lambda>p. p \<in> bib_nodes t) h) \<and>
    bib_table_ok proto (drop_fake_users (\<lambda>p. p \<in> bib_nodes t) h) t' \<and>
    bib_nodes t' = bib_nodes t \<inter> dom (drop_fake_users (\<lambda>p. p \<in> bib_nodes t) h)"
proof -
  have "distinct (inorder (bt_tree4 t))"
    using ok bib4.keys_sorted_distinct by (auto simp: bib_table_ok_def)
  then show ?thesis
    using bib_flush_list [OF laws ok, of "inorder (bt_tree4 t)" 0]
      bib_foreach_list [OF laws ok bib_flush_cb_tree4 [OF laws], where offset = None and inc = False and c = 0]
    by (fastforce simp: bibtable_flush_def bib_nodes_def)
qed

lemma bib_delete_list:
  assumes laws: "rb_laws ops" and "bib_table_ok proto h t" "set es \<subseteq> bib_nodes t" "distinct es"
    "\<forall>p \<in> set es. bib_key4 h p = Some (k p)"
  shows "\<exists>r t' c'. list_iterate (bib_delete_taddr4s_cb ops prefix ports) es (t, h, c) = Some (r, t',
        drop_fake_users (\<lambda>p. p \<in> set (filter (\<lambda>p. port_range_contains ports (ta4_l4 (k p)))
          (takeWhile (\<lambda>p. prefix4_contains prefix (ta4_l3 (k p))) es))) h, c') \<and>
      bib_table_ok proto (drop_fake_users (\<lambda>p. p \<in> set (filter (\<lambda>p. port_range_contains ports (ta4_l4 (k p)))
          (takeWhile (\<lambda>p. prefix4_contains prefix (ta4_l3 (k p))) es))) h) t' \<and>
      bib_nodes t' = bib_nodes t \<inter> dom (drop_fake_users (\<lambda>p. p \<in> set (filter (\<lambda>p. port_range_contains ports (ta4_l4 (k p)))
          (takeWhile (\<lambda>p. prefix4_contains prefix (ta4_l3 (k p))) es))) h)"
  using assms(2-5)
proof (induction es arbitrary: h t c)
  case Nil
  have "drop_fake_users (\<lambda>p. False) h = h" by (auto simp: drop_fake_users_def)
  then show ?case using Nil bib_table_ok_dom [OF Nil(1)] by auto
next
  case (Cons e es)
  obtain b where b: "h e = Some b" "b_ipv4 b = k e" using Cons.prems(4) by (auto simp: bib_key4_def)
  have none: "drop_fake_users (\<lambda>p. False) h = h" by (auto simp: drop_fake_users_def)
  consider (out) "\<not> prefix4_contains prefix (ta4_l3 (k e))"
    | (skip) "prefix4_contains prefix (ta4_l3 (k e))" "\<not> port_range_contains ports (ta4_l4 (k e))"
    | (hit) "prefix4_contains prefix (ta4_l3 (k e))" "port_range_contains ports (ta4_l4 (k e))" by blast
  then show ?case
  proof cases
    case out
    then show ?thesis
      using Cons.prems(1) b none bib_table_ok_dom [OF Cons.prems(1)] by (auto simp: bib_delete_taddr4s_cb_def)
  next
    case skip
    then show ?thesis
      using Cons.IH [of h t c] Cons.prems b by (simp add: bib_delete_taddr4s_cb_def)
  next
    case hit
    let ?h1 = "drop_fake_users (\<lambda>q. q = e) h"
    let ?D = "\<lambda>es. filter (\<lambda>p. port_range_contains ports (ta4_l4 (k p))) (takeWhile (\<lambda>p. prefix4_contains prefix (ta4_l3 (k p))) es)"
    obtain t1 c1 where 1: "bib_flush_cb ops e (t, h, c) = Some (Ok, t1, ?h1, c1)" "bib_table_ok proto ?h1 t1"
      "bib_nodes t1 = bib_nodes t \<inter> dom ?h1"
      using bib_flush_cb_ok [OF laws Cons.prems(1), of e c] Cons.prems(2) by auto
    have keys: "\<forall>p \<in> set es. bib_key4 ?h1 p = Some (k p)"
      using Cons.prems(3,4) by (auto simp: bib_key4_def drop_fake_users_def)
    then have "set es \<subseteq> bib_nodes t1"
      using 1(3) Cons.prems(2) by (auto simp: bib_key4_def)
    moreover have "e \<notin> set (?D es)" using Cons.prems(3) by (auto dest: set_takeWhileD)
    then have eq: "drop_fake_users (\<lambda>p. p \<in> set (?D es)) ?h1 = drop_fake_users (\<lambda>p. p \<in> set (?D (e # es))) h"
      using hit by (subst drop_fake_users_Un) (auto simp: drop_fake_users_def)
    moreover have "dom (drop_fake_users (\<lambda>p. p \<in> set (?D (e # es))) h) \<subseteq> dom ?h1"
      using hit by (auto simp: drop_fake_users_def bind_eq_Some_conv split: if_splits)
    then have "bib_nodes t1 \<inter> dom (drop_fake_users (\<lambda>p. p \<in> set (?D (e # es))) h) =
      bib_nodes t \<inter> dom (drop_fake_users (\<lambda>p. p \<in> set (?D (e # es))) h)" using 1(3) by blast
    moreover have "bib_delete_taddr4s_cb ops prefix ports e (t, h, c) = bib_flush_cb ops e (t, h, c)"
      using hit b by (simp add: bib_delete_taddr4s_cb_def)
    ultimately show ?thesis
      using Cons.IH [OF 1(2), of c1] Cons.prems(3) 1(1) keys by (simp del: filter.simps takeWhile.simps)
  qed
qed

definition in_block :: "ipv4_prefix \<Rightarrow> port_range \<Rightarrow> ipv4_transport_addr \<Rightarrow> bool" where
  "in_block prefix ports a \<longleftrightarrow> prefix4_contains prefix (ta4_l3 a) \<and> port_range_contains ports (ta4_l4 a)"

lemma bibtable_delete_taddr4s_ok:
  fixes prefix :: ipv4_prefix and ports :: port_range
  assumes laws: "rb_laws ops" and ok: "bib_table_ok proto h t" and prefix: "prefix4_wf prefix"
    and D_def: "D = (\<lambda>p. p \<in> bib_nodes t \<and> (\<exists>b. h p = Some b \<and> in_block prefix ports (b_ipv4 b)))"
  shows "\<exists>t'. bibtable_delete_taddr4s ops t prefix ports h = Some (t', drop_fake_users D h) \<and>
    bib_table_ok proto (drop_fake_users D h) t' \<and> bib_nodes t' = bib_nodes t \<inter> dom (drop_fake_users D h)"
proof -
  let ?k = "\<lambda>p. the (bib_key4 h p)" and ?low = "\<lparr>ta4_l3 = p4_address prefix, ta4_l4 = pr_min ports\<rparr> :: ipv4_transport_addr"
  let ?xs = "inorder (bt_tree4 t)"
  let ?es = "dropWhile (\<lambda>p. ?k p < ?low) ?xs"
  have srt: "bib4.keys_sorted h ?xs" using ok by (simp add: bib_table_ok_def)
  have dist: "distinct ?xs" using bib4.keys_sorted_distinct [OF srt] .
  have sub: "set ?es \<subseteq> bib_nodes t" by (auto simp: bib_nodes_def simp flip: set_inorder dest: set_dropWhileD)
  have keys: "bib_key4 h p = Some (?k p)" if "p \<in> set ?xs" for p
    using srt that by (auto simp: bib4.keys_sorted_def)
  have "set (takeWhile (\<lambda>p. prefix4_contains prefix (ta4_l3 (?k p))) ?es) =
    {p \<in> set ?xs. ?low \<le> ?k p \<and> prefix4_contains prefix (ta4_l3 (?k p))}"
  proof (rule set_takeWhile_dropWhile_sorted)
    show "sorted_wrt (\<lambda>a b. ?k a < ?k b) ?xs" using srt by (simp add: bib4.keys_sorted_def)
  next
    fix x y assume "?low \<le> ?k x" "?k x < ?k y" "prefix4_contains prefix (ta4_l3 (?k y))"
    then show "prefix4_contains prefix (ta4_l3 (?k x))"
      using prefix4_contains_interval [OF prefix]
      by (fastforce simp: not_less [symmetric] taddr4_less_iff word_less_nat_alt)
  qed
  moreover have "?low \<le> ?k p" if "prefix4_contains prefix (ta4_l3 (?k p))" "port_range_contains ports (ta4_l4 (?k p))" for p
    using that prefix4_contains_interval [OF prefix]
    by (fastforce simp: not_less [symmetric] taddr4_less_iff word_less_nat_alt port_range_contains_def)
  moreover have "D p \<longleftrightarrow> p \<in> set ?xs \<and> prefix4_contains prefix (ta4_l3 (?k p)) \<and> port_range_contains ports (ta4_l4 (?k p))" for p
  proof (cases "h p")
    case None
    then show ?thesis using keys [of p] by (auto simp: D_def bib_key4_def)
  next
    case (Some b)
    then show ?thesis by (simp add: D_def in_block_def bib_nodes_def bib_key4_def)
  qed
  ultimately have "(\<lambda>p. p \<in> set (filter (\<lambda>p. port_range_contains ports (ta4_l4 (?k p)))
      (takeWhile (\<lambda>p. prefix4_contains prefix (ta4_l3 (?k p))) ?es))) = D"
    by (intro ext) (simp del: set_inorder, blast)
  moreover have "distinct ?es" using dist by (rule distinct_dropWhile)
  moreover have "\<forall>p \<in> set ?es. bib_key4 h p = Some (?k p)" using keys by (auto dest: set_dropWhileD)
  ultimately have "\<exists>r t' c'. list_iterate (bib_delete_taddr4s_cb ops prefix ports) ?es (t, h, 0) =
      Some (r, t', drop_fake_users D h, c') \<and> bib_table_ok proto (drop_fake_users D h) t' \<and>
      bib_nodes t' = bib_nodes t \<inter> dom (drop_fake_users D h)"
    using bib_delete_list [OF laws ok sub, of ?k prefix ports 0] by simp
  moreover have "bib_foreach ops (bib_delete_taddr4s_cb ops prefix ports) (Some ?low) True (t, h, 0) =
      list_iterate (bib_delete_taddr4s_cb ops prefix ports) ?es (t, h, 0)"
  proof (subst bib_foreach_list [OF laws ok])
    fix e s r s' assume "bib_delete_taddr4s_cb ops prefix ports e s = Some (r, s')"
    then show "inorder (bt_tree4 (fst s')) = inorder (bt_tree4 (fst s)) \<or>
      inorder (bt_tree4 (fst s')) = remove1 e (inorder (bt_tree4 (fst s)))"
      using bib_flush_cb_tree4 [OF laws, of e s r s']
      by (auto simp: bib_delete_taddr4s_cb_def bind_eq_Some_conv split: prod.splits if_splits)
  qed simp
  ultimately show ?thesis by (auto simp: bibtable_delete_taddr4s_def)
qed

lemma bib_on_table_drop:
  assumes wf: "bib_wf s" and t: "bib_get_table proto s = Some t"
    and f: "\<exists>t'. f t (bibs s) = Some (t', drop_fake_users D (bibs s)) \<and>
      bib_table_ok proto (drop_fake_users D (bibs s)) t' \<and> bib_nodes t' = bib_nodes t \<inter> dom (drop_fake_users D (bibs s))"
    and D: "\<And>p. D p \<Longrightarrow> p \<in> bib_nodes t"
  shows "\<exists>s'. bib_on_table f proto s = Some s' \<and> bib_wf s' \<and> bib_only s s' \<and> bibs s' = drop_fake_users D (bibs s)"
proof -
  let ?h = "drop_fake_users D (bibs s)"
  obtain t' where t': "f t (bibs s) = Some (t', ?h)" "bib_table_ok proto ?h t'" "bib_nodes t' = bib_nodes t \<inter> dom ?h"
    using f by blast
  let ?s' = "(bib_put_table proto t' s)\<lparr>bibs := ?h\<rparr>"
  have other: "q \<notin> bib_nodes t" if "bib_get_table proto' s = Some u" "q \<in> bib_nodes u" "proto' \<noteq> proto" for proto' u q
    using that bib_wf_node [OF wf t, of q] bib_wf_node [OF wf that(1), of q] by auto
  have "bib_table_ok proto' ?h u" if "bib_get_table proto' (bib_put_table proto t' s) = Some u" for proto' u
  proof (cases "proto' = proto")
    case True
    then show ?thesis using that t' t by simp
  next
    case False
    then have u: "bib_get_table proto' s = Some u" using that by simp
    show ?thesis
      by (rule bib_table_ok_outside [OF bib_wf_table [OF wf u]])
        (use other [OF u _ False] D in \<open>auto simp: drop_fake_users_def\<close>)
  qed
  moreover have "dom ?h = bib_live (bib_put_table proto t' s)"
  proof -
    have "dom ?h \<subseteq> dom (bibs s)" by (auto simp: drop_fake_users_def bind_eq_Some_conv split: if_splits)
    moreover have "q \<in> dom ?h" if "q \<in> dom (bibs s)" "q \<notin> bib_nodes t" for q
      using that D by (auto simp: drop_fake_users_def)
    ultimately show ?thesis
      using wf other unfolding bib_live_put [OF t] t'(3) bib_wf_def bib_live_split [OF t] by blast
  qed
  ultimately have "bib_wf ?s'" unfolding bib_wf_def bib_db_ok_def bib_get_table_heap bib_live_heap by simp
  then show ?thesis using t t'(1) by (simp add: bib_on_table_def)
qed

lemma bib_flush_table:
  assumes "rb_laws ops" "bib_wf s" "proto \<noteq> L4PROTO_OTHER"
  shows "\<exists>s'. bib_on_table (bibtable_flush ops) proto s = Some s' \<and> bib_wf s' \<and> bib_only s s' \<and>
    bibs s' = drop_fake_users (\<lambda>p. \<exists>b. bibs s p = Some b \<and> b_l4_proto b = proto) (bibs s)"
proof -
  obtain t where t: "bib_get_table proto s = Some t" using bib_get_tableE [OF assms(3)] by blast
  have "(\<lambda>p. \<exists>b. bibs s p = Some b \<and> b_l4_proto b = proto) = (\<lambda>p. p \<in> bib_nodes t)"
    using bib_wf_node [OF assms(2) t] by auto
  then show ?thesis
    using bib_on_table_drop [of s proto t "bibtable_flush ops" "\<lambda>p. p \<in> bib_nodes t"] assms(2) t
      bibtable_flush_ok [OF assms(1) bib_wf_table [OF assms(2) t]] by simp
qed

lemma bib_delete_table:
  assumes "rb_laws ops" "bib_wf s" "proto \<noteq> L4PROTO_OTHER" "prefix4_wf prefix"
  shows "\<exists>s'. bib_on_table (\<lambda>t. bibtable_delete_taddr4s ops t prefix ports) proto s = Some s' \<and> bib_wf s' \<and> bib_only s s' \<and>
    bibs s' = drop_fake_users (\<lambda>p. \<exists>b. bibs s p = Some b \<and> b_l4_proto b = proto \<and> in_block prefix ports (b_ipv4 b)) (bibs s)"
proof -
  obtain t where t: "bib_get_table proto s = Some t" using bib_get_tableE [OF assms(3)] by blast
  have "(\<lambda>p. \<exists>b. bibs s p = Some b \<and> b_l4_proto b = proto \<and> in_block prefix ports (b_ipv4 b)) =
    (\<lambda>p. p \<in> bib_nodes t \<and> (\<exists>b. bibs s p = Some b \<and> in_block prefix ports (b_ipv4 b)))"
    using bib_wf_node [OF assms(2) t] by fastforce
  then show ?thesis
    using bib_on_table_drop [of s proto t "\<lambda>t. bibtable_delete_taddr4s ops t prefix ports"
        "\<lambda>p. p \<in> bib_nodes t \<and> (\<exists>b. bibs s p = Some b \<and> in_block prefix ports (b_ipv4 b))"] assms(2) t
      bibtable_delete_taddr4s_ok [OF assms(1) bib_wf_table [OF assms(2) t] assms(4) refl, of ports]
    by simp
qed

lemma drop_fake_users_seq:
  fixes h :: bib_heap
  assumes "proto \<notin> S" "g = drop_fake_users (\<lambda>p. \<exists>b. h p = Some b \<and> b_l4_proto b \<in> S \<and> P b) h"
  shows "drop_fake_users (\<lambda>p. \<exists>b. g p = Some b \<and> b_l4_proto b = proto \<and> P b) g =
    drop_fake_users (\<lambda>p. \<exists>b. h p = Some b \<and> b_l4_proto b \<in> insert proto S \<and> P b) h"
proof (rule ext)
  fix p
  show "drop_fake_users (\<lambda>p. \<exists>b. g p = Some b \<and> b_l4_proto b = proto \<and> P b) g p =
    drop_fake_users (\<lambda>p. \<exists>b. h p = Some b \<and> b_l4_proto b \<in> insert proto S \<and> P b) h p"
    using assms by (cases "h p") (auto simp: drop_fake_users_def drop_fake_user_def)
qed

lemma drop_fake_users_cong:
  assumes "\<And>p b. h p = Some b \<Longrightarrow> P p = Q p"
  shows "drop_fake_users P h = drop_fake_users Q h"
proof
  fix p
  show "drop_fake_users P h p = drop_fake_users Q h p"
    using assms [of p] by (cases "h p") (auto simp: drop_fake_users_def)
qed

lemma bib_wf_protos: "bib_wf s \<Longrightarrow> bibs s p = Some b \<Longrightarrow> b_l4_proto b \<in> {L4PROTO_UDP, L4PROTO_ICMP, L4PROTO_TCP}"
  by (erule bib_wf_entry) (auto intro: l4_protocol.exhaust)

lemma bibdb_flush_ok:
  assumes "rb_laws ops" "bib_wf s"
  shows "\<exists>s'. bibdb_flush ops s = Some s' \<and> bib_wf s' \<and> bib_only s s' \<and> bibs s' = drop_fake_users (\<lambda>p. True) (bibs s)"
proof -
  obtain s1 where 1: "bib_on_table (bibtable_flush ops) L4PROTO_TCP s = Some s1" "bib_wf s1" "bib_only s s1"
    "bibs s1 = drop_fake_users (\<lambda>p. \<exists>b. bibs s p = Some b \<and> b_l4_proto b = L4PROTO_TCP) (bibs s)"
    using bib_flush_table [OF assms, of L4PROTO_TCP] by auto
  obtain s2 where 2: "bib_on_table (bibtable_flush ops) L4PROTO_ICMP s1 = Some s2" "bib_wf s2" "bib_only s1 s2"
    "bibs s2 = drop_fake_users (\<lambda>p. \<exists>b. bibs s1 p = Some b \<and> b_l4_proto b = L4PROTO_ICMP) (bibs s1)"
    using bib_flush_table [OF assms(1) 1(2), of L4PROTO_ICMP] by auto
  obtain s3 where 3: "bib_on_table (bibtable_flush ops) L4PROTO_UDP s2 = Some s3" "bib_wf s3" "bib_only s2 s3"
    "bibs s3 = drop_fake_users (\<lambda>p. \<exists>b. bibs s2 p = Some b \<and> b_l4_proto b = L4PROTO_UDP) (bibs s2)"
    using bib_flush_table [OF assms(1) 2(2), of L4PROTO_UDP] by auto
  have h2: "bibs s2 = drop_fake_users (\<lambda>p. \<exists>b. bibs s p = Some b \<and> b_l4_proto b \<in> {L4PROTO_ICMP, L4PROTO_TCP}) (bibs s)"
    using drop_fake_users_seq [of L4PROTO_ICMP "{L4PROTO_TCP}" "bibs s1" "bibs s" "\<lambda>_. True"] 1(4) 2(4) by simp
  have "bibs s3 = drop_fake_users (\<lambda>p. \<exists>b. bibs s p = Some b \<and> b_l4_proto b \<in> {L4PROTO_UDP, L4PROTO_ICMP, L4PROTO_TCP}) (bibs s)"
    using drop_fake_users_seq [of L4PROTO_UDP "{L4PROTO_ICMP, L4PROTO_TCP}" "bibs s2" "bibs s" "\<lambda>_. True"] h2 3(4) by simp
  also have "\<dots> = drop_fake_users (\<lambda>p. True) (bibs s)"
    using bib_wf_protos [OF assms(2)] by (intro drop_fake_users_cong) blast
  finally show ?thesis
    using 1 2 3 bib_only_trans by (auto simp: bibdb_flush_def intro: bib_only_trans)
qed

lemma bibdb_delete_taddr4s_ok:
  assumes "rb_laws ops" "bib_wf s" "prefix4_wf prefix"
  shows "\<exists>s'. bibdb_delete_taddr4s ops prefix ports s = Some s' \<and> bib_wf s' \<and> bib_only s s' \<and>
    bibs s' = drop_fake_users (\<lambda>p. \<exists>b. bibs s p = Some b \<and> in_block prefix ports (b_ipv4 b)) (bibs s)"
proof -
  let ?P = "\<lambda>b. in_block prefix ports (b_ipv4 b)" and ?f = "\<lambda>t. bibtable_delete_taddr4s ops t prefix ports"
  obtain s1 where 1: "bib_on_table ?f L4PROTO_TCP s = Some s1" "bib_wf s1" "bib_only s s1"
    "bibs s1 = drop_fake_users (\<lambda>p. \<exists>b. bibs s p = Some b \<and> b_l4_proto b = L4PROTO_TCP \<and> ?P b) (bibs s)"
    using bib_delete_table [OF assms(1,2) _ assms(3), of L4PROTO_TCP ports] by auto
  obtain s2 where 2: "bib_on_table ?f L4PROTO_UDP s1 = Some s2" "bib_wf s2" "bib_only s1 s2"
    "bibs s2 = drop_fake_users (\<lambda>p. \<exists>b. bibs s1 p = Some b \<and> b_l4_proto b = L4PROTO_UDP \<and> ?P b) (bibs s1)"
    using bib_delete_table [OF assms(1) 1(2) _ assms(3), of L4PROTO_UDP ports] by auto
  obtain s3 where 3: "bib_on_table ?f L4PROTO_ICMP s2 = Some s3" "bib_wf s3" "bib_only s2 s3"
    "bibs s3 = drop_fake_users (\<lambda>p. \<exists>b. bibs s2 p = Some b \<and> b_l4_proto b = L4PROTO_ICMP \<and> ?P b) (bibs s2)"
    using bib_delete_table [OF assms(1) 2(2) _ assms(3), of L4PROTO_ICMP ports] by auto
  have h2: "bibs s2 = drop_fake_users (\<lambda>p. \<exists>b. bibs s p = Some b \<and> b_l4_proto b \<in> {L4PROTO_UDP, L4PROTO_TCP} \<and> ?P b) (bibs s)"
    using drop_fake_users_seq [of L4PROTO_UDP "{L4PROTO_TCP}" "bibs s1" "bibs s" ?P] 1(4) 2(4) by simp
  have "bibs s3 = drop_fake_users (\<lambda>p. \<exists>b. bibs s p = Some b \<and> b_l4_proto b \<in> {L4PROTO_ICMP, L4PROTO_UDP, L4PROTO_TCP} \<and> ?P b) (bibs s)"
    using drop_fake_users_seq [of L4PROTO_ICMP "{L4PROTO_UDP, L4PROTO_TCP}" "bibs s2" "bibs s" ?P] h2 3(4) by simp
  also have "\<dots> = drop_fake_users (\<lambda>p. \<exists>b. bibs s p = Some b \<and> ?P b) (bibs s)"
    using bib_wf_protos [OF assms(2)] by (intro drop_fake_users_cong) blast
  finally show ?thesis
    using 1 2 3 bib_only_trans by (auto simp: bibdb_delete_taddr4s_def intro: bib_only_trans)
qed

section \<open>Properties\<close>

text \<open>What a table promises: a one-to-one relation between IPv6 and IPv4 transport addresses.\<close>

definition bib_bindings :: "l4_protocol \<Rightarrow> 'a bib_db_scheme \<Rightarrow> (ipv6_transport_addr \<times> ipv4_transport_addr) set" where
  "bib_bindings proto s = {(b_ipv6 b, b_ipv4 b) | b. b \<in> ran (bibs s) \<and> b_l4_proto b = proto}"

lemma bib_bindings_one_to_one:
  assumes "bib_wf s" "(x, y) \<in> bib_bindings proto s" "(x', y') \<in> bib_bindings proto s"
  shows "x = x' \<longleftrightarrow> y = y'"
  using assms bib_wf_unique4 [OF assms(1)] bib_wf_unique6 [OF assms(1)]
  by (auto simp: bib_bindings_def ran_def) (metis option.inject)+

lemma bib_bindings_upd:
  assumes "bibs s p = None" "bibs s' = (bibs s)(p \<mapsto> b)"
  shows "bib_bindings proto s' =
    (if b_l4_proto b = proto then insert (b_ipv6 b, b_ipv4 b) (bib_bindings proto s) else bib_bindings proto s)"
  using assms by (auto simp: bib_bindings_def ran_map_upd)

definition sample_ta6 :: ipv6_transport_addr where
  "sample_ta6 = \<lparr>ta6_l3 = 1, ta6_l4 = 80\<rparr>"

definition sample_ta4 :: ipv4_transport_addr where
  "sample_ta4 = \<lparr>ta4_l3 = 0xC0000201, ta4_l4 = 1024\<rparr>"

text \<open>A database with one static TCP entry, and the pointer that the next allocation returns.\<close>

definition sample_bib :: "int \<Rightarrow> bib_db" where
  "sample_bib refs =
     \<lparr>bibs = [1 \<mapsto> \<lparr>b_ipv4 = sample_ta4, b_ipv6 = sample_ta6, b_l4_proto = L4PROTO_TCP, b_is_static = True,
                     b_refcounter = refs, b_tree6_hook = True, b_tree4_hook = True\<rparr>],
      bib_tcp = \<lparr>bt_tree6 = Node Leaf 1 Leaf, bt_tree4 = Node Leaf 1 Leaf, bt_count = 1\<rparr>,
      bib_udp = bibtable_init, bib_icmp = bibtable_init\<rparr>"

definition sample_alloc :: "ptr \<Rightarrow> bib_alloc" where
  "sample_alloc p h = (case h p of None \<Rightarrow> Some p | Some _ \<Rightarrow> None)"

lemma sample_alloc_ok: "bib_alloc_ok (sample_alloc p)"
  by (auto simp: bib_alloc_ok_def sample_alloc_def split: option.splits)

lemma bib_table_ok_empty: "bib_table_ok proto h bibtable_init"
  by (simp add: bib_table_ok_def bibtable_init_def bib_nodes_def)

lemma sample_bib_wf:
  assumes "refs \<ge> 1"
  shows "bib_wf (sample_bib refs)"
proof -
  have "bib_table_ok proto (bibs (sample_bib refs)) t" if "bib_get_table proto (sample_bib refs) = Some t" for proto t
    using that assms bib_table_ok_empty
    by (cases proto) (auto simp: sample_bib_def bib_get_table_def bib_table_ok_def bib_nodes_def bib_entry_ok_def
      bib_key6_def bib_key4_def bibtable_init_def)
  moreover have "bib_live (sample_bib refs) = {1}"
  proof -
    have "bib_get_table L4PROTO_TCP (sample_bib refs) = Some (bib_tcp (sample_bib refs))" by (simp add: bib_get_table_def)
    moreover have "bib_nodes u = {}" if "proto' \<noteq> L4PROTO_TCP" "bib_get_table proto' (sample_bib refs) = Some u" for proto' u
      using that by (cases proto') (auto simp: sample_bib_def bib_get_table_def bib_nodes_def bibtable_init_def)
    ultimately show ?thesis by (auto simp: bib_live_split) (auto simp: sample_bib_def bib_nodes_def)
  qed
  ultimately show ?thesis by (simp add: bib_wf_def bib_db_ok_def sample_bib_def)
qed

text \<open>
  C11: adding a freshly created entry to a well-formed BIB never faults. It is rejected with EEXIST
  exactly when one of its two transport addresses is already bound for its protocol, leaving every
  binding as it was and the database well-formed once the entry is freed; otherwise exactly its
  binding is new, both lookups find the entry, and the database is well-formed.
\<close>

theorem bibdb_add_correct:
  assumes "rb_laws ops" "bib_wf s" "bib_alloc_ok alloc" "proto \<noteq> L4PROTO_OTHER"
    "bibentry_create alloc a4 a6 st proto (bibs s) = (Some p, h)"
  shows "\<exists>e s'. bibdb_add ops p (s\<lparr>bibs := h\<rparr>) = Some (e, s') \<and>
    (if \<exists>x y. (x, y) \<in> bib_bindings proto s \<and> (x = a6 \<or> y = a4)
     then e = Err EEXIST \<and>
       (\<exists>g. bibentry_kfree p (bibs s') = Some g \<and> g = bibs s \<and> bib_wf (s'\<lparr>bibs := g\<rparr>))
     else e = Ok \<and> bib_wf s' \<and> bib_bindings proto s' = insert (a6, a4) (bib_bindings proto s) \<and>
       (\<forall>proto'. proto' \<noteq> proto \<longrightarrow> bib_bindings proto' s' = bib_bindings proto' s) \<and>
       (\<exists>s6 s4. bibdb_get6 a6 proto s' = Some (Inr p, s6) \<and> bibdb_get4 a4 proto s' = Some (Inr p, s4)))"
proof -
  obtain b where p: "bibs s p = None" and h: "h = (bibs s)(p \<mapsto> b)"
    and b: "b_ipv4 b = a4" "b_ipv6 b = a6" "b_l4_proto b = proto" "b_refcounter b = 1"
    using assms(3,5) by (auto simp: bibentry_create_def bib_alloc_ok_def split: option.splits)
  have other: "b_l4_proto b \<noteq> L4PROTO_OTHER" using b assms(4) by simp
  show ?thesis
  proof (cases rule: bibdb_add_cases [OF assms(1,2) p b(4) other])
    case (1 q c s' b')
    have "\<exists>x y. (x, y) \<in> bib_bindings proto s \<and> (x = a6 \<or> y = a4)" (is ?dup)
      using 1(1-3) b unfolding bib_bindings_def ran_def by blast
    moreover have "bibentry_kfree p (bibs s') = Some (bibs s)"
      using 1(6) p by (simp add: bibentry_kfree_def fun_upd_idem)
    ultimately show ?thesis unfolding if_P [OF \<open>?dup\<close>] h by (intro exI conjI) (rule 1(4), simp, assumption, simp, rule 1(7))
  next
    case (2 s')
    have no: "\<not> (\<exists>x y. (x, y) \<in> bib_bindings proto s \<and> (x = a6 \<or> y = a4))"
      using 2(1) b unfolding bib_bindings_def ran_def by auto
    have "bib_bindings proto' s' =
        (if proto = proto' then insert (a6, a4) (bib_bindings proto' s) else bib_bindings proto' s)" for proto'
      using bib_bindings_upd [OF p 2(5), of proto'] b by simp
    moreover have p': "bibs s' p = Some (b\<lparr>b_tree6_hook := True, b_tree4_hook := True\<rparr>)" using 2(5) by simp
    have "\<exists>s6. bibdb_get6 a6 proto s' = Some (Inr p, s6)"
    proof (cases rule: bibdb_get6_cases [OF 2(4) assms(4), of a6])
      case (1 q c)
      then have "q = p" using bib_wf_unique6 [OF 2(4) 1(1) p'] b by simp
      then show ?thesis using 1(4) by simp
    next
      case 2
      then show ?thesis using p' b by force
    qed
    moreover have "\<exists>s4. bibdb_get4 a4 proto s' = Some (Inr p, s4)"
    proof (cases rule: bibdb_get4_cases [OF 2(4) assms(4), of a4])
      case (1 q c)
      then have "q = p" using bib_wf_unique4 [OF 2(4) 1(1) p'] b by simp
      then show ?thesis using 1(4) by simp
    next
      case 2
      then show ?thesis using p' b by force
    qed
    ultimately show ?thesis unfolding if_not_P [OF no] h by (intro exI [of _ Ok] exI [of _ s']) (simp add: 2(2,4))
  qed
qed

theorem bibdb_add_correct_witness:
  "rb_laws (plain_ops :: ptr rb_ops) \<and> (\<exists>h e s'.
     bibentry_create (sample_alloc 2) sample_ta4 \<lparr>ta6_l3 = 2, ta6_l4 = 7\<rparr> False L4PROTO_UDP (bibs (sample_bib 1)) = (Some 2, h) \<and>
     bibdb_add plain_ops 2 ((sample_bib 1)\<lparr>bibs := h\<rparr>) = Some (e, s') \<and> e = Ok)"
proof -
  obtain h where h: "bibentry_create (sample_alloc 2) sample_ta4 \<lparr>ta6_l3 = 2, ta6_l4 = 7\<rparr> False L4PROTO_UDP (bibs (sample_bib 1)) = (Some 2, h)"
    by (simp add: bibentry_create_def sample_alloc_def sample_bib_def)
  have "bib_bindings L4PROTO_UDP (sample_bib 1) = {}"
    by (auto simp: bib_bindings_def ran_def sample_bib_def split: if_splits)
  then show ?thesis
    using bibdb_add_correct [OF rb_laws_plain_ops sample_bib_wf sample_alloc_ok _ h] h rb_laws_plain_ops by auto
qed

text \<open>
  C12: returning a reference never faults. While other references remain only the count drops;
  the last one removes exactly this entry from both indexes of its table and from memory. In both
  cases the database stays well-formed.
\<close>

theorem bibdb_return_correct:
  assumes "rb_laws ops" "bib_wf s" "bibs s p = Some b"
  shows "\<exists>s'. bibdb_return ops (Some p) s = Some s' \<and> bib_wf s' \<and>
    bibs s' p = (if b_refcounter b = 1 then None else Some (b\<lparr>b_refcounter := b_refcounter b - 1\<rparr>)) \<and>
    (\<forall>q. q \<noteq> p \<longrightarrow> bibs s' q = bibs s q)"
  by (rule bibdb_return_cases [OF assms]) auto

theorem bibdb_return_correct_witness:
  "\<exists>s'. bibdb_return plain_ops (Some 1) (sample_bib 1) = Some s' \<and> bibs s' 1 = None"
  using bibdb_return_correct [OF rb_laws_plain_ops sample_bib_wf, of 1 1] by (auto simp: sample_bib_def)

text \<open>
  C13: deleting the transport addresses of a prefix and port range visits, although it stops at the
  first entry outside the prefix, exactly the entries inside the block: each static one of them
  loses its fake user and dies if that was its last reference, everything else is untouched.
\<close>

theorem bibdb_delete_taddr4s_correct:
  assumes "rb_laws ops" "bib_wf s" "prefix4_validate (Some prefix) = Inr ()"
  shows "\<exists>s'. bibdb_delete_taddr4s ops prefix ports s = Some s' \<and> bib_wf s' \<and>
    (\<forall>p. bibs s' p = (case bibs s p of
        None \<Rightarrow> None
      | Some b \<Rightarrow> if prefix4_contains prefix (ta4_l3 (b_ipv4 b)) \<and> port_range_contains ports (ta4_l4 (b_ipv4 b))
                then drop_fake_user b else Some b))"
proof -
  have "prefix4_wf prefix" using assms(3) by (simp add: prefix4_validate_Inr_iff)
  then show ?thesis
    using bibdb_delete_taddr4s_ok [OF assms(1,2)]
    by (fastforce simp: drop_fake_users_def in_block_def split: option.splits)
qed

theorem bibdb_delete_taddr4s_correct_witness:
  "\<exists>s'. bibdb_delete_taddr4s plain_ops \<lparr>p4_address = 0xC0000200, p4_len = 24\<rparr> \<lparr>pr_min = 1000, pr_max = 2000\<rparr>
       (sample_bib 1) = Some s' \<and> bibs s' 1 = None"
proof -
  have "prefix4_validate (Some \<lparr>p4_address = 0xC0000200, p4_len = 24\<rparr>) = Inr ()" by code_simp
  moreover have "prefix4_contains \<lparr>p4_address = 0xC0000200, p4_len = 24\<rparr> 0xC0000201" by code_simp
  ultimately show ?thesis
    using bibdb_delete_taddr4s_correct [OF rb_laws_plain_ops sample_bib_wf,
        of 1 "\<lparr>p4_address = 0xC0000200, p4_len = 24\<rparr>" "\<lparr>pr_min = 1000, pr_max = 2000\<rparr>"]
    by (auto simp: sample_bib_def sample_ta4_def drop_fake_user_def port_range_contains_def split: option.splits)
qed

text \<open>
  C34: \<^verbatim>\<open>bibdb_flush\<close> drops the fake user of an entry without recording that it is gone. A static
  entry with its fake user and one session (two references) survives the first flush, and the second
  flush frees it although the session still points to it.
\<close>

theorem bibdb_flush_twice:
  assumes "rb_laws ops" "bib_wf s" "bibs s p = Some b" "b_is_static b" "b_refcounter b = 2"
  shows "\<exists>s' s''. bibdb_flush ops s = Some s' \<and> bibs s' p = Some (b\<lparr>b_refcounter := 1\<rparr>) \<and>
    bibdb_flush ops s' = Some s'' \<and> bibs s'' p = None"
proof -
  obtain s' where 1: "bibdb_flush ops s = Some s'" "bib_wf s'" "bibs s' = drop_fake_users (\<lambda>p. True) (bibs s)"
    using bibdb_flush_ok [OF assms(1,2)] by blast
  obtain s'' where 2: "bibdb_flush ops s' = Some s''" "bibs s'' = drop_fake_users (\<lambda>p. True) (bibs s')"
    using bibdb_flush_ok [OF assms(1) 1(2)] by blast
  show ?thesis using 1 2 assms(3-5) by (simp add: drop_fake_users_def drop_fake_user_def)
qed

theorem bibdb_flush_twice_witness:
  "\<exists>s' s''. bibdb_flush plain_ops (sample_bib 2) = Some s' \<and> bibdb_flush plain_ops s' = Some s'' \<and> bibs s'' 1 = None"
proof -
  obtain b where "bibs (sample_bib 2) 1 = Some b" "b_is_static b" "b_refcounter b = 2"
    by (simp add: sample_bib_def)
  then show ?thesis using bibdb_flush_twice [OF rb_laws_plain_ops sample_bib_wf, of 2 1 b] by auto
qed

end
