(* ===== verification/Pool4_Table.thy ===== *)
theory Pool4_Table
  imports Addresses
begin

text \<open>
  One table of the IPv4 pool: the transport addresses reserved for one mark and protocol
  (\<^verbatim>\<open>mod/stateful/pool4/table.c\<close>, \<^verbatim>\<open>mod/stateful/pool4/entry.c\<close>).

  A table is a list of rows, a row an address with a list of port ranges; linked lists are HOL
  lists in list order. Allocations ask \<open>alloc\<close>, the outcome of the n-th \<^verbatim>\<open>kmalloc\<close> from some
  point on; the counter \<open>n\<close> is threaded through the operations.
\<close>

section \<open>Data\<close>

record pool4_addr =
  p4a_addr :: in_addr
  p4a_ports :: "port_range list"

record pool4_table =
  p4t_mark :: u32
  p4t_proto :: l4_protocol
  p4t_rows :: "pool4_addr list"

type_synonym alloc = "nat \<Rightarrow> bool"

definition pool4table_create :: "bool \<Rightarrow> u32 \<Rightarrow> l4_protocol \<Rightarrow> pool4_table option" where
  "pool4table_create kmalloc mark proto =
     (if kmalloc then Some \<lparr>p4t_mark = mark, p4t_proto = proto, p4t_rows = []\<rparr> else None)"

definition pool4_ports_create :: "bool \<Rightarrow> u16 \<Rightarrow> u16 \<Rightarrow> port_range option" where
  "pool4_ports_create kmalloc mn mx =
     (if kmalloc then Some \<lparr>pr_min = mn, pr_max = mx\<rparr> else None)"

section \<open>Adding\<close>

definition count_ports :: "pool4_table \<Rightarrow> u32" where
  "count_ports table =
     fold (\<lambda>addr. fold (\<lambda>ports result. result + port_range_count ports) (p4a_ports addr))
       (p4t_rows table) 0"

definition fuse :: "port_range \<Rightarrow> port_range \<Rightarrow> port_range" where
  "fuse first second =
     \<lparr>pr_min = min (pr_min first) (pr_min second), pr_max = max (pr_max first) (pr_max second)\<rparr>"

text \<open>The loop of \<^verbatim>\<open>try_fusion\<close>: the nodes that stay and the fused node, if any.\<close>

fun try_fusion_loop :: "port_range list \<Rightarrow> port_range \<Rightarrow> port_range option \<Rightarrow>
    port_range list \<times> port_range option" where
  "try_fusion_loop [] r fusion = ([], fusion)"
| "try_fusion_loop (ports # rest) r fusion =
     (if \<not> port_range_touches ports r
      then (case try_fusion_loop rest r fusion of (kept, f) \<Rightarrow> (ports # kept, f))
      else case fusion of
             Some f \<Rightarrow> try_fusion_loop rest r (Some (fuse ports f))
           | None \<Rightarrow> try_fusion_loop rest r (Some (fuse ports r)))"

definition try_fusion :: "port_range list \<Rightarrow> port_range \<Rightarrow> bool \<times> port_range list" where
  "try_fusion addr_ports r =
     (case try_fusion_loop addr_ports r None of
        (kept, Some fusion) \<Rightarrow> (True, kept @ [fusion])
      | (kept, None) \<Rightarrow> (False, kept))"

definition add_ports :: "alloc \<Rightarrow> port_range list \<Rightarrow> port_range \<Rightarrow> nat \<Rightarrow>
    status \<times> port_range list \<times> nat" where
  "add_ports alloc addr_ports r n =
     (case try_fusion addr_ports r of
        (True, fused) \<Rightarrow> (Ok, fused, n)
      | (False, same) \<Rightarrow> if alloc n then (Ok, same @ [r], Suc n) else (Err ENOMEM, same, Suc n))"

fun add_sample_rows :: "alloc \<Rightarrow> pool4_addr list \<Rightarrow> in_addr \<Rightarrow> port_range \<Rightarrow> nat \<Rightarrow>
    status \<times> pool4_addr list \<times> nat" where
  "add_sample_rows alloc [] a r n =
     (if \<not> alloc n then (Err ENOMEM, [], Suc n)
      else case add_ports alloc [] r (Suc n) of
             (error, ports, n') \<Rightarrow>
               if error \<noteq> Ok then (error, [], n')
               else (Ok, [\<lparr>p4a_addr = a, p4a_ports = ports\<rparr>], n'))"
| "add_sample_rows alloc (addr # rows) a r n =
     (if addr4_equals (Some (p4a_addr addr)) (Some a)
      then (case add_ports alloc (p4a_ports addr) r n of
              (error, ports, n') \<Rightarrow> (error, addr\<lparr>p4a_ports := ports\<rparr> # rows, n'))
      else (case add_sample_rows alloc rows a r n of
              (error, rows', n') \<Rightarrow> (error, addr # rows', n')))"

definition add_sample :: "alloc \<Rightarrow> pool4_table \<Rightarrow> in_addr \<Rightarrow> port_range \<Rightarrow> nat \<Rightarrow>
    status \<times> pool4_table \<times> nat" where
  "add_sample alloc table a r n =
     (if addr4_is_scope_subnet a then (Err EINVAL, table, n)
      else case add_sample_rows alloc (p4t_rows table) a r n of
             (error, rows, n') \<Rightarrow> (error, table\<lparr>p4t_rows := rows\<rparr>, n'))"

text \<open>\<^verbatim>\<open>UINT_MAX\<close> is \<^term>\<open>2 ^ 32 - 1\<close>; the sum is a 64-bit one.\<close>

definition validate_overflow :: "pool4_table \<Rightarrow> ipv4_prefix \<Rightarrow> port_range \<Rightarrow> status" where
  "validate_overflow table prefix ports =
     (let num_ports = prefix4_get_addr_count prefix * ucast (port_range_count ports)
      in if num_ports > 0xFFFFFFFF then Err E2BIG
         else let num_ports = num_ports + ucast (count_ports table)
              in if num_ports > 0xFFFFFFFF then Err E2BIG else Ok)"

fun add_prefix_loop :: "alloc \<Rightarrow> pool4_table \<Rightarrow> in_addr list \<Rightarrow> port_range \<Rightarrow> nat \<Rightarrow>
    status \<times> pool4_table \<times> nat" where
  "add_prefix_loop alloc table [] r n = (Ok, table, n)"
| "add_prefix_loop alloc table (a # addrs) r n =
     (case add_sample alloc table a r n of
        (error, table', n') \<Rightarrow>
          if error \<noteq> Ok then (error, table', n') else add_prefix_loop alloc table' addrs r n')"

definition clamp_range :: "l4_protocol \<Rightarrow> port_range \<Rightarrow> port_range" where
  "clamp_range proto ports =
     (let r = (if pr_min ports > pr_max ports
               then \<lparr>pr_min = pr_max ports, pr_max = pr_min ports\<rparr> else ports)
      in if (proto = L4PROTO_TCP \<or> proto = L4PROTO_UDP) \<and> pr_min r = 0
         then r\<lparr>pr_min := 1\<rparr> else r)"

definition pool4table_add :: "alloc \<Rightarrow> pool4_table \<Rightarrow> ipv4_prefix \<Rightarrow> port_range \<Rightarrow> nat \<Rightarrow>
    status \<times> pool4_table \<times> nat" where
  "pool4table_add alloc table prefix ports n =
     (let sample_range = clamp_range (p4t_proto table) ports;
          error = validate_overflow table prefix ports
      in if error \<noteq> Ok then (error, table, n)
         else add_prefix_loop alloc table (foreach_addr4 prefix) sample_range n)"

section \<open>Removing\<close>

text \<open>
  The loop of \<^verbatim>\<open>rm_range\<close> appends nodes to the tail of the list it walks. \<open>kept\<close> are the nodes
  behind the cursor, \<open>todo\<close> those from the cursor on. \<^verbatim>\<open>list_for_each_entry_safe\<close> fetches the
  next node before the body runs, so what the body appends while it is on the last node is not
  visited. Nothing forces the loop to end when \<^verbatim>\<open>rm->min > rm->max\<close>, hence the option.
\<close>

partial_function (option) rm_range_loop :: "alloc \<Rightarrow> port_range \<Rightarrow> port_range list \<Rightarrow>
    port_range list \<Rightarrow> nat \<Rightarrow> (status \<times> port_range list \<times> nat) option" where
  "rm_range_loop alloc rm kept todo n =
     (case todo of
        [] \<Rightarrow> Some (Ok, kept, n)
      | ports # rest \<Rightarrow>
          if pr_min rm \<le> pr_min ports \<and> pr_max ports \<le> pr_max rm then
            rm_range_loop alloc rm kept rest n
          else if pr_min ports < pr_min rm \<and> pr_max rm < pr_max ports then
            (case pool4_ports_create (alloc n) (pr_min ports) (pr_min rm - 1) of
               None \<Rightarrow> Some (Err ENOMEM, kept @ todo, Suc n)
             | Some new1 \<Rightarrow>
                 (case pool4_ports_create (alloc (Suc n)) (pr_max rm + 1) (pr_max ports) of
                    None \<Rightarrow> Some (Err ENOMEM, kept @ todo, Suc (Suc n))
                  | Some new2 \<Rightarrow>
                      if rest = [] then Some (Ok, kept @ [new1, new2], Suc (Suc n))
                      else rm_range_loop alloc rm kept (rest @ [new1, new2]) (Suc (Suc n))))
          else if pr_max rm < pr_min ports \<or> pr_min rm > pr_max ports then
            rm_range_loop alloc rm (kept @ [ports]) rest n
          else if pr_min ports < pr_min rm then
            (if rest = [] then Some (Ok, kept @ [ports\<lparr>pr_max := pr_min rm - 1\<rparr>], n)
             else rm_range_loop alloc rm kept (rest @ [ports\<lparr>pr_max := pr_min rm - 1\<rparr>]) n)
          else if pr_max rm < pr_max ports then
            (if rest = [] then Some (Ok, kept @ [ports\<lparr>pr_min := pr_max rm + 1\<rparr>], n)
             else rm_range_loop alloc rm kept (rest @ [ports\<lparr>pr_min := pr_max rm + 1\<rparr>]) n)
          else rm_range_loop alloc rm (kept @ [ports]) rest n)"

declare rm_range_loop.simps [code]

text \<open>The row is unlinked (\<open>None\<close>) when the last of its ranges goes.\<close>

definition rm_range :: "alloc \<Rightarrow> pool4_addr \<Rightarrow> port_range \<Rightarrow> nat \<Rightarrow>
    (status \<times> pool4_addr option \<times> nat) option" where
  "rm_range alloc addr rm n =
     do { (error, ports, n') \<leftarrow> rm_range_loop alloc rm [] (p4a_ports addr) n;
          Some (error,
                if ports = [] \<and> p4a_ports addr \<noteq> [] then None else Some (addr\<lparr>p4a_ports := ports\<rparr>),
                n') }"

fun rm_sample_rows :: "alloc \<Rightarrow> pool4_addr list \<Rightarrow> in_addr \<Rightarrow> port_range \<Rightarrow> nat \<Rightarrow>
    (status \<times> pool4_addr list \<times> nat) option" where
  "rm_sample_rows alloc [] a r n = Some (Ok, [], n)"
| "rm_sample_rows alloc (addr # rows) a r n =
     (if addr4_equals (Some (p4a_addr addr)) (Some a)
      then do { (error, addr', n') \<leftarrow> rm_range alloc addr r n;
                Some (error, (case addr' of None \<Rightarrow> rows | Some x \<Rightarrow> x # rows), n') }
      else do { (error, rows', n') \<leftarrow> rm_sample_rows alloc rows a r n;
                Some (error, addr # rows', n') })"

definition rm_sample :: "alloc \<Rightarrow> pool4_table \<Rightarrow> in_addr \<Rightarrow> port_range \<Rightarrow> nat \<Rightarrow>
    (status \<times> pool4_table \<times> nat) option" where
  "rm_sample alloc table a r n =
     do { (error, rows, n') \<leftarrow> rm_sample_rows alloc (p4t_rows table) a r n;
          Some (error, table\<lparr>p4t_rows := rows\<rparr>, n') }"

fun rm_prefix_loop :: "alloc \<Rightarrow> pool4_table \<Rightarrow> in_addr list \<Rightarrow> port_range \<Rightarrow> nat \<Rightarrow>
    (status \<times> pool4_table \<times> nat) option" where
  "rm_prefix_loop alloc table [] r n = Some (Ok, table, n)"
| "rm_prefix_loop alloc table (a # addrs) r n =
     do { (error, table', n') \<leftarrow> rm_sample alloc table a r n;
          (if error \<noteq> Ok then Some (error, table', n')
           else rm_prefix_loop alloc table' addrs r n') }"

definition pool4table_rm :: "alloc \<Rightarrow> pool4_table \<Rightarrow> ipv4_prefix \<Rightarrow> port_range \<Rightarrow> nat \<Rightarrow>
    (status \<times> pool4_table \<times> nat) option" where
  "pool4table_rm alloc table prefix ports n =
     rm_prefix_loop alloc table (foreach_addr4 prefix) ports n"

section \<open>Iterating\<close>

text \<open>
  The inner loop of \<^verbatim>\<open>pool4table_foreach_sample\<close>. The boolean says that the callback asked to
  return; otherwise the loop hands on \<^verbatim>\<open>error\<close> and \<^verbatim>\<open>offset\<close>.
\<close>

fun sample_ports_loop :: "(pool4_sample \<Rightarrow> 's \<Rightarrow> status \<times> 's) \<Rightarrow> (port_range \<Rightarrow> pool4_sample) \<Rightarrow>
    port_range list \<Rightarrow> pool4_sample option \<Rightarrow> status \<Rightarrow> 's \<Rightarrow>
    bool \<times> status \<times> pool4_sample option \<times> 's" where
  "sample_ports_loop func sample [] offset error arg = (False, error, offset, arg)"
| "sample_ports_loop func sample (ports # rest) offset error arg =
     (case offset of
        None \<Rightarrow> (case func (sample ports) arg of (error', arg') \<Rightarrow>
                   if error' \<noteq> Ok then (True, error', None, arg')
                   else sample_ports_loop func sample rest None error' arg')
      | Some o' \<Rightarrow>
          if port_range_equals (smp_range o') ports
          then sample_ports_loop func sample rest None Ok arg
          else sample_ports_loop func sample rest offset error arg)"

fun sample_rows_loop :: "(pool4_sample \<Rightarrow> 's \<Rightarrow> status \<times> 's) \<Rightarrow> u32 \<Rightarrow> l4_protocol \<Rightarrow>
    pool4_addr list \<Rightarrow> pool4_sample option \<Rightarrow> status \<Rightarrow> 's \<Rightarrow> status \<times> 's" where
  "sample_rows_loop func mark proto [] offset error arg = (error, arg)"
| "sample_rows_loop func mark proto (addr # rows) offset error arg =
     (if (case offset of None \<Rightarrow> False
          | Some o' \<Rightarrow> \<not> addr4_equals (Some (p4a_addr addr)) (Some (smp_addr o')))
      then sample_rows_loop func mark proto rows offset error arg
      else case sample_ports_loop func
                  (\<lambda>r. \<lparr>smp_mark = mark, smp_proto = proto, smp_addr = p4a_addr addr, smp_range = r\<rparr>)
                  (p4a_ports addr) offset error arg of
             (returned, error', offset', arg') \<Rightarrow>
               if returned then (error', arg')
               else sample_rows_loop func mark proto rows offset' error' arg')"

definition pool4table_foreach_sample :: "pool4_table \<Rightarrow> (pool4_sample \<Rightarrow> 's \<Rightarrow> status \<times> 's) \<Rightarrow>
    's \<Rightarrow> pool4_sample option \<Rightarrow> status \<times> 's" where
  "pool4table_foreach_sample table func arg offset =
     sample_rows_loop func (p4t_mark table) (p4t_proto table) (p4t_rows table) offset
       (if offset \<noteq> None then Err ESRCH else Ok) arg"

text \<open>
  \<^verbatim>\<open>pool4table_foreach_taddr4\<close> nests a loop over the ports in a loop over the ranges in a loop
  over the rows; the two outer ones run over \<open>table_ranges\<close>. The inner \<^verbatim>\<open>for\<close> is \<open>foreach_cb\<close> on
  the transport addresses \<^verbatim>\<open>min + i\<close>.
\<close>

definition table_ranges :: "pool4_table \<Rightarrow> (in_addr \<times> port_range) list" where
  "table_ranges table =
     concat (map (\<lambda>addr. map (Pair (p4a_addr addr)) (p4a_ports addr)) (p4t_rows table))"

definition range_taddrs :: "in_addr \<Rightarrow> port_range \<Rightarrow> nat \<Rightarrow> nat \<Rightarrow> ipv4_transport_addr list" where
  "range_taddrs a ports i j =
     map (\<lambda>k. \<lparr>ta4_l3 = a, ta4_l4 = pr_min ports + word_of_nat k\<rparr>) [i..<j]"

fun foreach_taddr4_first :: "(ipv4_transport_addr \<Rightarrow> 's \<Rightarrow> status \<times> 's) \<Rightarrow>
    (in_addr \<times> port_range) list \<Rightarrow> u32 \<Rightarrow> 's \<Rightarrow> status \<times> 's" where
  "foreach_taddr4_first func [] offset arg = (Ok, arg)"
| "foreach_taddr4_first func ((a, ports) # rest) offset arg =
     (let num_ports = port_range_count ports
      in if offset > num_ports then foreach_taddr4_first func rest (offset - num_ports) arg
         else case foreach_cb func (range_taddrs a ports (unat offset) (unat num_ports)) arg of
                (error, arg') \<Rightarrow>
                  if error \<noteq> Ok then (error, arg') else foreach_taddr4_first func rest 0 arg')"

fun foreach_taddr4_second :: "(ipv4_transport_addr \<Rightarrow> 's \<Rightarrow> status \<times> 's) \<Rightarrow>
    (in_addr \<times> port_range) list \<Rightarrow> u32 \<Rightarrow> 's \<Rightarrow> status \<times> 's" where
  "foreach_taddr4_second func [] offset arg = (Ok, arg)"
| "foreach_taddr4_second func ((a, ports) # rest) offset arg =
     (let num_ports = port_range_count ports
      in case foreach_cb func
                (range_taddrs a ports 0 (min (unat offset) (unat num_ports))) arg of
           (error, arg') \<Rightarrow>
             if error \<noteq> Ok then (error, arg')
             else if offset < num_ports then (Ok, arg')
             else foreach_taddr4_second func rest (offset - num_ports) arg')"

definition pool4table_foreach_taddr4 :: "pool4_table \<Rightarrow>
    (ipv4_transport_addr \<Rightarrow> 's \<Rightarrow> status \<times> 's) \<Rightarrow> 's \<Rightarrow> u32 \<Rightarrow> status \<times> 's" where
  "pool4table_foreach_taddr4 table func arg offset_main =
     (let num_ports = count_ports table
      in if num_ports = 0 then (Ok, arg)
         else let offset_main = offset_main mod num_ports
              in case foreach_taddr4_first func (table_ranges table) offset_main arg of
                   (error, arg') \<Rightarrow>
                     if error \<noteq> Ok then (error, arg')
                     else foreach_taddr4_second func (table_ranges table) offset_main arg')"

definition pool4table_contains :: "pool4_table \<Rightarrow> ipv4_transport_addr \<Rightarrow> bool" where
  "pool4table_contains table taddr =
     (\<exists>addr \<in> set (p4t_rows table).
        addr4_equals (Some (p4a_addr addr)) (Some (ta4_l3 taddr)) \<and>
        (\<exists>ports \<in> set (p4a_ports addr). port_range_contains ports (ta4_l4 taddr)))"

definition pool4table_is_empty :: "pool4_table \<Rightarrow> bool" where
  "pool4table_is_empty table = (p4t_rows table = [])"

definition pool4table_count :: "pool4_table \<Rightarrow> u64 \<times> u64 \<Rightarrow> u64 \<times> u64" where
  "pool4table_count table counters =
     fold (\<lambda>addr (samples, taddrs).
             (samples + 1,
              fold (\<lambda>ports taddrs. taddrs + ucast (port_range_count ports)) (p4a_ports addr) taddrs))
       (p4t_rows table) counters"

section \<open>Ranges as intervals\<close>

definition range_ok :: "port_range \<Rightarrow> bool" where
  "range_ok r \<longleftrightarrow> pr_min r \<le> pr_max r"

definition ports_of :: "port_range list \<Rightarrow> u16 set" where
  "ports_of rs = {p. \<exists>r \<in> set rs. port_range_contains r p}"

text \<open>Well-formed range lists: proper ranges that are pairwise neither overlapping nor adjacent.\<close>

definition ranges_wf :: "port_range list \<Rightarrow> bool" where
  "ranges_wf rs \<longleftrightarrow> list_all range_ok rs \<and> sorted_wrt (\<lambda>a b. \<not> port_range_touches a b) rs"

lemma touches_nat:
  "port_range_touches a b \<longleftrightarrow>
     unat (pr_min b) \<le> unat (pr_max a) + 1 \<and> unat (pr_min a) \<le> unat (pr_max b) + 1"
  by (auto simp: port_range_touches_def uint_nat simp del: of_nat_unat int_nat_eq)

lemma range_ok_nat: "range_ok r \<longleftrightarrow> unat (pr_min r) \<le> unat (pr_max r)"
  by (simp add: range_ok_def word_le_nat_alt)

lemma contains_nat:
  "port_range_contains r p \<longleftrightarrow> unat (pr_min r) \<le> unat p \<and> unat p \<le> unat (pr_max r)"
  by (simp add: port_range_contains_def word_le_nat_alt)

lemma fuse_nat [simp]:
  "unat (pr_min (fuse a b)) = min (unat (pr_min a)) (unat (pr_min b))"
  "unat (pr_max (fuse a b)) = max (unat (pr_max a)) (unat (pr_max b))"
  by (auto simp: fuse_def min_def max_def word_le_nat_alt)

lemmas range_nat = touches_nat range_ok_nat contains_nat

lemma touches_commute: "port_range_touches a b \<longleftrightarrow> port_range_touches b a"
  by (auto simp: touches_nat)

lemma fuse_ok: "range_ok a \<Longrightarrow> range_ok b \<Longrightarrow> range_ok (fuse a b)"
  by (auto simp: range_nat)

lemma fuse_contains:
  assumes "port_range_touches a b" "range_ok a" "range_ok b"
  shows "port_range_contains (fuse a b) p \<longleftrightarrow> port_range_contains a p \<or> port_range_contains b p"
  using assms by (auto simp: range_nat)

lemma fuse_not_touches:
  assumes "port_range_touches a b" "range_ok a" "range_ok b" "range_ok k"
    "\<not> port_range_touches k a" "\<not> port_range_touches k b"
  shows "\<not> port_range_touches k (fuse a b)"
  using assms by (auto simp: range_nat)

lemma fuse_touches: "port_range_touches a b \<Longrightarrow> port_range_touches a (fuse c b)"
  by (auto simp: touches_nat)

lemma ports_of_simps [simp]:
  "ports_of [] = {}" "ports_of (r # rs) = {p. port_range_contains r p} \<union> ports_of rs"
  "ports_of (rs @ qs) = ports_of rs \<union> ports_of qs"
  by (auto simp: ports_of_def)

text \<open>
  What the fusion loop computes: the ranges that do not touch \<open>r\<close> stay, the others are fused
  with \<open>r\<close>.
\<close>

lemma try_fusion_loop_eq:
  "try_fusion_loop rs r fusion =
     (filter (\<lambda>x. \<not> port_range_touches x r) rs,
      let xs = filter (\<lambda>x. port_range_touches x r) rs
      in if xs = [] then fusion else Some (fold fuse xs (case fusion of None \<Rightarrow> r | Some f \<Rightarrow> f)))"
  by (induction rs r fusion rule: try_fusion_loop.induct)
    (auto simp: Let_def split: option.splits)

lemma fold_fuse:
  assumes "\<forall>x \<in> set xs. range_ok x \<and> port_range_touches x r" "range_ok f"
    "\<And>x. port_range_touches x r \<Longrightarrow> port_range_touches x f"
  shows "range_ok (fold fuse xs f) \<and>
    (\<forall>p. port_range_contains (fold fuse xs f) p \<longleftrightarrow> port_range_contains f p \<or> p \<in> ports_of xs) \<and>
    (\<forall>k. range_ok k \<longrightarrow> \<not> port_range_touches k f \<longrightarrow> (\<forall>x \<in> set xs. \<not> port_range_touches k x) \<longrightarrow>
       \<not> port_range_touches k (fold fuse xs f))"
  using assms
proof (induction xs arbitrary: f)
  case (Cons x xs)
  have x: "range_ok x" "port_range_touches x f"
    using Cons.prems by auto
  have "range_ok (fold fuse xs (fuse x f)) \<and>
    (\<forall>p. port_range_contains (fold fuse xs (fuse x f)) p \<longleftrightarrow>
       port_range_contains (fuse x f) p \<or> p \<in> ports_of xs) \<and>
    (\<forall>k. range_ok k \<longrightarrow> \<not> port_range_touches k (fuse x f) \<longrightarrow>
       (\<forall>x \<in> set xs. \<not> port_range_touches k x) \<longrightarrow>
       \<not> port_range_touches k (fold fuse xs (fuse x f)))"
    using Cons.prems x by (intro Cons.IH) (auto intro: fuse_ok fuse_touches)
  then show ?case
    using fuse_contains [OF x(2,1) Cons.prems(2)] fuse_not_touches [OF x(2,1) Cons.prems(2)]
    by auto
qed (simp add: ports_of_def)

lemma ports_of_filter:
  "ports_of (filter P rs) \<union> ports_of (filter (\<lambda>x. \<not> P x) rs) = ports_of rs"
  by (auto simp: ports_of_def)

lemma ranges_wf_append:
  "ranges_wf (xs @ ys) \<longleftrightarrow> ranges_wf xs \<and> ranges_wf ys \<and>
     (\<forall>x \<in> set xs. \<forall>y \<in> set ys. \<not> port_range_touches x y)"
  by (auto simp: ranges_wf_def sorted_wrt_append)

lemma ranges_wf_filter: "ranges_wf rs \<Longrightarrow> ranges_wf (filter P rs)"
  by (auto simp: ranges_wf_def list_all_iff sorted_wrt_filter)

lemma ranges_wf_not_touches:
  "ranges_wf rs \<Longrightarrow> x \<in> set rs \<Longrightarrow> y \<in> set rs \<Longrightarrow> x \<noteq> y \<Longrightarrow> \<not> port_range_touches x y"
  by (induction rs) (auto simp: ranges_wf_def touches_commute)

lemma add_ports_spec:
  assumes "ranges_wf rs" "range_ok r" "add_ports alloc rs r n = (e, rs', n')"
  shows "ranges_wf rs' \<and> (e = Ok \<longrightarrow> rs' \<noteq> [] \<and> ports_of rs' = ports_of rs \<union> {p. port_range_contains r p}) \<and>
    (e \<noteq> Ok \<longrightarrow> rs' = rs)"
proof (cases "filter (\<lambda>x. port_range_touches x r) rs = []")
  case True
  then have "filter (\<lambda>x. \<not> port_range_touches x r) rs = rs" "\<forall>x \<in> set rs. \<not> port_range_touches x r"
    by (auto simp: filter_empty_conv intro: filter_True)
  then show ?thesis
    using assms True
    by (auto simp: add_ports_def try_fusion_def try_fusion_loop_eq ranges_wf_append
        ranges_wf_def [of "[_]"] split: if_splits)
next
  case False
  let ?xs = "filter (\<lambda>x. port_range_touches x r) rs"
  let ?ks = "filter (\<lambda>x. \<not> port_range_touches x r) rs"
  let ?f = "fold fuse ?xs r"
  have ok: "\<forall>x \<in> set rs. range_ok x" using assms(1) by (simp add: ranges_wf_def list_all_iff)
  have f: "range_ok ?f" "\<forall>p. port_range_contains ?f p \<longleftrightarrow> port_range_contains r p \<or> p \<in> ports_of ?xs"
    "\<forall>k. range_ok k \<longrightarrow> \<not> port_range_touches k r \<longrightarrow> (\<forall>x \<in> set ?xs. \<not> port_range_touches k x) \<longrightarrow>
       \<not> port_range_touches k ?f"
    using fold_fuse [of ?xs r r] ok assms(2) by auto
  have "\<not> port_range_touches k ?f" if "k \<in> set ?ks" for k
  proof -
    have "\<not> port_range_touches k x" if "x \<in> set ?xs" for x
      using ranges_wf_not_touches [OF assms(1), of k x] that \<open>k \<in> set ?ks\<close> by auto
    then show ?thesis using f(3) ok that by auto
  qed
  then have "ranges_wf (?ks @ [?f])"
    using ranges_wf_filter [OF assms(1)] f(1) by (simp add: ranges_wf_append ranges_wf_def [of "[_]"])
  moreover have "ports_of (?ks @ [?f]) = ports_of rs \<union> {p. port_range_contains r p}"
    using f(2) ports_of_filter [of "\<lambda>x. port_range_touches x r" rs] by auto
  moreover have "(e, rs', n') = (Ok, ?ks @ [?f], n)"
    using assms(3) False by (simp add: add_ports_def try_fusion_def try_fusion_loop_eq)
  ultimately show ?thesis by simp
qed

section \<open>Rows\<close>

definition rows_wf :: "pool4_addr list \<Rightarrow> bool" where
  "rows_wf rows \<longleftrightarrow> distinct (map p4a_addr rows) \<and>
     list_all (\<lambda>row. p4a_ports row \<noteq> [] \<and> ranges_wf (p4a_ports row)) rows"

definition rows_contain :: "pool4_addr list \<Rightarrow> ipv4_transport_addr \<Rightarrow> bool" where
  "rows_contain rows ta \<longleftrightarrow>
     (\<exists>row \<in> set rows. p4a_addr row = ta4_l3 ta \<and> ta4_l4 ta \<in> ports_of (p4a_ports row))"

lemma pool4table_contains_rows: "pool4table_contains table ta \<longleftrightarrow> rows_contain (p4t_rows table) ta"
  by (auto simp: pool4table_contains_def rows_contain_def ports_of_def)

lemma rows_wf_simps [simp]:
  "rows_wf []"
  "rows_wf (row # rows) \<longleftrightarrow> p4a_addr row \<notin> p4a_addr ` set rows \<and> p4a_ports row \<noteq> [] \<and>
     ranges_wf (p4a_ports row) \<and> rows_wf rows"
  by (auto simp: rows_wf_def)

lemma rows_contain_simps [simp]:
  "\<not> rows_contain [] ta"
  "rows_contain (row # rows) ta \<longleftrightarrow>
     p4a_addr row = ta4_l3 ta \<and> ta4_l4 ta \<in> ports_of (p4a_ports row) \<or> rows_contain rows ta"
  by (auto simp: rows_contain_def)

lemma ranges_wf_Nil [simp]: "ranges_wf []"
  by (simp add: ranges_wf_def)

lemma add_sample_rows_spec:
  assumes "rows_wf rows" "range_ok r" "add_sample_rows alloc rows a r n = (e, rows', n')"
  shows "rows_wf rows' \<and> p4a_addr ` set rows' \<subseteq> insert a (p4a_addr ` set rows) \<and>
    (e = Ok \<longrightarrow> (\<forall>ta. rows_contain rows' ta \<longleftrightarrow>
       rows_contain rows ta \<or> ta4_l3 ta = a \<and> port_range_contains r (ta4_l4 ta))) \<and>
    (e \<noteq> Ok \<longrightarrow> rows' = rows)"
  using assms
proof (induction rows arbitrary: rows')
  case Nil
  then show ?case
    using add_ports_spec [of "[]" r alloc "Suc n"]
    by (auto split: if_splits prod.splits)
next
  case (Cons row rows)
  show ?case
  proof (cases "p4a_addr row = a")
    case True
    obtain ps where ps: "add_ports alloc (p4a_ports row) r n = (e, ps, n')"
      "rows' = row\<lparr>p4a_ports := ps\<rparr> # rows"
      using Cons.prems(3) True by (auto split: prod.splits)
    have "ranges_wf (p4a_ports row)" using Cons.prems(1) by simp
    note spec = add_ports_spec [OF this Cons.prems(2) ps(1)]
    show ?thesis
    proof (cases "e = Ok")
      case True
      then show ?thesis using spec Cons.prems(1) ps(2) \<open>p4a_addr row = a\<close> by auto
    next
      case False
      then show ?thesis using spec Cons.prems(1) ps(2) by auto
    qed
  next
    case False
    then obtain rows'' where r: "add_sample_rows alloc rows a r n = (e, rows'', n')"
      "rows' = row # rows''"
      using Cons.prems(3) by (auto split: prod.splits)
    then show ?thesis
      using Cons.IH [OF _ Cons.prems(2) r(1)] Cons.prems(1) False by auto
  qed
qed

lemma add_prefix_loop_spec:
  assumes "rows_wf (p4t_rows table)" "range_ok r"
    "add_prefix_loop alloc table addrs r n = (e, table', n')"
  shows "rows_wf (p4t_rows table') \<and> p4t_mark table' = p4t_mark table \<and>
    p4t_proto table' = p4t_proto table \<and>
    (\<forall>ta. rows_contain (p4t_rows table) ta \<longrightarrow> rows_contain (p4t_rows table') ta) \<and>
    (\<forall>ta. rows_contain (p4t_rows table') ta \<longrightarrow>
       rows_contain (p4t_rows table) ta \<or> ta4_l3 ta \<in> set addrs \<and> port_range_contains r (ta4_l4 ta)) \<and>
    (e = Ok \<longrightarrow> (\<forall>ta. ta4_l3 ta \<in> set addrs \<longrightarrow> port_range_contains r (ta4_l4 ta) \<longrightarrow>
       rows_contain (p4t_rows table') ta))"
  using assms
proof (induction addrs arbitrary: table n)
  case (Cons a addrs)
  obtain e1 t1 n1 where s: "add_sample alloc table a r n = (e1, t1, n1)"
    by (metis prod_cases3)
  have t1: "rows_wf (p4t_rows t1)" "p4t_mark t1 = p4t_mark table" "p4t_proto t1 = p4t_proto table"
    "\<forall>ta. rows_contain (p4t_rows t1) ta \<longrightarrow>
       rows_contain (p4t_rows table) ta \<or> ta4_l3 ta = a \<and> port_range_contains r (ta4_l4 ta)"
    "\<forall>ta. rows_contain (p4t_rows table) ta \<longrightarrow> rows_contain (p4t_rows t1) ta"
    "e1 = Ok \<longrightarrow> (\<forall>ta. ta4_l3 ta = a \<longrightarrow> port_range_contains r (ta4_l4 ta) \<longrightarrow>
       rows_contain (p4t_rows t1) ta)"
    using s Cons.prems(1) add_sample_rows_spec [OF Cons.prems(1,2)]
    by (auto simp: add_sample_def split: if_splits prod.splits) metis+
  show ?case
  proof (cases "e1 = Ok")
    case True
    then have "add_prefix_loop alloc t1 addrs r n1 = (e, table', n')"
      using Cons.prems(3) s by simp
    from Cons.IH [OF t1(1) Cons.prems(2) this] show ?thesis using t1 True by auto
  next
    case False
    then show ?thesis using Cons.prems(3) s t1 by auto
  qed
qed auto

section \<open>The transport addresses of a table, in iteration order\<close>

definition ranges_taddrs :: "(in_addr \<times> port_range) list \<Rightarrow> ipv4_transport_addr list" where
  "ranges_taddrs rs = concat (map (\<lambda>(a, r). range_taddrs a r 0 (unat (port_range_count r))) rs)"

definition pool4_taddrs :: "pool4_table \<Rightarrow> ipv4_transport_addr list" where
  "pool4_taddrs table = ranges_taddrs (table_ranges table)"

lemma unat_port_range_count:
  assumes "range_ok r"
  shows "unat (port_range_count r) = Suc (unat (pr_max r)) - unat (pr_min r)"
proof -
  have "unat (ucast (pr_max r) - ucast (pr_min r) :: u32) = unat (pr_max r) - unat (pr_min r)"
    using assms by (subst unat_sub) (auto simp: range_ok_def word_le_nat_alt unat_ucast_up)
  moreover have "unat (pr_max r) - unat (pr_min r) + 1 < 2 ^ 32"
  proof -
    have "unat (pr_max r) < 65536" "(65536 :: nat) < 2 ^ 32" by simp_all
    then show ?thesis by linarith
  qed
  ultimately show ?thesis
    using assms by (simp add: port_range_count_def unat_word_ariths range_ok_nat)
qed

lemma set_range_taddrs:
  assumes "range_ok r"
  shows "set (range_taddrs a r 0 (unat (port_range_count r))) =
    {ta. ta4_l3 ta = a \<and> port_range_contains r (ta4_l4 ta)}" (is "?L = ?R")
proof (intro set_eqI iffI)
  fix ta assume "ta \<in> ?L"
  then obtain k where k: "ta = \<lparr>ta4_l3 = a, ta4_l4 = pr_min r + word_of_nat k\<rparr>"
    "k < Suc (unat (pr_max r)) - unat (pr_min r)"
    by (auto simp: range_taddrs_def unat_port_range_count [OF assms])
  have "unat (pr_min r) + k < 65536"
    using k(2) unat_u16_bound [of "pr_max r"] by linarith
  then have "unat (pr_min r + word_of_nat k) = unat (pr_min r) + k"
    by (simp add: unat_word_ariths unat_of_nat)
  then show "ta \<in> ?R" using k by (auto simp: contains_nat)
next
  fix ta assume "ta \<in> ?R"
  then have ta: "ta4_l3 ta = a" "unat (pr_min r) \<le> unat (ta4_l4 ta)" "unat (ta4_l4 ta) \<le> unat (pr_max r)"
    by (auto simp: contains_nat)
  let ?k = "unat (ta4_l4 ta) - unat (pr_min r)"
  have "pr_min r + word_of_nat ?k = ta4_l4 ta"
    using ta by (simp add: of_nat_diff)
  then have "ta = \<lparr>ta4_l3 = a, ta4_l4 = pr_min r + word_of_nat ?k\<rparr>"
    using ta(1) by simp
  moreover have "?k \<in> {0..<unat (port_range_count r)}"
    using ta by (auto simp: unat_port_range_count [OF assms])
  ultimately show "ta \<in> ?L"
    unfolding range_taddrs_def set_map set_upt by blast
qed

lemma distinct_range_taddrs:
  assumes "range_ok r"
  shows "distinct (range_taddrs a r 0 (unat (port_range_count r)))"
proof -
  have "inj_on (\<lambda>k. \<lparr>ta4_l3 = a, ta4_l4 = pr_min r + word_of_nat k\<rparr>) {0..<unat (port_range_count r)}"
  proof (rule inj_onI)
    fix x y assume *: "x \<in> {0..<unat (port_range_count r)}" "y \<in> {0..<unat (port_range_count r)}"
      "\<lparr>ta4_l3 = a, ta4_l4 = pr_min r + word_of_nat x\<rparr> = \<lparr>ta4_l3 = a, ta4_l4 = pr_min r + word_of_nat y\<rparr>"
    moreover have "unat (port_range_count r) \<le> 65536"
      using unat_u16_bound [of "pr_max r"] unfolding unat_port_range_count [OF assms] by linarith
    ultimately have "x < 2 ^ 16" "y < 2 ^ 16" by auto
    moreover have "(word_of_nat x :: u16) = word_of_nat y" using *(3) by simp
    ultimately show "x = y"
      using inj_onD [OF word_of_nat_inj_on [where 'a = 16], of x y] by simp
  qed
  then show ?thesis by (simp add: range_taddrs_def distinct_map)
qed

lemma length_range_taddrs [simp]: "length (range_taddrs a r i j) = j - i"
  by (simp add: range_taddrs_def)

lemma ranges_taddrs_simps [simp]:
  "ranges_taddrs [] = []"
  "ranges_taddrs ((a, r) # rs) = range_taddrs a r 0 (unat (port_range_count r)) @ ranges_taddrs rs"
  "ranges_taddrs (rs @ qs) = ranges_taddrs rs @ ranges_taddrs qs"
  by (auto simp: ranges_taddrs_def)

lemma set_ranges_taddrs:
  assumes "\<forall>x \<in> set rs. range_ok (snd x)"
  shows "set (ranges_taddrs rs) = {ta. \<exists>x \<in> set rs. ta4_l3 ta = fst x \<and> port_range_contains (snd x) (ta4_l4 ta)}"
  using assms by (induction rs) (auto simp: set_range_taddrs)

lemma distinct_row_taddrs:
  "ranges_wf rs \<Longrightarrow> distinct (ranges_taddrs (map (Pair a) rs))"
proof (induction rs)
  case (Cons r rs)
  have wf: "ranges_wf rs" "range_ok r" "\<forall>y \<in> set rs. range_ok y \<and> \<not> port_range_touches r y"
    using Cons.prems by (auto simp: ranges_wf_def list_all_iff)
  have "False" if ta: "ta \<in> set (range_taddrs a r 0 (unat (port_range_count r)))"
      "ta \<in> set (ranges_taddrs (map (Pair a) rs))" for ta
  proof -
    obtain y where "y \<in> set rs" "port_range_contains y (ta4_l4 ta)" "port_range_contains r (ta4_l4 ta)"
      using ta wf by (auto simp: set_range_taddrs set_ranges_taddrs)
    then show False using wf(3) by (auto simp: range_nat)
  qed
  then show ?case
    using Cons.IH wf by (auto simp: distinct_range_taddrs)
qed simp

lemma rows_ranges_ok:
  assumes "rows_wf rows"
  shows "\<forall>x \<in> set (concat (map (\<lambda>addr. map (Pair (p4a_addr addr)) (p4a_ports addr)) rows)). range_ok (snd x)"
  using assms by (induction rows) (auto simp: ranges_wf_def list_all_iff)

lemma set_pool4_taddrs:
  assumes "rows_wf (p4t_rows table)"
  shows "set (pool4_taddrs table) = {ta. pool4table_contains table ta}"
  using rows_ranges_ok [OF assms]
  by (auto simp: pool4_taddrs_def table_ranges_def set_ranges_taddrs pool4table_contains_def) metis

lemma distinct_pool4_taddrs:
  assumes "rows_wf (p4t_rows table)"
  shows "distinct (pool4_taddrs table)"
proof -
  have "distinct (ranges_taddrs (concat (map (\<lambda>addr. map (Pair (p4a_addr addr)) (p4a_ports addr)) rows)))"
    if "rows_wf rows" for rows
    using that
  proof (induction rows)
    case (Cons row rows)
    let ?rest = "concat (map (\<lambda>addr. map (Pair (p4a_addr addr)) (p4a_ports addr)) rows)"
    have "ta4_l3 ta \<in> p4a_addr ` set rows" if "ta \<in> set (ranges_taddrs ?rest)" for ta
      using that rows_ranges_ok [of rows] Cons.prems by (auto simp: set_ranges_taddrs)
    moreover have "ta4_l3 ta = p4a_addr row"
      if "ta \<in> set (ranges_taddrs (map (Pair (p4a_addr row)) (p4a_ports row)))" for ta
      using that Cons.prems by (auto simp: set_ranges_taddrs ranges_wf_def list_all_iff)
    ultimately show ?case
      using Cons distinct_row_taddrs [of "p4a_ports row" "p4a_addr row"] by fastforce
  qed simp
  then show ?thesis using assms by (simp add: pool4_taddrs_def table_ranges_def)
qed

lemma length_pool4_taddrs:
  assumes "rows_wf (p4t_rows table)"
  shows "length (pool4_taddrs table) = card {ta. pool4table_contains table ta}"
  using distinct_card [OF distinct_pool4_taddrs [OF assms]] set_pool4_taddrs [OF assms] by simp

lemma count_ports_eq: "count_ports table = word_of_nat (length (pool4_taddrs table))"
proof -
  have inner: "fold (\<lambda>ports result. result + port_range_count ports) rs c =
      c + word_of_nat (length (ranges_taddrs (map (Pair a) rs)))" for rs c a
    by (induction rs arbitrary: c) auto
  have "fold (\<lambda>addr. fold (\<lambda>ports result. result + port_range_count ports) (p4a_ports addr)) rows c =
      c + word_of_nat (length (ranges_taddrs
        (concat (map (\<lambda>addr. map (Pair (p4a_addr addr)) (p4a_ports addr)) rows))))" for rows c
    by (induction rows arbitrary: c) (auto simp: inner)
  from this [of "p4t_rows table" 0] show ?thesis
    unfolding count_ports_def pool4_taddrs_def table_ranges_def by simp
qed

section \<open>Iteration\<close>

lemma range_taddrs_drop: "drop k (range_taddrs a r 0 j) = range_taddrs a r k j"
  by (simp add: range_taddrs_def drop_map)

lemma range_taddrs_take: "take k (range_taddrs a r 0 j) = range_taddrs a r 0 (min k j)"
  by (simp add: range_taddrs_def take_map min_def)

lemma foreach_taddr4_first_eq:
  "foreach_taddr4_first func rs offset arg =
     foreach_cb func (drop (unat offset) (ranges_taddrs rs)) arg"
proof (induction func rs offset arg rule: foreach_taddr4_first.induct)
  case (2 func a ports rest offset arg)
  show ?case
  proof (cases "offset > port_range_count ports")
    case True
    then have "unat (offset - port_range_count ports) = unat offset - unat (port_range_count ports)"
      by (simp add: unat_sub order_less_imp_le)
    then show ?thesis
      using True 2 by (simp add: word_less_nat_alt)
  next
    case False
    then have "unat offset - unat (port_range_count ports) = 0"
      by (simp add: word_less_nat_alt)
    then show ?thesis
      using False 2 by (auto simp: foreach_cb_append range_taddrs_drop split: prod.splits)
  qed
qed simp

lemma foreach_taddr4_second_eq:
  "foreach_taddr4_second func rs offset arg =
     foreach_cb func (take (unat offset) (ranges_taddrs rs)) arg"
proof (induction func rs offset arg rule: foreach_taddr4_second.induct)
  case (2 func a ports rest offset arg)
  show ?case
  proof (cases "offset < port_range_count ports")
    case True
    then have "unat offset - unat (port_range_count ports) = 0"
      by (simp add: word_less_nat_alt)
    then show ?thesis
      using True by (auto simp: range_taddrs_take Let_def split: prod.splits)
  next
    case False
    then have "unat (offset - port_range_count ports) = unat offset - unat (port_range_count ports)"
      by (simp add: unat_sub)
    then show ?thesis
      using False 2
      by (auto simp: foreach_cb_append range_taddrs_take Let_def split: prod.splits)
  qed
qed simp

lemma pool4table_foreach_taddr4_rotate:
  assumes "length (pool4_taddrs table) < 2 ^ 32"
  shows "pool4table_foreach_taddr4 table func arg offset =
    foreach_cb func (rotate (unat offset) (pool4_taddrs table)) arg"
proof -
  have cnt: "unat (count_ports table) = length (pool4_taddrs table)"
    using assms by (simp add: count_ports_eq unat_of_nat)
  show ?thesis
  proof (cases "pool4_taddrs table = []")
    case True
    then show ?thesis by (simp add: pool4table_foreach_taddr4_def count_ports_eq)
  next
    case False
    then have "count_ports table \<noteq> 0"
      using cnt by (metis length_0_conv unat_0)
    then show ?thesis
      by (auto simp: pool4table_foreach_taddr4_def foreach_taddr4_first_eq foreach_taddr4_second_eq
          foreach_cb_append rotate_drop_take cnt unat_mod Let_def split: prod.splits
          simp flip: pool4_taddrs_def)
  qed
qed

section \<open>The table invariant\<close>

text \<open>
  Rows with distinct addresses, each with non-empty, proper, pairwise separate ranges, and fewer
  than \<^term>\<open>2 ^ 32 :: nat\<close> transport addresses in total, so that \<^verbatim>\<open>count_ports\<close> does not wrap.
\<close>

definition pool4table_inv :: "pool4_table \<Rightarrow> bool" where
  "pool4table_inv table \<longleftrightarrow> rows_wf (p4t_rows table) \<and> length (pool4_taddrs table) < 2 ^ 32"

lemma unat_count_ports: "pool4table_inv table \<Longrightarrow> unat (count_ports table) = length (pool4_taddrs table)"
  by (simp add: count_ports_eq unat_of_nat pool4table_inv_def)

lemma validate_overflow_bound:
  assumes "pool4table_inv table" "validate_overflow table prefix ports = Ok"
  shows "unat (prefix4_get_addr_count prefix) * unat (port_range_count ports) +
    length (pool4_taddrs table) < 2 ^ 32"
proof -
  let ?a = "prefix4_get_addr_count prefix" and ?p = "port_range_count ports"
  have "unat ?a \<le> 2 ^ 32" unfolding unat_prefix4_get_addr_count by (rule power_increasing) auto
  then have "unat ?a * unat ?p \<le> 2 ^ 32 * unat ?p"
    by (rule mult_le_mono1)
  also have "\<dots> < 2 ^ 64"
    using unat_u32_bound [of ?p] by (simp del: unat_u32_bound)
  finally have m: "unat (?a * ucast ?p) = unat ?a * unat ?p"
    by (simp add: unat_word_ariths unat_ucast_up)
  have "\<not> ?a * ucast ?p > 0xFFFFFFFF" and s: "\<not> ?a * ucast ?p + ucast (count_ports table) > 0xFFFFFFFF"
    using assms(2) by (auto simp: validate_overflow_def Let_def split: if_splits)
  then have "unat ?a * unat ?p < 2 ^ 32"
    by (simp add: word_less_nat_alt m not_less)
  moreover have "length (pool4_taddrs table) < 2 ^ 32"
    using assms(1) by (simp add: pool4table_inv_def)
  ultimately have "unat (?a * ucast ?p + ucast (count_ports table)) =
      unat ?a * unat ?p + length (pool4_taddrs table)"
    by (simp add: unat_word_ariths(1) m unat_ucast_up unat_count_ports [OF assms(1)])
  then show ?thesis using s by (simp add: word_less_nat_alt not_less)
qed

lemma card_ports_le:
  assumes "range_ok r"
  shows "card {p. port_range_contains r p} \<le> unat (port_range_count r)"
proof -
  have "{p. port_range_contains r p} = ta4_l4 ` set (range_taddrs 0 r 0 (unat (port_range_count r)))"
    unfolding set_range_taddrs [OF assms]
    by (auto intro: image_eqI [of _ _ "\<lparr>ta4_l3 = 0, ta4_l4 = p\<rparr>" for p])
  then have "card {p. port_range_contains r p} \<le>
      card (set (range_taddrs 0 r 0 (unat (port_range_count r))))"
    by (simp add: card_image_le)
  also have "\<dots> \<le> unat (port_range_count r)"
    using card_length [of "range_taddrs 0 r 0 (unat (port_range_count r))"] by simp
  finally show ?thesis .
qed

lemma card_block_le:
  assumes "range_ok r"
  shows "finite {ta :: ipv4_transport_addr. ta4_l3 ta \<in> set addrs \<and> port_range_contains r (ta4_l4 ta)}"
    and "card {ta :: ipv4_transport_addr. ta4_l3 ta \<in> set addrs \<and> port_range_contains r (ta4_l4 ta)} \<le>
      length addrs * unat (port_range_count r)"
proof -
  let ?S = "{ta :: ipv4_transport_addr. ta4_l3 ta \<in> set addrs \<and> port_range_contains r (ta4_l4 ta)}"
  let ?P = "set addrs \<times> {p. port_range_contains r p}"
  have S: "?S \<subseteq> (\<lambda>(a, p). \<lparr>ta4_l3 = a, ta4_l4 = p\<rparr>) ` ?P"
    by (auto intro!: image_eqI [of x _ "(ta4_l3 x, ta4_l4 x)" for x])
  have P: "finite ?P" by simp
  show "finite ?S" using S P by (meson finite_surj)
  have "card ?S \<le> card ?P"
    by (rule surj_card_le [OF P S])
  also have "\<dots> \<le> length addrs * unat (port_range_count r)"
    by (simp add: card_cartesian_product mult_le_mono card_length card_ports_le [OF assms])
  finally show "card ?S \<le> length addrs * unat (port_range_count r)" .
qed

lemma clamp_range_count:
  assumes "range_ok ports" "range_ok (clamp_range proto ports)"
  shows "unat (port_range_count (clamp_range proto ports)) \<le> unat (port_range_count ports)"
  unfolding unat_port_range_count [OF assms(1)] unat_port_range_count [OF assms(2)]
  using assms(1) by (auto simp: clamp_range_def Let_def range_ok_def)

lemma pool4table_add_spec:
  assumes inv: "pool4table_inv table" and ports: "range_ok ports"
    and clamp: "range_ok (clamp_range (p4t_proto table) ports)"
    and add: "pool4table_add alloc table prefix ports n = (e, table', n')"
  shows "pool4table_inv table'" "p4t_mark table' = p4t_mark table" "p4t_proto table' = p4t_proto table"
    "\<forall>ta. pool4table_contains table ta \<longrightarrow> pool4table_contains table' ta"
    "\<forall>ta. pool4table_contains table' ta \<longrightarrow> pool4table_contains table ta \<or>
       ta4_l3 ta \<in> set (foreach_addr4 prefix) \<and>
       port_range_contains (clamp_range (p4t_proto table) ports) (ta4_l4 ta)"
    "e = Ok \<Longrightarrow> \<forall>ta. ta4_l3 ta \<in> set (foreach_addr4 prefix) \<longrightarrow>
       port_range_contains (clamp_range (p4t_proto table) ports) (ta4_l4 ta) \<longrightarrow>
       pool4table_contains table' ta"
proof -
  let ?r = "clamp_range (p4t_proto table) ports" and ?as = "foreach_addr4 prefix"
  let ?new = "{ta :: ipv4_transport_addr. ta4_l3 ta \<in> set ?as \<and> port_range_contains ?r (ta4_l4 ta)}"
  have wf: "rows_wf (p4t_rows table)" using inv by (simp add: pool4table_inv_def)
  consider "validate_overflow table prefix ports \<noteq> Ok" "table' = table" "e \<noteq> Ok"
    | "validate_overflow table prefix ports = Ok" "add_prefix_loop alloc table ?as ?r n = (e, table', n')"
    using add by (auto simp: pool4table_add_def Let_def split: if_splits)
  then have "pool4table_inv table' \<and> p4t_mark table' = p4t_mark table \<and> p4t_proto table' = p4t_proto table \<and>
    (\<forall>ta. pool4table_contains table ta \<longrightarrow> pool4table_contains table' ta) \<and>
    (\<forall>ta. pool4table_contains table' ta \<longrightarrow> pool4table_contains table ta \<or> ta \<in> ?new) \<and>
    (e = Ok \<longrightarrow> (\<forall>ta. ta \<in> ?new \<longrightarrow> pool4table_contains table' ta))"
  proof cases
    case 1
    then show ?thesis using inv by simp
  next
    case 2
    note spec = add_prefix_loop_spec [OF wf clamp 2(2)]
    have "card {ta. pool4table_contains table' ta} \<le> card ({ta. pool4table_contains table ta} \<union> ?new)"
      using spec card_block_le(1) [OF clamp, of ?as] set_pool4_taddrs [OF wf, symmetric]
      by (intro card_mono) (auto simp: pool4table_contains_rows)
    also have "\<dots> \<le> card {ta. pool4table_contains table ta} + card ?new"
      by (rule card_Un_le)
    also have "\<dots> \<le> length (pool4_taddrs table) + length ?as * unat (port_range_count ?r)"
      using card_block_le(2) [OF clamp, of ?as] by (simp add: length_pool4_taddrs [OF wf])
    also have "\<dots> \<le> length (pool4_taddrs table) +
        unat (prefix4_get_addr_count prefix) * unat (port_range_count ports)"
      by (simp add: length_foreach_addr4 clamp_range_count [OF ports clamp])
    also have "\<dots> < 2 ^ 32"
      using validate_overflow_bound [OF inv 2(1)] by simp
    finally show ?thesis
      using spec by (auto simp: pool4table_inv_def pool4table_contains_rows length_pool4_taddrs)
  qed
  then show "pool4table_inv table'" "p4t_mark table' = p4t_mark table" "p4t_proto table' = p4t_proto table"
    "\<forall>ta. pool4table_contains table ta \<longrightarrow> pool4table_contains table' ta"
    "\<forall>ta. pool4table_contains table' ta \<longrightarrow> pool4table_contains table ta \<or>
       ta4_l3 ta \<in> set ?as \<and> port_range_contains ?r (ta4_l4 ta)"
    "e = Ok \<Longrightarrow> \<forall>ta. ta4_l3 ta \<in> set ?as \<longrightarrow> port_range_contains ?r (ta4_l4 ta) \<longrightarrow>
       pool4table_contains table' ta"
    by blast+
qed

section \<open>Removal\<close>

definition range_meets :: "port_range \<Rightarrow> port_range \<Rightarrow> bool" where
  "range_meets rm x \<longleftrightarrow> \<not> (pr_max rm < pr_min x \<or> pr_min rm > pr_max x)"

text \<open>What is left of a range when another one is removed from it.\<close>

definition range_cut :: "port_range \<Rightarrow> port_range \<Rightarrow> port_range list" where
  "range_cut rm x =
     (if pr_min x < pr_min rm then [x\<lparr>pr_max := pr_min rm - 1\<rparr>] else []) @
     (if pr_max rm < pr_max x then [x\<lparr>pr_min := pr_max rm + 1\<rparr>] else [])"

lemma unat_dec: "(x :: u16) < y \<Longrightarrow> unat (y - 1) = unat y - 1"
proof -
  assume "x < y"
  then have "(1 :: u16) \<le> y" by (simp add: word_le_nat_alt word_less_nat_alt)
  then show ?thesis by (simp add: unat_sub)
qed

lemma range_meets_nat:
  "range_meets rm x \<longleftrightarrow> unat (pr_min x) \<le> unat (pr_max rm) \<and> unat (pr_min rm) \<le> unat (pr_max x)"
  by (auto simp: range_meets_def word_less_nat_alt)

lemma range_cut_cases:
  obtains (none) "range_cut rm x = []" "unat (pr_min rm) \<le> unat (pr_min x)"
      "unat (pr_max x) \<le> unat (pr_max rm)"
    | (left) l where "range_cut rm x = [l]" "unat (pr_min l) = unat (pr_min x)"
      "Suc (unat (pr_max l)) = unat (pr_min rm)" "unat (pr_min x) < unat (pr_min rm)"
      "unat (pr_max x) \<le> unat (pr_max rm)"
    | (right) r where "range_cut rm x = [r]" "unat (pr_min r) = Suc (unat (pr_max rm))"
      "unat (pr_max r) = unat (pr_max x)" "unat (pr_min rm) \<le> unat (pr_min x)"
      "unat (pr_max rm) < unat (pr_max x)"
    | (hole) l r where "range_cut rm x = [l, r]" "unat (pr_min l) = unat (pr_min x)"
      "Suc (unat (pr_max l)) = unat (pr_min rm)" "unat (pr_min r) = Suc (unat (pr_max rm))"
      "unat (pr_max r) = unat (pr_max x)" "unat (pr_min x) < unat (pr_min rm)"
      "unat (pr_max rm) < unat (pr_max x)"
proof -
  let ?l = "x\<lparr>pr_max := pr_min rm - 1\<rparr>" and ?r = "x\<lparr>pr_min := pr_max rm + 1\<rparr>"
  have l: "Suc (unat (pr_max ?l)) = unat (pr_min rm)" if "pr_min x < pr_min rm"
    using unat_dec [OF that] that by (simp add: word_less_nat_alt)
  have r: "unat (pr_min ?r) = Suc (unat (pr_max rm))" if "pr_max rm < pr_max x"
    using unat_inc [OF that] by simp
  show thesis
    by (cases "pr_min x < pr_min rm"; cases "pr_max rm < pr_max x")
      (use l r none left [of ?l] right [of ?r] hole [of ?l ?r] in
        \<open>simp_all add: range_cut_def word_less_nat_alt not_less\<close>)
qed

lemma range_cut_wf:
  assumes "range_ok rm" "range_ok x" "range_meets rm x"
  shows "ranges_wf (range_cut rm x)"
  by (cases rule: range_cut_cases [of rm x])
    (use assms in \<open>auto simp: ranges_wf_def range_nat range_meets_nat\<close>)

lemma range_cut_within:
  assumes "range_ok rm" "range_ok x" "range_meets rm x" "y \<in> set (range_cut rm x)"
  shows "unat (pr_min x) \<le> unat (pr_min y) \<and> unat (pr_max y) \<le> unat (pr_max x) \<and> \<not> range_meets rm y"
  by (cases rule: range_cut_cases [of rm x])
    (use assms in \<open>auto simp: range_nat range_meets_nat\<close>)

lemma range_cut_ports:
  assumes "range_ok rm" "range_ok x" "range_meets rm x"
  shows "ports_of (range_cut rm x) = {p. port_range_contains x p} - {p. port_range_contains rm p}"
  by (cases rule: range_cut_cases [of rm x])
    (use assms in \<open>auto simp: range_nat range_meets_nat\<close>)

lemma ranges_wf_cut:
  assumes "ranges_wf (kept @ x # rest)" "ranges_wf ys"
    "\<forall>y \<in> set ys. unat (pr_min x) \<le> unat (pr_min y) \<and> unat (pr_max y) \<le> unat (pr_max x)"
  shows "ranges_wf (kept @ rest @ ys)"
proof -
  have wf: "ranges_wf kept" "ranges_wf rest" "\<forall>k \<in> set kept. \<forall>z \<in> set rest. \<not> port_range_touches k z"
    "\<forall>k \<in> set kept \<union> set rest. \<not> port_range_touches k x"
    using assms(1)
    by (auto simp: ranges_wf_append ranges_wf_def [of "x # rest"] ranges_wf_def [of rest] touches_commute)
  have "\<forall>k \<in> set kept \<union> set rest. \<forall>y \<in> set ys. \<not> port_range_touches k y"
  proof (intro ballI)
    fix k y assume "k \<in> set kept \<union> set rest" "y \<in> set ys"
    then have "\<not> port_range_touches k x" "unat (pr_min x) \<le> unat (pr_min y)"
      "unat (pr_max y) \<le> unat (pr_max x)"
      using wf(4) assms(3) by blast+
    then show "\<not> port_range_touches k y" by (auto simp: touches_nat)
  qed
  then show ?thesis using wf assms(2) by (auto simp: ranges_wf_append)
qed

lemma rm_range_loop_Nil: "rm_range_loop alloc rm kept [] n = Some (Ok, kept, n)"
  by (simp add: rm_range_loop.simps)

lemmas rm_range_loop_Cons = rm_range_loop.simps [of _ _ _ "_ # _", simplified list.case]

text \<open>One iteration on a node that meets the removed range, resp. on one that does not.\<close>

lemma rm_range_loop_meets:
  assumes "range_ok rm" "range_ok x" "range_meets rm x"
  shows "(\<exists>n'. rm_range_loop alloc rm kept (x # rest) n = Some (Err ENOMEM, kept @ x # rest, n')) \<or>
    (\<exists>n'. rm_range_loop alloc rm kept (x # rest) n =
       (if rest = [] then Some (Ok, kept @ range_cut rm x, n')
        else rm_range_loop alloc rm kept (rest @ range_cut rm x) n'))"
proof -
  consider (all) "pr_min rm \<le> pr_min x" "pr_max x \<le> pr_max rm"
    | (hole) "pr_min x < pr_min rm" "pr_max rm < pr_max x"
    | (left) "pr_min x < pr_min rm" "\<not> pr_max rm < pr_max x"
    | (right) "\<not> pr_min x < pr_min rm" "pr_max rm < pr_max x"
    by fastforce
  then show ?thesis
  proof cases
    case all
    then show ?thesis
      by (cases "rest = []")
        (auto simp: rm_range_loop_Cons range_cut_def not_less
          rm_range_loop_Nil)
  next
    case hole
    then show ?thesis
      by (cases x)
        (auto simp: rm_range_loop_Cons range_cut_def not_less
          pool4_ports_create_def)
  next
    case left
    then show ?thesis
      using assms(3)
      by (auto simp: rm_range_loop_Cons range_cut_def
          range_meets_def)
  next
    case right
    then show ?thesis
      using assms(3)
      by (auto simp: rm_range_loop_Cons range_cut_def
          range_meets_def)
  qed
qed

lemma rm_range_loop_apart:
  assumes "range_ok rm" "range_ok x" "\<not> range_meets rm x"
  shows "rm_range_loop alloc rm kept (x # rest) n = rm_range_loop alloc rm (kept @ [x]) rest n"
  using assms
  by (auto simp: rm_range_loop_Cons range_meets_def range_ok_def)

lemma rm_range_loop_spec:
  assumes "range_ok rm" "ranges_wf (kept @ todo)" "ports_of kept \<inter> {p. port_range_contains rm p} = {}"
  shows "\<exists>e rs n'. rm_range_loop alloc rm kept todo n = Some (e, rs, n') \<and> ranges_wf rs \<and>
    ports_of rs \<subseteq> ports_of (kept @ todo) \<and>
    ports_of (kept @ todo) - {p. port_range_contains rm p} \<subseteq> ports_of rs \<and>
    (e = Ok \<longrightarrow> ports_of rs \<inter> {p. port_range_contains rm p} = {}) \<and> (e \<noteq> Ok \<longrightarrow> rs \<noteq> [])"
  using assms(2,3)
proof (induction todo arbitrary: kept n
    rule: measure_induct_rule [where f = "\<lambda>t. sum_list (map (\<lambda>x. if range_meets rm x then 3 else 1 :: nat) t)"])
  case (less todo)
  show ?case
  proof (cases todo)
    case Nil
    then show ?thesis using less.prems by (auto simp: rm_range_loop_Nil)
  next
    case (Cons x rest)
    have ok: "range_ok x" using less.prems(1) Cons by (simp add: ranges_wf_def)
    show ?thesis
    proof (cases "range_meets rm x")
      case True
      note cut = range_cut_within [OF assms(1) ok True] range_cut_ports [OF assms(1) ok True]
      have wf: "ranges_wf (kept @ rest @ range_cut rm x)"
        using less.prems(1) cut(1) range_cut_wf [OF assms(1) ok True] ranges_wf_cut
        unfolding Cons by blast
      have lt: "sum_list (map (\<lambda>x. if range_meets rm x then 3 else 1) (rest @ range_cut rm x)) <
          sum_list (map (\<lambda>x. if range_meets rm x then 3 else 1 :: nat) todo)"
        using cut(1) True unfolding Cons by (auto simp: range_cut_def)
      note IH = less.IH [OF lt wf less.prems(2)]
      from rm_range_loop_meets [OF assms(1) ok True, of alloc kept rest n]
      show ?thesis
      proof (elim disjE exE)
        fix n' assume "rm_range_loop alloc rm kept (x # rest) n = Some (Err ENOMEM, kept @ x # rest, n')"
        then show ?thesis using less.prems Cons by auto
      next
        fix n' assume *: "rm_range_loop alloc rm kept (x # rest) n =
          (if rest = [] then Some (Ok, kept @ range_cut rm x, n')
           else rm_range_loop alloc rm kept (rest @ range_cut rm x) n')"
        show ?thesis
        proof (cases "rest = []")
          case True
          then show ?thesis using * wf cut(2) less.prems(2) Cons by auto
        next
          case False
          then show ?thesis using * IH [of n'] cut(2) Cons by fastforce
        qed
      qed
    next
      case False
      have "sum_list (map (\<lambda>x. if range_meets rm x then 3 else 1) rest) <
          sum_list (map (\<lambda>x. if range_meets rm x then 3 else 1 :: nat) todo)"
        unfolding Cons by simp
      moreover have "ports_of (kept @ [x]) \<inter> {p. port_range_contains rm p} = {}"
        using less.prems(2) False by (auto simp: range_meets_nat contains_nat)
      ultimately show ?thesis
        using less.IH [of rest "kept @ [x]" n] less.prems(1) False
        unfolding Cons rm_range_loop_apart [OF assms(1) ok False] by simp
    qed
  qed
qed

lemma rm_sample_rows_spec:
  assumes "range_ok rm" "rows_wf rows"
  shows "\<exists>e rows' n'. rm_sample_rows alloc rows a rm n = Some (e, rows', n') \<and> rows_wf rows' \<and>
    p4a_addr ` set rows' \<subseteq> p4a_addr ` set rows \<and>
    (\<forall>ta. rows_contain rows' ta \<longrightarrow> rows_contain rows ta) \<and>
    (\<forall>ta. rows_contain rows ta \<longrightarrow>
       rows_contain rows' ta \<or> ta4_l3 ta = a \<and> port_range_contains rm (ta4_l4 ta)) \<and>
    (e = Ok \<longrightarrow> (\<forall>ta. rows_contain rows' ta \<longrightarrow>
       \<not> (ta4_l3 ta = a \<and> port_range_contains rm (ta4_l4 ta)))) \<and> (e \<noteq> Ok \<longrightarrow> rows' \<noteq> [])"
  using assms(2)
proof (induction rows)
  case (Cons row rows)
  show ?case
  proof (cases "p4a_addr row = a")
    case True
    have wf: "ranges_wf (p4a_ports row)" "p4a_ports row \<noteq> []" using Cons.prems by auto
    obtain e rs n' where rs: "rm_range_loop alloc rm [] (p4a_ports row) n = Some (e, rs, n')"
      "ranges_wf rs" "ports_of rs \<subseteq> ports_of (p4a_ports row)"
      "ports_of (p4a_ports row) - {p. port_range_contains rm p} \<subseteq> ports_of rs"
      "e = Ok \<longrightarrow> ports_of rs \<inter> {p. port_range_contains rm p} = {}" "e \<noteq> Ok \<longrightarrow> rs \<noteq> []"
      using rm_range_loop_spec [OF assms(1), of "[]" "p4a_ports row" alloc n] wf by auto
    have other: "\<not> rows_contain rows ta" if "ta4_l3 ta = a" for ta
      using Cons.prems True that by (auto simp: rows_contain_def image_iff)
    show ?thesis
    proof (cases "rs = []")
      case True
      then show ?thesis
        using rs wf Cons.prems \<open>p4a_addr row = a\<close> other
        by (auto simp: rm_range_def)
    next
      case False
      then show ?thesis
        using rs wf Cons.prems \<open>p4a_addr row = a\<close> other
        by (auto simp: rm_range_def)
    qed
  next
    case False
    from Cons.IH Cons.prems obtain e rows' n' where
      "rm_sample_rows alloc rows a rm n = Some (e, rows', n')" "rows_wf rows'"
      "p4a_addr ` set rows' \<subseteq> p4a_addr ` set rows"
      "\<forall>ta. rows_contain rows' ta \<longrightarrow> rows_contain rows ta"
      "\<forall>ta. rows_contain rows ta \<longrightarrow>
         rows_contain rows' ta \<or> ta4_l3 ta = a \<and> port_range_contains rm (ta4_l4 ta)"
      "e = Ok \<longrightarrow> (\<forall>ta. rows_contain rows' ta \<longrightarrow>
         \<not> (ta4_l3 ta = a \<and> port_range_contains rm (ta4_l4 ta)))" "e \<noteq> Ok \<longrightarrow> rows' \<noteq> []"
      by auto
    then show ?thesis using False Cons.prems by auto
  qed
qed simp

lemma rm_prefix_loop_spec:
  assumes "range_ok rm" "rows_wf (p4t_rows table)"
  shows "\<exists>e table' n'. rm_prefix_loop alloc table addrs rm n = Some (e, table', n') \<and>
    rows_wf (p4t_rows table') \<and> p4t_mark table' = p4t_mark table \<and> p4t_proto table' = p4t_proto table \<and>
    (\<forall>ta. rows_contain (p4t_rows table') ta \<longrightarrow> rows_contain (p4t_rows table) ta) \<and>
    (\<forall>ta. rows_contain (p4t_rows table) ta \<longrightarrow> rows_contain (p4t_rows table') ta \<or>
       ta4_l3 ta \<in> set addrs \<and> port_range_contains rm (ta4_l4 ta)) \<and>
    (e = Ok \<longrightarrow> (\<forall>ta. rows_contain (p4t_rows table') ta \<longrightarrow>
       \<not> (ta4_l3 ta \<in> set addrs \<and> port_range_contains rm (ta4_l4 ta)))) \<and>
    (e \<noteq> Ok \<longrightarrow> p4t_rows table' \<noteq> [])"
  using assms(2)
proof (induction addrs arbitrary: table n)
  case (Cons a addrs)
  obtain e1 rows1 n1 where 1: "rm_sample_rows alloc (p4t_rows table) a rm n = Some (e1, rows1, n1)"
    "rows_wf rows1" "\<forall>ta. rows_contain rows1 ta \<longrightarrow> rows_contain (p4t_rows table) ta"
    "\<forall>ta. rows_contain (p4t_rows table) ta \<longrightarrow>
       rows_contain rows1 ta \<or> ta4_l3 ta = a \<and> port_range_contains rm (ta4_l4 ta)"
    "e1 = Ok \<longrightarrow> (\<forall>ta. rows_contain rows1 ta \<longrightarrow>
       \<not> (ta4_l3 ta = a \<and> port_range_contains rm (ta4_l4 ta)))" "e1 \<noteq> Ok \<longrightarrow> rows1 \<noteq> []"
    using rm_sample_rows_spec [OF assms(1) Cons.prems, of alloc a n] by blast
  let ?t = "table\<lparr>p4t_rows := rows1\<rparr>"
  show ?case
  proof (cases "e1 = Ok")
    case True
    have "rows_wf (p4t_rows ?t)" using 1(2) by simp
    from Cons.IH [OF this, of n1] obtain e table' n' where
      "rm_prefix_loop alloc ?t addrs rm n1 = Some (e, table', n')"
      "rows_wf (p4t_rows table')" "p4t_mark table' = p4t_mark ?t" "p4t_proto table' = p4t_proto ?t"
      "\<forall>ta. rows_contain (p4t_rows table') ta \<longrightarrow> rows_contain rows1 ta"
      "\<forall>ta. rows_contain rows1 ta \<longrightarrow> rows_contain (p4t_rows table') ta \<or>
         ta4_l3 ta \<in> set addrs \<and> port_range_contains rm (ta4_l4 ta)"
      "e = Ok \<longrightarrow> (\<forall>ta. rows_contain (p4t_rows table') ta \<longrightarrow>
         \<not> (ta4_l3 ta \<in> set addrs \<and> port_range_contains rm (ta4_l4 ta)))"
      "e \<noteq> Ok \<longrightarrow> p4t_rows table' \<noteq> []"
      by auto
    moreover from this have "rm_prefix_loop alloc table (a # addrs) rm n = Some (e, table', n')"
      using True 1(1) by (simp add: rm_sample_def)
    ultimately show ?thesis using 1 True by (intro exI [of _ e] exI [of _ table'] exI [of _ n']) auto
  next
    case False
    then have "rm_prefix_loop alloc table (a # addrs) rm n = Some (e1, ?t, n1)"
      using 1(1) by (simp add: rm_sample_def)
    then show ?thesis using 1 False by auto
  qed
qed simp

lemma pool4table_inv_subset:
  assumes "pool4table_inv table" "rows_wf (p4t_rows table')"
    "\<forall>ta. pool4table_contains table' ta \<longrightarrow> pool4table_contains table ta"
  shows "pool4table_inv table'"
proof -
  have wf: "rows_wf (p4t_rows table)" using assms(1) by (simp add: pool4table_inv_def)
  have "card {ta. pool4table_contains table' ta} \<le> card {ta. pool4table_contains table ta}"
    using assms(3) set_pool4_taddrs [OF wf, symmetric] by (intro card_mono) auto
  then show ?thesis
    using assms(1,2) by (simp add: pool4table_inv_def length_pool4_taddrs wf)
qed

lemma pool4table_rm_spec:
  assumes "pool4table_inv table" "range_ok ports"
  shows "\<exists>e table' n'. pool4table_rm alloc table prefix ports n = Some (e, table', n') \<and>
    pool4table_inv table' \<and> p4t_mark table' = p4t_mark table \<and> p4t_proto table' = p4t_proto table \<and>
    (\<forall>ta. pool4table_contains table' ta \<longrightarrow> pool4table_contains table ta) \<and>
    (\<forall>ta. pool4table_contains table ta \<longrightarrow> pool4table_contains table' ta \<or>
       ta4_l3 ta \<in> set (foreach_addr4 prefix) \<and> port_range_contains ports (ta4_l4 ta)) \<and>
    (e = Ok \<longrightarrow> (\<forall>ta. pool4table_contains table' ta \<longrightarrow>
       \<not> (ta4_l3 ta \<in> set (foreach_addr4 prefix) \<and> port_range_contains ports (ta4_l4 ta)))) \<and>
    (e \<noteq> Ok \<longrightarrow> \<not> pool4table_is_empty table')"
proof -
  have wf: "rows_wf (p4t_rows table)" using assms(1) by (simp add: pool4table_inv_def)
  from rm_prefix_loop_spec [OF assms(2) wf, of alloc "foreach_addr4 prefix" n] show ?thesis
    unfolding pool4table_rm_def pool4table_contains_rows [symmetric] pool4table_is_empty_def
    using pool4table_inv_subset [OF assms(1)] by blast
qed

lemma pool4table_is_empty_iff:
  assumes "pool4table_inv table"
  shows "pool4table_is_empty table \<longleftrightarrow> pool4_taddrs table = []"
proof (cases "p4t_rows table")
  case Nil
  then show ?thesis by (simp add: pool4table_is_empty_def pool4_taddrs_def table_ranges_def)
next
  case (Cons row rows)
  then obtain r rs where r: "p4a_ports row = r # rs" "range_ok r"
    using assms by (cases "p4a_ports row") (auto simp: pool4table_inv_def ranges_wf_def)
  then have "pool4table_contains table \<lparr>ta4_l3 = p4a_addr row, ta4_l4 = pr_min r\<rparr>"
    using Cons by (simp add: pool4table_contains_def port_range_contains_def range_ok_def)
  then have "pool4_taddrs table \<noteq> []"
    using assms set_pool4_taddrs [of table] by (auto simp: pool4table_inv_def)
  then show ?thesis using Cons by (simp add: pool4table_is_empty_def)
qed

section \<open>Listing samples\<close>

definition sample_of :: "pool4_table \<Rightarrow> in_addr \<times> port_range \<Rightarrow> pool4_sample" where
  "sample_of table x = \<lparr>smp_mark = p4t_mark table, smp_proto = p4t_proto table,
     smp_addr = fst x, smp_range = snd x\<rparr>"

definition row_ranges :: "pool4_addr list \<Rightarrow> (in_addr \<times> port_range) list" where
  "row_ranges rows = concat (map (\<lambda>addr. map (Pair (p4a_addr addr)) (p4a_ports addr)) rows)"

lemma row_ranges_simps [simp]:
  "row_ranges [] = []"
  "row_ranges (row # rows) = map (Pair (p4a_addr row)) (p4a_ports row) @ row_ranges rows"
  by (simp_all add: row_ranges_def)

lemma sample_ports_loop_None:
  "sample_ports_loop func mk ps None Ok arg =
     (case foreach_cb func (map mk ps) arg of (r, s) \<Rightarrow> (r \<noteq> Ok, r, None, s))"
  by (induction ps arbitrary: arg) (auto split: prod.splits)

lemma sample_ports_loop_Some:
  "sample_ports_loop func mk ps (Some os) e arg =
     (if smp_range os \<in> set ps
      then sample_ports_loop func mk (tl (dropWhile (\<lambda>r. r \<noteq> smp_range os) ps)) None Ok arg
      else (False, e, Some os, arg))"
  by (induction ps) auto

lemma sample_rows_loop_None:
  "sample_rows_loop func mark proto rows None Ok arg =
     foreach_cb func (map (\<lambda>x. \<lparr>smp_mark = mark, smp_proto = proto, smp_addr = fst x, smp_range = snd x\<rparr>)
       (row_ranges rows)) arg"
  by (induction rows arbitrary: arg)
    (auto simp: sample_ports_loop_None foreach_cb_append comp_def split: prod.splits)

lemma sample_rows_loop_skip:
  "smp_addr os \<notin> p4a_addr ` set rows \<Longrightarrow> sample_rows_loop func mark proto rows (Some os) e arg = (e, arg)"
  by (induction rows) auto

lemma dropWhile_map_Pair:
  "dropWhile (\<lambda>x. x \<noteq> (a, r)) (map (Pair a) ps) = map (Pair a) (dropWhile (\<lambda>q. q \<noteq> r) ps)"
  by (induction ps) auto

lemma sample_rows_loop_Some:
  assumes "rows_wf rows"
  shows "sample_rows_loop func mark proto rows (Some os) (Err ESRCH) arg =
    (if (smp_addr os, smp_range os) \<in> set (row_ranges rows)
     then foreach_cb func
       (map (\<lambda>x. \<lparr>smp_mark = mark, smp_proto = proto, smp_addr = fst x, smp_range = snd x\<rparr>)
         (tl (dropWhile (\<lambda>x. x \<noteq> (smp_addr os, smp_range os)) (row_ranges rows)))) arg
     else (Err ESRCH, arg))"
  using assms
proof (induction rows)
  case (Cons row rows)
  show ?case
  proof (cases "p4a_addr row = smp_addr os")
    case False
    then have "dropWhile (\<lambda>x. x \<noteq> (smp_addr os, smp_range os)) (row_ranges (row # rows)) =
        dropWhile (\<lambda>x. x \<noteq> (smp_addr os, smp_range os)) (row_ranges rows)"
      by (auto intro!: dropWhile_append2)
    then show ?thesis using False Cons by auto
  next
    case True
    have skip: "smp_addr os \<notin> p4a_addr ` set rows" using Cons.prems True by auto
    then have notin: "(smp_addr os, r) \<notin> set (row_ranges rows)" for r
      by (auto simp: row_ranges_def)
    show ?thesis
    proof (cases "smp_range os \<in> set (p4a_ports row)")
      case False
      then show ?thesis
        using True skip notin by (auto simp: sample_ports_loop_Some sample_rows_loop_skip)
    next
      case range: True
      have ne: "dropWhile (\<lambda>r. r \<noteq> smp_range os) (p4a_ports row) \<noteq> []"
        using range by (simp add: dropWhile_eq_Nil_conv)
      have "dropWhile (\<lambda>x. x \<noteq> (smp_addr os, smp_range os)) (row_ranges (row # rows)) =
          map (Pair (smp_addr os)) (dropWhile (\<lambda>r. r \<noteq> smp_range os) (p4a_ports row)) @ row_ranges rows"
        using range True by (auto simp: dropWhile_append dropWhile_map_Pair dropWhile_eq_Nil_conv)
      then have "tl (dropWhile (\<lambda>x. x \<noteq> (smp_addr os, smp_range os)) (row_ranges (row # rows))) =
          map (Pair (smp_addr os)) (tl (dropWhile (\<lambda>r. r \<noteq> smp_range os) (p4a_ports row))) @ row_ranges rows"
        using ne by (simp add: map_tl)
      then show ?thesis
        using True range
        by (auto simp: sample_ports_loop_Some sample_ports_loop_None foreach_cb_append comp_def
            sample_rows_loop_None split: prod.splits)
    qed
  qed
qed simp

lemma pool4table_foreach_sample_eq:
  "rows_wf (p4t_rows table) \<Longrightarrow> pool4table_foreach_sample table func arg offset =
    (case offset of
       None \<Rightarrow> foreach_cb func (map (sample_of table) (table_ranges table)) arg
     | Some os \<Rightarrow>
         if (smp_addr os, smp_range os) \<in> set (table_ranges table)
         then foreach_cb func (map (sample_of table)
           (tl (dropWhile (\<lambda>x. x \<noteq> (smp_addr os, smp_range os)) (table_ranges table)))) arg
         else (Err ESRCH, arg))"
  by (auto simp: pool4table_foreach_sample_def sample_rows_loop_None sample_rows_loop_Some
      sample_of_def [abs_def] row_ranges_def table_ranges_def split: option.splits)

section \<open>Properties\<close>



text \<open>
  C25: \<^verbatim>\<open>pool4table_rm\<close> of a proper port range ends, keeps the table invariant, and when it
  succeeds the table holds exactly what it held before minus the block of the prefix and the range.
\<close>

theorem pool4table_rm_correct:
  assumes "pool4table_inv table" "range_ok ports" "prefix4_validate (Some prefix) = Inr ()"
  shows "\<exists>e table' n'. pool4table_rm alloc table prefix ports n = Some (e, table', n') \<and>
    pool4table_inv table' \<and>
    (e = Ok \<longrightarrow> {ta. pool4table_contains table' ta} = {ta. pool4table_contains table ta} -
       {ta. prefix4_contains prefix (ta4_l3 ta) \<and> port_range_contains ports (ta4_l4 ta)})"
proof -
  have "set (foreach_addr4 prefix) = {a. prefix4_contains prefix a}"
    using assms(3) by (simp add: prefix4_validate_Inr_iff set_foreach_addr4)
  then show ?thesis
    using pool4table_rm_spec [OF assms(1,2), of alloc prefix n] by (elim exE conjE) blast
qed

definition sample_table :: "pool4_table" where
  "sample_table = \<lparr>p4t_mark = 0, p4t_proto = L4PROTO_UDP,
     p4t_rows = [\<lparr>p4a_addr = 0xC0000201, p4a_ports = [\<lparr>pr_min = 10, pr_max = 12\<rparr>]\<rparr>,
                 \<lparr>p4a_addr = 0xC0000202, p4a_ports = [\<lparr>pr_min = 5, pr_max = 5\<rparr>, \<lparr>pr_min = 7, pr_max = 8\<rparr>]\<rparr>]\<rparr>"

lemma sample_table_taddrs:
  "pool4_taddrs sample_table =
     [\<lparr>ta4_l3 = 0xC0000201, ta4_l4 = 10\<rparr>, \<lparr>ta4_l3 = 0xC0000201, ta4_l4 = 11\<rparr>,
      \<lparr>ta4_l3 = 0xC0000201, ta4_l4 = 12\<rparr>, \<lparr>ta4_l3 = 0xC0000202, ta4_l4 = 5\<rparr>,
      \<lparr>ta4_l3 = 0xC0000202, ta4_l4 = 7\<rparr>, \<lparr>ta4_l3 = 0xC0000202, ta4_l4 = 8\<rparr>]"
  by (simp add: pool4_taddrs_def sample_table_def table_ranges_def range_taddrs_def
      port_range_count_def upt_rec)

lemma sample_table_inv: "pool4table_inv sample_table"
  unfolding pool4table_inv_def sample_table_taddrs
  by (simp add: sample_table_def ranges_wf_def range_ok_def port_range_touches_def)

theorem pool4table_rm_correct_witness:
  "\<exists>e table' n'. pool4table_rm (\<lambda>_. True) sample_table \<lparr>p4_address = 0xC0000201, p4_len = 32\<rparr>
      \<lparr>pr_min = 11, pr_max = 11\<rparr> 0 = Some (e, table', n') \<and> pool4table_inv table'"
proof -
  have "range_ok \<lparr>pr_min = 11, pr_max = 11\<rparr>"
    "prefix4_validate (Some \<lparr>p4_address = 0xC0000201, p4_len = 32\<rparr>) = Inr ()"
    by (simp_all add: range_ok_def prefix4_validate_def get_prefix4_mask_def)
  from pool4table_rm_correct [OF sample_table_inv this, of "\<lambda>_. True" 0] show ?thesis by blast
qed

text \<open>
  C26: \<^verbatim>\<open>pool4table_foreach_taddr4\<close> runs the callback over the transport addresses of the table
  rotated by the offset: starting at the offset-th one modulo their number, wrapping around, each
  of them exactly once, until the callback stops the iteration; the list holds exactly the
  transport addresses of the table.
\<close>

theorem pool4table_foreach_taddr4_correct:
  assumes "pool4table_inv table"
  shows "pool4table_foreach_taddr4 table func arg offset =
      foreach_cb func (rotate (unat offset) (pool4_taddrs table)) arg \<and>
    distinct (rotate (unat offset) (pool4_taddrs table)) \<and>
    set (rotate (unat offset) (pool4_taddrs table)) = {ta. pool4table_contains table ta}"
  using assms pool4table_foreach_taddr4_rotate [of table func arg offset]
  by (simp add: pool4table_inv_def distinct_pool4_taddrs set_pool4_taddrs)

theorem pool4table_foreach_taddr4_correct_witness:
  "pool4table_foreach_taddr4 sample_table (\<lambda>ta ports. (Ok, ports @ [ta4_l4 ta])) [] 10 =
     (Ok, [7, 8, 10, 11, 12, 5])"
  using pool4table_foreach_taddr4_correct [OF sample_table_inv,
      of "\<lambda>ta ports. (Ok, ports @ [ta4_l4 ta])" "[]" 10]
  by (simp add: sample_table_taddrs rotate_drop_take)

text \<open>
  C27: \<^verbatim>\<open>pool4table_foreach_sample\<close> pages through the table: without an offset it visits every
  range, with an offset that belongs to the table exactly the ranges after it, and with any other
  offset none, returning -ESRCH.
\<close>

theorem pool4table_foreach_sample_correct:
  assumes "pool4table_inv table"
  shows "pool4table_foreach_sample table func arg offset =
    (case offset of
       None \<Rightarrow> foreach_cb func (map (sample_of table) (table_ranges table)) arg
     | Some os \<Rightarrow>
         if (smp_addr os, smp_range os) \<in> set (table_ranges table)
         then foreach_cb func (map (sample_of table)
           (tl (dropWhile (\<lambda>x. x \<noteq> (smp_addr os, smp_range os)) (table_ranges table)))) arg
         else (Err ESRCH, arg))"
  using assms by (intro pool4table_foreach_sample_eq) (simp add: pool4table_inv_def)

theorem pool4table_foreach_sample_correct_witness:
  "pool4table_foreach_sample sample_table (\<lambda>s acc. (Ok, acc @ [pr_min (smp_range s)])) []
     (Some \<lparr>smp_mark = 0, smp_proto = L4PROTO_UDP, smp_addr = 0xC0000202,
            smp_range = \<lparr>pr_min = 5, pr_max = 5\<rparr>\<rparr>) = (Ok, [7])"
  using pool4table_foreach_sample_correct [OF sample_table_inv,
      of "\<lambda>s acc. (Ok, acc @ [pr_min (smp_range s)])" "[]"
        "Some \<lparr>smp_mark = 0, smp_proto = L4PROTO_UDP, smp_addr = 0xC0000202,
            smp_range = \<lparr>pr_min = 5, pr_max = 5\<rparr>\<rparr>"]
  by (simp add: sample_table_def table_ranges_def sample_of_def)



end
