(* ===== verification/Pool4_Db.thy ===== *)
theory Pool4_Db
  imports Pool4_Table Pool6
begin

text \<open>
  The database of IPv4 pool tables (\<^verbatim>\<open>mod/stateful/pool4/db.c\<close>) and the behaviour of an empty
  pool (\<^verbatim>\<open>mod/stateful/pool4/empty.c\<close>).

  The database is an array of hash slots, each a list of tables; \<open>None\<close> as the result of an
  operation is a NULL database or an access out of the array. The kernel's \<^verbatim>\<open>hash_32\<close> is a
  parameter of which only its documented range is used. For an empty pool the addresses of the
  node's network devices are parameters.
\<close>

section \<open>Iterating over transport addresses\<close>

text \<open>
  What a source of transport addresses promises to the port allocator: the callback is run over
  a list that depends on the offset only through its order, that has no duplicates and that
  holds the members of the source.
\<close>

locale taddr4_source =
  fixes inv :: "'t \<Rightarrow> bool"
    and iterate :: "'t \<Rightarrow> (ipv4_transport_addr \<Rightarrow> 's \<Rightarrow> status \<times> 's) \<Rightarrow> 's \<Rightarrow> u32 \<Rightarrow> status \<times> 's"
    and members :: "'t \<Rightarrow> ipv4_transport_addr list"
  assumes iterate_rotate: "inv t \<Longrightarrow> iterate t func arg offset = foreach_cb func (rotate (unat offset) (members t)) arg"
    and members_distinct: "inv t \<Longrightarrow> distinct (members t)"
begin

text \<open>A callback that stops at the first element satisfying \<open>P\<close>.\<close>

lemma iterate_search:
  assumes "inv t" "\<And>ta s. func ta s = (if P ta then (Stop, found ta s) else (Ok, tick s))"
  shows "iterate t func arg offset =
    (case find P (rotate (unat offset) (members t)) of
       Some ta \<Rightarrow> (Stop, found ta ((tick ^^ length (takeWhile (\<lambda>x. \<not> P x) (rotate (unat offset) (members t)))) arg))
     | None \<Rightarrow> (Ok, (tick ^^ length (members t)) arg))"
proof -
  have tick: "(tick ^^ k) (tick s) = tick ((tick ^^ k) s)" for k s
    by (metis funpow_swap1)
  have "foreach_cb func xs arg =
    (case find P xs of
       Some ta \<Rightarrow> (Stop, found ta ((tick ^^ length (takeWhile (\<lambda>x. \<not> P x) xs)) arg))
     | None \<Rightarrow> (Ok, (tick ^^ length xs) arg))" for xs
    by (induction xs arbitrary: arg) (auto simp: assms(2) tick split: option.splits)
  then show ?thesis
    using iterate_rotate [OF assms(1), of func arg offset] by (simp split: option.split)
qed

lemma find_members:
  assumes "inv t"
  shows "find P (rotate k (members t)) = None \<longleftrightarrow> (\<forall>ta \<in> set (members t). \<not> P ta)"
    and "find P (rotate k (members t)) = Some ta \<Longrightarrow> ta \<in> set (members t) \<and> P ta"
  by (auto simp: find_None_iff dest: find_SomeD)

end

interpretation table_source: taddr4_source pool4table_inv pool4table_foreach_taddr4 pool4_taddrs
  by unfold_locales (simp_all add: pool4table_foreach_taddr4_rotate pool4table_inv_def
      distinct_pool4_taddrs)

section \<open>The empty pool\<close>

definition DEFAULT_POOL4_MIN_PORT :: u32 where "DEFAULT_POOL4_MIN_PORT = 61001"
definition DEFAULT_POOL4_MAX_PORT :: u32 where "DEFAULT_POOL4_MAX_PORT = 65535"

text \<open>A primary interface address; the scope field only matters as \<^verbatim>\<open>RT_SCOPE_UNIVERSE\<close> or not.\<close>

record in_ifaddr =
  ifa_universe :: bool
  ifa_address :: in_addr
  ifa_local :: in_addr
  ifa_mask :: u32

type_synonym in_device = "in_ifaddr list"

definition contains_addr :: "in_device option list \<Rightarrow> in_addr \<Rightarrow> bool" where
  "contains_addr devs addr =
     (\<exists>dev \<in> set devs.
        case dev of
          None \<Rightarrow> False
        | Some in_dev \<Rightarrow> \<exists>ifa \<in> set in_dev. ifa_universe ifa \<and> ifa_address ifa = addr)"

definition pool4empty_contains :: "in_device option list \<Rightarrow> ipv4_transport_addr \<Rightarrow> bool" where
  "pool4empty_contains devs addr =
     (if (ucast (ta4_l4 addr) :: u32) < DEFAULT_POOL4_MIN_PORT then False
      else if DEFAULT_POOL4_MAX_PORT < ucast (ta4_l4 addr) then False
      else contains_addr devs (ta4_l3 addr))"

definition inet_ifa_match :: "in_addr \<Rightarrow> in_ifaddr \<Rightarrow> bool" where
  "inet_ifa_match addr ifa = ((addr XOR ifa_address ifa) AND ifa_mask ifa = 0)"

fun pick_addr_loop :: "in_device \<Rightarrow> in_addr \<Rightarrow> in_addr \<Rightarrow> in_addr + in_addr" where
  "pick_addr_loop [] daddr saddr = Inl saddr"
| "pick_addr_loop (ifa # in_dev) daddr saddr =
     (if \<not> ifa_universe ifa then pick_addr_loop in_dev daddr saddr
      else if inet_ifa_match daddr ifa then Inr (ifa_local ifa)
      else pick_addr_loop in_dev daddr (if saddr = 0 then ifa_local ifa else saddr))"

definition pick_addr :: "in_device option list \<Rightarrow> in_device option \<Rightarrow> in_addr \<Rightarrow> errno + in_addr" where
  "pick_addr devs dst daddr =
     (case dst of
        None \<Rightarrow> Inl EINVAL
      | Some in_dev \<Rightarrow>
          (case pick_addr_loop in_dev daddr 0 of
             Inr result \<Rightarrow> Inr result
           | Inl saddr \<Rightarrow>
               if saddr \<noteq> 0 then Inr saddr
               else if contains_addr devs daddr then Inr daddr
               else Inl ESRCH))"

definition port_taddr :: "in_addr \<Rightarrow> nat \<Rightarrow> ipv4_transport_addr" where
  "port_taddr addr i = \<lparr>ta4_l3 = addr, ta4_l4 = word_of_nat i\<rparr>"

definition foreach_port :: "in_addr \<Rightarrow> (ipv4_transport_addr \<Rightarrow> 's \<Rightarrow> status \<times> 's) \<Rightarrow> 's \<Rightarrow> u32 \<Rightarrow>
    status \<times> 's" where
  "foreach_port addr cb arg offset =
     (let min_port = DEFAULT_POOL4_MIN_PORT; max_port = DEFAULT_POOL4_MAX_PORT;
          offset = min_port + offset mod (max_port - min_port + 1)
      in case foreach_cb cb (map (port_taddr addr) [unat offset..<Suc (unat max_port)]) arg of
           (error, arg') \<Rightarrow>
             if error \<noteq> Ok then (error, arg')
             else foreach_cb cb (map (port_taddr addr) [unat min_port..<unat offset]) arg')"

text \<open>
  \<open>dst\<close> is the outcome of routing a packet towards \<open>daddr\<close>: no route, or a device that may have
  no IPv4 configuration.
\<close>

definition pool4empty_foreach_taddr4 :: "in_device option list \<Rightarrow> in_device option option \<Rightarrow> in_addr \<Rightarrow>
    (ipv4_transport_addr \<Rightarrow> 's \<Rightarrow> status \<times> 's) \<Rightarrow> 's \<Rightarrow> u32 \<Rightarrow> status \<times> 's" where
  "pool4empty_foreach_taddr4 devs dst daddr cb arg offset =
     (case dst of
        None \<Rightarrow> (Err EINVAL, arg)
      | Some dev \<Rightarrow>
          (case pick_addr devs dev daddr of
             Inl error \<Rightarrow> (Err error, arg)
           | Inr saddr \<Rightarrow> foreach_port saddr cb arg offset))"

section \<open>The database\<close>

record pool4_db =
  p4_db :: "pool4_table list list option"
  p4_tables :: u32
  p4_power :: nat

type_synonym hash_32 = "u32 \<Rightarrow> nat \<Rightarrow> nat"

definition slots :: "nat \<Rightarrow> u32" where
  "slots pw = push_bit pw 1"

definition init_db :: "bool \<Rightarrow> u32 \<Rightarrow> pool4_table list list option" where
  "init_db kmalloc sz = (if kmalloc then Some (replicate (unat sz) []) else None)"

partial_function (option) init_power_loop :: "u32 \<Rightarrow> nat \<Rightarrow> nat option" where
  "init_power_loop sz pw =
     (if slots pw < sz then init_power_loop sz (Suc pw) else Some pw)"

declare init_power_loop.simps [code]

definition init_power :: "u32 \<Rightarrow> (errno + nat) option" where
  "init_power sz =
     (let sz = (if sz = 0 then 16 else sz)
      in if sz > 0x80000000 then Some (Inl EINVAL)
         else do { pw \<leftarrow> init_power_loop sz 0; Some (Inr pw) })"

definition has_key :: "u32 \<Rightarrow> l4_protocol \<Rightarrow> pool4_table \<Rightarrow> bool" where
  "has_key mark proto table = (p4t_mark table = mark \<and> p4t_proto table = proto)"

definition find_table :: "hash_32 \<Rightarrow> pool4_db \<Rightarrow> u32 \<Rightarrow> l4_protocol \<Rightarrow> pool4_table option option" where
  "find_table hash_32 p mark proto =
     do { database \<leftarrow> p4_db p;
          slot \<leftarrow> list_at database (hash_32 mark (p4_power p));
          Some (find (has_key mark proto) slot) }"

text \<open>Writing through the pointer that \<^verbatim>\<open>find_table\<close> returned, and unlinking that node.\<close>

fun update_first :: "('a \<Rightarrow> bool) \<Rightarrow> 'a list \<Rightarrow> 'a list \<Rightarrow> 'a list" where
  "update_first P new [] = []"
| "update_first P new (x # xs) = (if P x then new @ xs else x # update_first P new xs)"

definition put_table :: "hash_32 \<Rightarrow> pool4_db \<Rightarrow> u32 \<Rightarrow> l4_protocol \<Rightarrow> pool4_table list \<Rightarrow> pool4_db" where
  "put_table hash_32 p mark proto new =
     p\<lparr>p4_db := map_option (\<lambda>database. database[hash_32 mark (p4_power p) :=
         update_first (has_key mark proto) new (database ! hash_32 mark (p4_power p))]) (p4_db p)\<rparr>"

definition pool4db_add :: "hash_32 \<Rightarrow> alloc \<Rightarrow> u32 \<Rightarrow> l4_protocol \<Rightarrow> ipv4_prefix \<Rightarrow> port_range \<Rightarrow>
    pool4_db \<Rightarrow> nat \<Rightarrow> (status \<times> pool4_db \<times> nat) option" where
  "pool4db_add hash_32 alloc mark proto prefix ports p n =
     do { database \<leftarrow> p4_db p;
          found \<leftarrow> find_table hash_32 p mark proto;
          (case found of
             None \<Rightarrow>
               (case pool4table_create (alloc n) mark proto of
                  None \<Rightarrow> Some (Err ENOMEM, p, Suc n)
                | Some table \<Rightarrow>
                    (case pool4table_add alloc table prefix ports (Suc n) of
                       (error, table', n') \<Rightarrow>
                         if error \<noteq> Ok then Some (error, p, n')
                         else Some (Ok, p\<lparr>p4_tables := p4_tables p + 1,
                            p4_db := Some (database[hash_32 mark (p4_power p) :=
                              table' # database ! hash_32 mark (p4_power p)])\<rparr>, n')))
           | Some table \<Rightarrow>
               (case pool4table_add alloc table prefix ports n of
                  (error, table', n') \<Rightarrow>
                    Some (error, put_table hash_32 p mark proto [table'], n'))) }"

definition pool4db_rm :: "hash_32 \<Rightarrow> alloc \<Rightarrow> u32 \<Rightarrow> l4_protocol \<Rightarrow> ipv4_prefix \<Rightarrow> port_range \<Rightarrow>
    pool4_db \<Rightarrow> nat \<Rightarrow> (status \<times> pool4_db \<times> nat) option" where
  "pool4db_rm hash_32 alloc mark proto prefix ports p n =
     do { found \<leftarrow> find_table hash_32 p mark proto;
          (case found of
             None \<Rightarrow> Some (Err ESRCH, p, n)
           | Some table \<Rightarrow>
               do { (error, table', n') \<leftarrow> pool4table_rm alloc table prefix ports n;
                    (if error \<noteq> Ok then Some (error, put_table hash_32 p mark proto [table'], n')
                     else if pool4table_is_empty table'
                     then Some (Ok, (put_table hash_32 p mark proto [])\<lparr>p4_tables := p4_tables p - 1\<rparr>, n')
                     else Some (Ok, put_table hash_32 p mark proto [table'], n')) }) }"

definition pool4db_replace :: "pool4_table list list option \<Rightarrow> u32 \<Rightarrow> pool4_db \<Rightarrow> pool4_db option" where
  "pool4db_replace new count p =
     do { old \<leftarrow> p4_db p; Some (p\<lparr>p4_db := new, p4_tables := count\<rparr>) }"

definition pool4db_destroy :: "pool4_db \<Rightarrow> pool4_db option" where
  "pool4db_destroy p = pool4db_replace None 0 p"

definition pool4db_flush :: "bool \<Rightarrow> pool4_db \<Rightarrow> (status \<times> pool4_db) option" where
  "pool4db_flush kmalloc p =
     (case init_db kmalloc (slots (p4_power p)) of
        None \<Rightarrow> Some (Err ENOMEM, p)
      | Some new \<Rightarrow> do { p' \<leftarrow> pool4db_replace (Some new) 0 p; Some (Ok, p') })"

fun add_prefix_strings :: "(string \<Rightarrow> (errno + ipv4_prefix) option) \<Rightarrow> hash_32 \<Rightarrow> alloc \<Rightarrow> string list \<Rightarrow>
    pool4_db \<Rightarrow> nat \<Rightarrow> (status \<times> pool4_db \<times> nat) option" where
  "add_prefix_strings parse hash_32 alloc [] p n = Some (Ok, p, n)"
| "add_prefix_strings parse hash_32 alloc (str # strs) p n =
     do { parsed \<leftarrow> parse str;
          (case parsed of
             Inl error \<Rightarrow> Some (Err error, p, n)
           | Inr prefix \<Rightarrow>
               (let ports = \<lparr>pr_min = 0, pr_max = 65535\<rparr>
                in do { (e1, p1, n1) \<leftarrow> pool4db_add hash_32 alloc 0 L4PROTO_TCP prefix ports p n;
                        (if e1 \<noteq> Ok then Some (e1, p1, n1) else
                         do { (e2, p2, n2) \<leftarrow> pool4db_add hash_32 alloc 0 L4PROTO_UDP prefix ports p1 n1;
                              (if e2 \<noteq> Ok then Some (e2, p2, n2) else
                               do { (e3, p3, n3) \<leftarrow> pool4db_add hash_32 alloc 0 L4PROTO_ICMP prefix ports p2 n2;
                                    (if e3 \<noteq> Ok then Some (e3, p3, n3)
                                     else add_prefix_strings parse hash_32 alloc strs p3 n3) }) }) })) }"

definition pool4db_init :: "(string \<Rightarrow> (errno + ipv4_prefix) option) \<Rightarrow> hash_32 \<Rightarrow> alloc \<Rightarrow> u32 \<Rightarrow>
    string list \<Rightarrow> pool4_db \<Rightarrow> nat \<Rightarrow> (status \<times> pool4_db \<times> nat) option" where
  "pool4db_init parse hash_32 alloc sz prefix_strs p n =
     do { r \<leftarrow> init_power sz;
          (case r of
             Inl error \<Rightarrow> Some (Err error, p, n)
           | Inr pw \<Rightarrow>
               (case init_db (alloc n) (slots pw) of
                  None \<Rightarrow> Some (Err ENOMEM, p\<lparr>p4_power := pw, p4_tables := 0\<rparr>, Suc n)
                | Some tmp \<Rightarrow>
                    do { (error, p', n') \<leftarrow> add_prefix_strings parse hash_32 alloc prefix_strs
                           (p\<lparr>p4_power := pw, p4_tables := 0, p4_db := Some tmp\<rparr>) (Suc n);
                         (if error \<noteq> Ok
                          then do { p'' \<leftarrow> pool4db_destroy p'; Some (error, p'', n') }
                          else Some (Ok, p', n')) })) }"

definition pool4db_is_empty :: "pool4_db \<Rightarrow> bool option" where
  "pool4db_is_empty p =
     do { database \<leftarrow> p4_db p;
          Some (\<not> (\<exists>table \<in> set (concat database). \<not> pool4table_is_empty table)) }"

definition pool4db_contains :: "in_device option list \<Rightarrow> pool4_db \<Rightarrow> l4_protocol \<Rightarrow>
    ipv4_transport_addr \<Rightarrow> bool option" where
  "pool4db_contains devs p proto addr =
     do { empty \<leftarrow> pool4db_is_empty p;
          (if empty then Some (pool4empty_contains devs addr)
           else do { database \<leftarrow> p4_db p;
                     Some (\<exists>table \<in> set (concat database).
                             p4t_proto table = proto \<and> pool4table_contains table addr) }) }"

definition pool4db_count :: "pool4_db \<Rightarrow> (u32 \<times> u64 \<times> u64) option" where
  "pool4db_count p =
     do { database \<leftarrow> p4_db p;
          Some (fold (\<lambda>table (tables_out, samples, taddrs).
                        (tables_out + 1, pool4table_count table (samples, taddrs)))
                  (concat database) (0, 0, 0)) }"

fun db_sample_loop :: "(pool4_sample \<Rightarrow> 's \<Rightarrow> status \<times> 's) \<Rightarrow> pool4_table list \<Rightarrow>
    pool4_sample option \<Rightarrow> 's \<Rightarrow> status \<times> 's" where
  "db_sample_loop cb [] offset arg = (Ok, arg)"
| "db_sample_loop cb (table # rest) offset arg =
     (case offset of
        Some os \<Rightarrow>
          if has_key (smp_mark os) (smp_proto os) table
          then (case pool4table_foreach_sample table cb arg offset of (error, arg') \<Rightarrow>
                  if error \<noteq> Ok then (error, arg') else db_sample_loop cb rest None arg')
          else db_sample_loop cb rest offset arg
      | None \<Rightarrow>
          (case pool4table_foreach_sample table cb arg None of (error, arg') \<Rightarrow>
             if error \<noteq> Ok then (error, arg') else db_sample_loop cb rest None arg'))"

definition pool4db_foreach_sample :: "hash_32 \<Rightarrow> (pool4_sample \<Rightarrow> 's \<Rightarrow> status \<times> 's) \<Rightarrow> pool4_db \<Rightarrow>
    pool4_sample option \<Rightarrow> 's \<Rightarrow> (status \<times> 's) option" where
  "pool4db_foreach_sample hash_32 cb p offset arg =
     (let hash = (case offset of Some os \<Rightarrow> hash_32 (smp_mark os) (p4_power p) | None \<Rightarrow> 0)
      in do { database \<leftarrow> p4_db p;
              Some (db_sample_loop cb (concat (drop hash database)) offset arg) })"

definition pool4db_foreach_taddr4 :: "hash_32 \<Rightarrow> in_device option list \<Rightarrow> in_device option option \<Rightarrow>
    pool4_db \<Rightarrow> u32 \<Rightarrow> l4_protocol \<Rightarrow> in_addr \<Rightarrow> (ipv4_transport_addr \<Rightarrow> 's \<Rightarrow> status \<times> 's) \<Rightarrow> 's \<Rightarrow>
    u32 \<Rightarrow> (status \<times> 's) option" where
  "pool4db_foreach_taddr4 hash_32 devs dst p mark l4_proto daddr cb arg offset =
     do { empty \<leftarrow> pool4db_is_empty p;
          (if empty then Some (pool4empty_foreach_taddr4 devs dst daddr cb arg offset)
           else do { found \<leftarrow> find_table hash_32 p mark l4_proto;
                     Some (case found of
                             Some table \<Rightarrow> pool4table_foreach_taddr4 table cb arg offset
                           | None \<Rightarrow> (Err ESRCH, arg)) }) }"

section \<open>The empty pool as a source\<close>

definition default_ports :: "in_addr \<Rightarrow> ipv4_transport_addr list" where
  "default_ports addr = map (port_taddr addr)
     [unat DEFAULT_POOL4_MIN_PORT..<Suc (unat DEFAULT_POOL4_MAX_PORT)]"

lemma rotate_upt:
  assumes "lo < hi"
  shows "rotate k (map f [lo..<hi]) =
    map f [lo + k mod (hi - lo)..<hi] @ map f [lo..<lo + k mod (hi - lo)]"
proof -
  have "k mod (hi - lo) < hi - lo" using assms by simp
  then show ?thesis by (auto simp: rotate_drop_take drop_map take_map min_def)
qed

lemma default_port_bounds:
  "unat DEFAULT_POOL4_MIN_PORT = 61001" "unat DEFAULT_POOL4_MAX_PORT = 65535"
  by (simp_all add: DEFAULT_POOL4_MIN_PORT_def DEFAULT_POOL4_MAX_PORT_def)

lemma foreach_port_rotate:
  "foreach_port addr cb arg offset = foreach_cb cb (rotate (unat offset) (default_ports addr)) arg"
proof -
  let ?lo = "unat DEFAULT_POOL4_MIN_PORT" and ?hi = "Suc (unat DEFAULT_POOL4_MAX_PORT)"
  have "unat (offset mod 4535) = unat offset mod 4535" by (simp add: unat_mod)
  moreover have "unat offset mod 4535 < 4535" by simp
  ultimately have off: "unat (DEFAULT_POOL4_MIN_PORT +
      offset mod (DEFAULT_POOL4_MAX_PORT - DEFAULT_POOL4_MIN_PORT + 1)) =
      ?lo + unat offset mod (?hi - ?lo)"
    by (simp add: DEFAULT_POOL4_MIN_PORT_def DEFAULT_POOL4_MAX_PORT_def unat_word_ariths)
  have "?lo < ?hi" by (simp add: default_port_bounds)
  from rotate_upt [OF this, of "unat offset" "port_taddr addr"] show ?thesis
    unfolding foreach_port_def Let_def off default_ports_def
    by (simp only: foreach_cb_append) (simp only: not_not if_not_P split: prod.split if_split, simp)
qed

lemma distinct_default_ports: "distinct (default_ports addr)"
proof -
  have "inj_on (port_taddr addr) {..<2 ^ 16}"
    using word_of_nat_inj_on [where 'a = 16] by (auto simp: inj_on_def port_taddr_def)
  moreover have "set [unat DEFAULT_POOL4_MIN_PORT..<Suc (unat DEFAULT_POOL4_MAX_PORT)] \<subseteq> {..<2 ^ 16}"
    by (auto simp del: upt_Suc simp: default_port_bounds(2))
  ultimately show ?thesis
    unfolding default_ports_def distinct_map by (blast intro: inj_on_subset distinct_upt)
qed

interpretation empty_source: taddr4_source "\<lambda>_. True" foreach_port default_ports
  by unfold_locales (simp_all add: foreach_port_rotate distinct_default_ports)

lemma set_default_ports:
  "set (default_ports addr) =
     {ta. ta4_l3 ta = addr \<and> unat DEFAULT_POOL4_MIN_PORT \<le> unat (ta4_l4 ta)}" (is "_ = ?R")
proof (intro set_eqI iffI)
  fix ta assume "ta \<in> set (default_ports addr)"
  then obtain k where k: "ta = port_taddr addr k" "unat DEFAULT_POOL4_MIN_PORT \<le> k"
    "k \<le> unat DEFAULT_POOL4_MAX_PORT"
    unfolding default_ports_def set_map set_upt by auto
  then have "unat (ta4_l4 ta) = k"
    by (simp add: port_taddr_def unat_of_nat default_port_bounds(2))
  then show "ta \<in> ?R" using k by (simp add: port_taddr_def)
next
  fix ta assume ta: "ta \<in> ?R"
  have "unat (ta4_l4 ta) < Suc (unat DEFAULT_POOL4_MAX_PORT)"
    using unat_u16_bound [of "ta4_l4 ta"] by (simp add: default_port_bounds(2))
  then have "unat (ta4_l4 ta) \<in> set [unat DEFAULT_POOL4_MIN_PORT..<Suc (unat DEFAULT_POOL4_MAX_PORT)]"
    using ta unfolding set_upt by simp
  moreover have "ta = port_taddr addr (unat (ta4_l4 ta))" using ta by (simp add: port_taddr_def)
  ultimately show "ta \<in> set (default_ports addr)"
    unfolding default_ports_def set_map by blast
qed

section \<open>The database invariant\<close>

definition table_key :: "pool4_table \<Rightarrow> u32 \<times> l4_protocol" where
  "table_key table = (p4t_mark table, p4t_proto table)"

definition slot_ok :: "hash_32 \<Rightarrow> nat \<Rightarrow> nat \<Rightarrow> pool4_table list \<Rightarrow> bool" where
  "slot_ok hash_32 pw i slot \<longleftrightarrow> distinct (map table_key slot) \<and>
     (\<forall>t \<in> set slot. hash_32 (p4t_mark t) pw = i \<and> pool4table_inv t \<and> \<not> pool4table_is_empty t)"

text \<open>
  \<open>db_rep hash_32 p database\<close>: the database is allocated with one slot per hash value, a table is
  in the slot of its mark, no two tables share mark and protocol, no table is empty, and
  \<^verbatim>\<open>tables\<close> counts them.
\<close>

definition db_rep :: "hash_32 \<Rightarrow> pool4_db \<Rightarrow> pool4_table list list \<Rightarrow> bool" where
  "db_rep hash_32 p database \<longleftrightarrow> p4_db p = Some database \<and> length database = 2 ^ p4_power p \<and>
     (\<forall>i < length database. slot_ok hash_32 (p4_power p) i (database ! i)) \<and>
     p4_tables p = word_of_nat (length (concat database))"

definition hash_range :: "hash_32 \<Rightarrow> bool" where
  "hash_range hash_32 \<longleftrightarrow> (\<forall>mark bits. hash_32 mark bits < 2 ^ bits)"

lemma find_has_key:
  assumes "distinct (map table_key slot)"
  shows "find (has_key m pr) slot = Some t \<longleftrightarrow> t \<in> set slot \<and> has_key m pr t"
  using assms by (induction slot) (auto simp: has_key_def table_key_def image_iff)

lemma in_concat_nth: "t \<in> set (concat xss) \<longleftrightarrow> (\<exists>i < length xss. t \<in> set (xss ! i))"
  by (auto simp: in_set_conv_nth [of _ xss]) (metis nth_mem)

lemma find_table_rep:
  assumes "hash_range hash_32" "db_rep hash_32 p database"
  shows "\<exists>r. find_table hash_32 p m pr = Some r \<and>
    (\<forall>t. r = Some t \<longleftrightarrow> t \<in> set (concat database) \<and> has_key m pr t)"
proof -
  let ?h = "hash_32 m (p4_power p)"
  have h: "?h < length database" using assms by (simp add: hash_range_def db_rep_def)
  have ok: "slot_ok hash_32 (p4_power p) ?h (database ! ?h)"
    using assms h by (simp add: db_rep_def)
  have "t \<in> set (database ! ?h)" if "t \<in> set (concat database)" "has_key m pr t" for t
  proof -
    obtain i where i: "i < length database" "t \<in> set (database ! i)"
      using \<open>t \<in> set (concat database)\<close> by (metis in_concat_nth)
    then have "hash_32 (p4t_mark t) (p4_power p) = i"
      using assms(2) by (simp add: db_rep_def slot_ok_def)
    then show ?thesis using i \<open>has_key m pr t\<close> by (simp add: has_key_def)
  qed
  then have "find (has_key m pr) (database ! ?h) = Some t \<longleftrightarrow> t \<in> set (concat database) \<and> has_key m pr t" for t
    using ok h by (auto simp: slot_ok_def find_has_key)
  moreover have "find_table hash_32 p m pr = Some (find (has_key m pr) (database ! ?h))"
    using assms(2) h by (simp add: find_table_def db_rep_def)
  ultimately show ?thesis by blast
qed

text \<open>
  The tables after a slot of the array has been rewritten. \<open>others\<close> are the tables of other keys,
  \<open>new\<close> what stands for the key afterwards.
\<close>

lemma db_rep_update:
  assumes "hash_range hash_32" "db_rep hash_32 p database"
    "h = hash_32 m (p4_power p)" "slot_ok hash_32 (p4_power p) h slot"
    "set slot = set new \<union> {t \<in> set (database ! h). \<not> has_key m pr t}"
    "\<forall>t \<in> set new. has_key m pr t"
    "p4_tables p' = word_of_nat (length (concat (database[h := slot])))"
    "p4_db p' = Some (database[h := slot])" "p4_power p' = p4_power p"
  shows "db_rep hash_32 p' (database[h := slot])"
    "set (concat (database[h := slot])) = set new \<union> {t \<in> set (concat database). \<not> has_key m pr t}"
proof -
  have h: "h < length database" using assms(1-3) by (simp add: hash_range_def db_rep_def)
  show "db_rep hash_32 p' (database[h := slot])"
    using assms h by (auto simp: db_rep_def nth_list_update)
  have other: "\<not> has_key m pr t" if "i < length database" "i \<noteq> h" "t \<in> set (database ! i)" for i t
  proof
    assume "has_key m pr t"
    then have "hash_32 (p4t_mark t) (p4_power p) = h" using assms(3) by (simp add: has_key_def)
    moreover have "hash_32 (p4t_mark t) (p4_power p) = i"
      using assms(2) that by (simp add: db_rep_def slot_ok_def)
    ultimately show False using that by simp
  qed
  show "set (concat (database[h := slot])) = set new \<union> {t \<in> set (concat database). \<not> has_key m pr t}"
  proof (intro set_eqI iffI)
    fix t assume "t \<in> set (concat (database[h := slot]))"
    then show "t \<in> set new \<union> {t \<in> set (concat database). \<not> has_key m pr t}"
      unfolding in_concat_nth using assms(5) h other
      by (auto simp: nth_list_update in_concat_nth split: if_splits)
  next
    fix t assume t: "t \<in> set new \<union> {t \<in> set (concat database). \<not> has_key m pr t}"
    then show "t \<in> set (concat (database[h := slot]))"
    proof
      assume "t \<in> set new"
      then show ?thesis unfolding in_concat_nth using assms(5) h by (intro exI [of _ h]) simp
    next
      assume "t \<in> {t \<in> set (concat database). \<not> has_key m pr t}"
      then obtain i where "i < length database" "t \<in> set (database ! i)" "\<not> has_key m pr t"
        using in_concat_nth [of t database] by auto
      then show ?thesis unfolding in_concat_nth using assms(5) h
        by (intro exI [of _ i]) (auto simp: nth_list_update)
    qed
  qed
qed

lemma has_key_iff: "has_key m pr = (\<lambda>t. table_key t = (m, pr))"
  by (auto simp: has_key_def table_key_def)

lemma update_first_other: "k \<notin> key ` set xs \<Longrightarrow> update_first (\<lambda>x. key x = k) new xs = xs"
  by (induction xs) auto

lemma map_update_first:
  "key y = k \<Longrightarrow> map key (update_first (\<lambda>x. key x = k) [y] xs) = map key xs"
  by (induction xs) auto

lemma update_first_Nil:
  "distinct (map key xs) \<Longrightarrow> update_first (\<lambda>x. key x = k) [] xs = filter (\<lambda>x. key x \<noteq> k) xs"
  by (induction xs) (force intro!: filter_True [symmetric] simp: image_iff)+

lemma set_update_first:
  assumes "distinct (map key xs)" "k \<in> key ` set xs"
  shows "set (update_first (\<lambda>x. key x = k) new xs) = set new \<union> {x \<in> set xs. key x \<noteq> k}"
  using assms by (induction xs) (auto simp: image_iff)

lemma length_update_first:
  assumes "k \<in> key ` set xs"
  shows "length (update_first (\<lambda>x. key x = k) new xs) + 1 = length xs + length new"
  using assms by (induction xs) auto

lemma length_concat_update:
  assumes "i < length xss"
  shows "length (concat (xss[i := xs])) + length (xss ! i) = length (concat xss) + length xs"
  using assms by (induction xss arbitrary: i) (auto split: nat.splits)

lemma put_table_rep:
  assumes "hash_range hash_32" "db_rep hash_32 p database" "t \<in> set (concat database)" "has_key m pr t"
    "new = [] \<or> (\<exists>t'. new = [t'] \<and> has_key m pr t' \<and> pool4table_inv t' \<and> \<not> pool4table_is_empty t')"
  shows "\<exists>database'. db_rep hash_32 ((put_table hash_32 p m pr new)\<lparr>p4_tables :=
        (if new = [] then p4_tables p - 1 else p4_tables p)\<rparr>) database' \<and>
    set (concat database') = set new \<union> {x \<in> set (concat database). \<not> has_key m pr x}"
proof -
  let ?h = "hash_32 m (p4_power p)"
  let ?slot = "update_first (has_key m pr) new (database ! ?h)"
  let ?p = "(put_table hash_32 p m pr new)\<lparr>p4_tables :=
        (if new = [] then p4_tables p - 1 else p4_tables p)\<rparr>"
  have db: "p4_db p = Some database" using assms(2) by (simp add: db_rep_def)
  have h: "?h < length database" using assms(1,2) by (simp add: hash_range_def db_rep_def)
  have ok: "slot_ok hash_32 (p4_power p) ?h (database ! ?h)"
    using assms(2) h by (simp add: db_rep_def)
  then have dist: "distinct (map table_key (database ! ?h))" by (simp add: slot_ok_def)
  obtain i where i: "i < length database" "t \<in> set (database ! i)"
    using assms(3) unfolding in_concat_nth by blast
  then have "hash_32 (p4t_mark t) (p4_power p) = i"
    using assms(2) by (simp add: db_rep_def slot_ok_def)
  then have t: "t \<in> set (database ! ?h)" using i assms(4) by (simp add: has_key_def)
  then have key: "(m, pr) \<in> table_key ` set (database ! ?h)"
    using assms(4) by (force simp: has_key_iff)
  have set: "set ?slot = set new \<union> {x \<in> set (database ! ?h). \<not> has_key m pr x}"
    unfolding has_key_iff using set_update_first [OF dist key] by simp
  have sok: "slot_ok hash_32 (p4_power p) ?h ?slot"
  proof -
    have "distinct (map table_key ?slot)"
      using assms(5) dist map_update_first [of table_key _ "(m, pr)"] update_first_Nil [OF dist, of "(m, pr)"]
      by (auto simp: has_key_iff distinct_map_filter)
    moreover have "\<forall>x \<in> set new. hash_32 (p4t_mark x) (p4_power p) = ?h"
      using assms(5) by (auto simp: has_key_def)
    ultimately show ?thesis
      using ok assms(5) unfolding slot_ok_def set by auto
  qed
  have tab: "p4_tables ?p = word_of_nat (length (concat (database[?h := ?slot])))"
  proof -
    have "length (concat (database[?h := ?slot])) + 1 = length (concat database) + length new"
      using length_concat_update [OF h, of ?slot] length_update_first [OF key, of new]
      by (simp add: has_key_iff)
    moreover have "p4_tables p = word_of_nat (length (concat database))"
      using assms(2) by (simp add: db_rep_def)
    ultimately show ?thesis
      using assms(5) of_nat_Suc [of "length (concat (database[?h := ?slot]))", where 'a = u32]
      by (elim disjE exE) (simp_all del: length_concat of_nat_Suc)
  qed
  have pdb: "p4_db ?p = Some (database[?h := ?slot])" and pw: "p4_power ?p = p4_power p"
    by (simp_all add: put_table_def db)
  have "\<forall>x \<in> set new. has_key m pr x" using assms(5) by auto
  from db_rep_update [OF assms(1,2) refl sok set this tab pdb pw] show ?thesis by blast
qed

lemma add_table_rep:
  assumes "hash_range hash_32" "db_rep hash_32 p database" "\<forall>x \<in> set (concat database). \<not> has_key m pr x"
    "has_key m pr t" "pool4table_inv t" "\<not> pool4table_is_empty t"
  shows "\<exists>database'. db_rep hash_32 (p\<lparr>p4_tables := p4_tables p + 1,
        p4_db := Some (database[hash_32 m (p4_power p) := t # database ! hash_32 m (p4_power p)])\<rparr>) database' \<and>
    set (concat database') = insert t {x \<in> set (concat database). \<not> has_key m pr x}"
proof -
  let ?h = "hash_32 m (p4_power p)"
  let ?p = "p\<lparr>p4_tables := p4_tables p + 1, p4_db := Some (database[?h := t # database ! ?h])\<rparr>"
  have h: "?h < length database" using assms(1,2) by (simp add: hash_range_def db_rep_def)
  have ok: "slot_ok hash_32 (p4_power p) ?h (database ! ?h)"
    using assms(2) h by (simp add: db_rep_def)
  have new: "\<forall>x \<in> set (database ! ?h). \<not> has_key m pr x"
  proof
    fix x assume "x \<in> set (database ! ?h)"
    then have "x \<in> set (concat database)" unfolding in_concat_nth using h by blast
    then show "\<not> has_key m pr x" by (rule bspec [OF assms(3)])
  qed
  then have set: "set (t # database ! ?h) = set [t] \<union> {x \<in> set (database ! ?h). \<not> has_key m pr x}" by auto
  have sok: "slot_ok hash_32 (p4_power p) ?h (t # database ! ?h)"
  proof -
    have "table_key t \<notin> table_key ` set (database ! ?h)"
      using new assms(4) by (auto simp: has_key_iff)
    moreover have "hash_32 (p4t_mark t) (p4_power p) = ?h" using assms(4) by (simp add: has_key_def)
    ultimately show ?thesis using ok assms(5,6) by (simp add: slot_ok_def)
  qed
  have tab: "p4_tables ?p = word_of_nat (length (concat (database[?h := t # database ! ?h])))"
  proof -
    have "length (concat (database[?h := t # database ! ?h])) = length (concat database) + 1"
      using length_concat_update [OF h, of "t # database ! ?h"] by simp
    then show ?thesis using assms(2) by (simp add: db_rep_def del: length_concat)
  qed
  have pdb: "p4_db ?p = Some (database[?h := t # database ! ?h])" and pw: "p4_power ?p = p4_power p"
    by simp_all
  have "\<forall>x \<in> set [t]. has_key m pr x" using assms(4) by simp
  from db_rep_update [OF assms(1,2) refl sok set this tab pdb pw] show ?thesis by auto
qed

section \<open>Adding and removing blocks\<close>

definition db_holds :: "pool4_table list list \<Rightarrow> u32 \<Rightarrow> l4_protocol \<Rightarrow> ipv4_transport_addr \<Rightarrow> bool" where
  "db_holds database m pr ta \<longleftrightarrow>
     (\<exists>t \<in> set (concat database). has_key m pr t \<and> pool4table_contains t ta)"

definition block :: "ipv4_prefix \<Rightarrow> port_range \<Rightarrow> ipv4_transport_addr set" where
  "block prefix r = {ta. ta4_l3 ta \<in> set (foreach_addr4 prefix) \<and> port_range_contains r (ta4_l4 ta)}"

lemma block_nonempty: "range_ok r \<Longrightarrow> \<exists>ta. ta \<in> block prefix r"
proof -
  assume r: "range_ok r"
  have "foreach_addr4 prefix \<noteq> []" by (simp add: foreach_addr4_eq)
  then have "\<lparr>ta4_l3 = hd (foreach_addr4 prefix), ta4_l4 = pr_min r\<rparr> \<in> block prefix r"
    using r by (simp add: block_def port_range_contains_def range_ok_def)
  then show ?thesis by blast
qed

lemma db_rep_tables:
  assumes "db_rep hash_32 p database" "t \<in> set (concat database)"
  shows "pool4table_inv t" "\<not> pool4table_is_empty t"
proof -
  from assms(2) obtain i where i: "i < length database" "t \<in> set (database ! i)"
    unfolding in_concat_nth by blast
  then have "slot_ok hash_32 (p4_power p) i (database ! i)" using assms(1) by (simp add: db_rep_def)
  then show "pool4table_inv t" "\<not> pool4table_is_empty t" using i(2) by (simp_all add: slot_ok_def)
qed

lemma not_empty_contains:
  assumes "pool4table_inv t"
  shows "\<not> pool4table_is_empty t \<longleftrightarrow> (\<exists>ta. pool4table_contains t ta)"
proof -
  have "set (pool4_taddrs t) = {ta. pool4table_contains t ta}"
    using assms by (intro set_pool4_taddrs) (simp add: pool4table_inv_def)
  then have "pool4_taddrs t = [] \<longleftrightarrow> {ta. pool4table_contains t ta} = {}"
    by (metis set_empty)
  then show ?thesis unfolding pool4table_is_empty_iff [OF assms] by blast
qed

lemma db_holds_update:
  assumes "set (concat database') = set new \<union> {x \<in> set (concat database). \<not> has_key m pr x}"
    "\<forall>t \<in> set new. has_key m pr t"
  shows "db_holds database' m' pr' ta \<longleftrightarrow>
    (if (m', pr') = (m, pr) then \<exists>t \<in> set new. pool4table_contains t ta
     else db_holds database m' pr' ta)"
proof (cases "(m', pr') = (m, pr)")
  case True
  then show ?thesis unfolding db_holds_def assms(1) using assms(2) by (simp del: set_concat) blast
next
  case False
  then have "\<not> has_key m' pr' t" if "has_key m pr t" for t using that by (auto simp: has_key_def)
  then show ?thesis
    unfolding db_holds_def assms(1) if_not_P [OF False] using assms(2) by blast
qed

lemma db_holds_key:
  assumes "t \<in> set (concat database)" "has_key m pr t"
    "\<And>x. x \<in> set (concat database) \<Longrightarrow> has_key m pr x \<Longrightarrow> x = t"
  shows "db_holds database m pr ta \<longleftrightarrow> pool4table_contains t ta"
  unfolding db_holds_def using assms by blast

lemma pool4db_add_spec:
  assumes "hash_range hash_32" "db_rep hash_32 p database" "range_ok ports" "range_ok (clamp_range pr ports)"
  shows "\<exists>e p' n' database'. pool4db_add hash_32 alloc m pr prefix ports p n = Some (e, p', n') \<and>
    db_rep hash_32 p' database' \<and>
    (e = Ok \<longrightarrow> (\<forall>m' pr' ta. db_holds database' m' pr' ta \<longleftrightarrow> db_holds database m' pr' ta \<or>
       (m', pr') = (m, pr) \<and> ta \<in> block prefix (clamp_range pr ports)))"
proof -
  have db: "p4_db p = Some database" using assms(2) by (simp add: db_rep_def)
  obtain r where r: "find_table hash_32 p m pr = Some r"
    "\<forall>t. r = Some t \<longleftrightarrow> t \<in> set (concat database) \<and> has_key m pr t"
    using find_table_rep [OF assms(1,2), of m pr] by blast
  show ?thesis
  proof (cases r)
    case None
    then have none: "\<forall>t \<in> set (concat database). \<not> has_key m pr t" using r(2) by blast
    let ?t = "\<lparr>p4t_mark = m, p4t_proto = pr, p4t_rows = []\<rparr> :: pool4_table"
    obtain e t' n' where add: "pool4table_add alloc ?t prefix ports (Suc n) = (e, t', n')"
      by (metis prod_cases3)
    have inv: "pool4table_inv ?t" by (simp add: pool4table_inv_def pool4_taddrs_def table_ranges_def)
    have p: "p4t_proto ?t = pr" by simp
    note spec = pool4table_add_spec [OF inv assms(3) _ add, unfolded p, OF assms(4)]
    consider "\<not> alloc n" | "alloc n" "e \<noteq> Ok" | "alloc n" "e = Ok" by blast
    then show ?thesis
    proof cases
      case 3
      have old: "\<not> pool4table_contains ?t ta" for ta by (simp add: pool4table_contains_def)
      have new: "{ta. pool4table_contains t' ta} = block prefix (clamp_range pr ports)"
        using spec(5) spec(6) [OF 3(2)] old unfolding block_def by blast
      have key: "has_key m pr t'" "pool4table_inv t'" "\<not> pool4table_is_empty t'"
      proof -
        show "has_key m pr t'" using spec(2,3) by (simp add: has_key_def)
        show "pool4table_inv t'" by (rule spec(1))
        show "\<not> pool4table_is_empty t'"
          using not_empty_contains [OF spec(1)] block_nonempty [OF assms(4), of prefix] new by blast
      qed
      let ?p' = "p\<lparr>p4_tables := p4_tables p + 1,
          p4_db := Some (database[hash_32 m (p4_power p) := t' # database ! hash_32 m (p4_power p)])\<rparr>"
      from add_table_rep [OF assms(1,2) none key] obtain database' where d:
        "db_rep hash_32 ?p' database'"
        "set (concat database') = set [t'] \<union> {x \<in> set (concat database). \<not> has_key m pr x}"
        by auto
      have "\<not> db_holds database m pr ta" for ta using none by (auto simp: db_holds_def)
      then have "db_holds database' m' pr' ta \<longleftrightarrow> db_holds database m' pr' ta \<or>
          (m', pr') = (m, pr) \<and> ta \<in> block prefix (clamp_range pr ports)" for m' pr' ta
        using db_holds_update [OF d(2), of m' pr' ta] key(1) new by auto
      moreover have "pool4db_add hash_32 alloc m pr prefix ports p n = Some (Ok, ?p', n')"
        using db r(1) None 3 add by (simp add: pool4db_add_def pool4table_create_def)
      ultimately show ?thesis
        using d(1) by (intro exI [of _ Ok] exI [of _ ?p'] exI [of _ n'] exI [of _ database'] conjI impI allI)
    next
      case 1
      then have "pool4db_add hash_32 alloc m pr prefix ports p n = Some (Err ENOMEM, p, Suc n)"
        using db r(1) None by (simp add: pool4db_add_def pool4table_create_def)
      then show ?thesis
        using assms(2) by (intro exI [of _ "Err ENOMEM"] exI [of _ p] exI [of _ "Suc n"] exI [of _ database]) simp
    next
      case 2
      then have "pool4db_add hash_32 alloc m pr prefix ports p n = Some (e, p, n')"
        using db r(1) None add by (simp add: pool4db_add_def pool4table_create_def)
      then show ?thesis
        using assms(2) 2(2) by (intro exI [of _ e] exI [of _ p] exI [of _ n'] exI [of _ database]) simp
    qed
  next
    case (Some t)
    then have t: "t \<in> set (concat database)" "has_key m pr t" using r(2) by blast+
    have uniq: "x = t" if "x \<in> set (concat database)" "has_key m pr x" for x
      using r(2) Some that by (metis option.inject)
    note inv = db_rep_tables [OF assms(2) t(1)]
    obtain e t' n' where add: "pool4table_add alloc t prefix ports n = (e, t', n')" by (metis prod_cases3)
    have pr: "p4t_proto t = pr" using t(2) by (simp add: has_key_def)
    note spec = pool4table_add_spec [OF inv(1) assms(3) _ add, unfolded pr, OF assms(4)]
    have key: "has_key m pr t'" using spec(2,3) t(2) by (simp add: has_key_def)
    moreover have "pool4table_inv t'" by (rule spec(1))
    moreover have "\<not> pool4table_is_empty t'"
      using not_empty_contains [OF spec(1)] not_empty_contains [OF inv(1)] inv(2) spec(4) by blast
    ultimately have "[t'] = [] \<or> (\<exists>x. [t'] = [x] \<and> has_key m pr x \<and> pool4table_inv x \<and> \<not> pool4table_is_empty x)"
      by blast
    from put_table_rep [OF assms(1,2) t this] obtain database' where d:
      "db_rep hash_32 (put_table hash_32 p m pr [t']) database'"
      "set (concat database') = set [t'] \<union> {x \<in> set (concat database). \<not> has_key m pr x}"
      by (auto simp: put_table_def)
    have holds: "db_holds database' m' pr' ta \<longleftrightarrow> db_holds database m' pr' ta \<or>
       (m', pr') = (m, pr) \<and> ta \<in> block prefix (clamp_range pr ports)" if "e = Ok" for m' pr' ta
    proof -
      have "pool4table_contains t' ta \<longleftrightarrow>
          pool4table_contains t ta \<or> ta \<in> block prefix (clamp_range pr ports)"
        using spec(4,5) spec(6) [OF that] unfolding block_def by blast
      moreover have "db_holds database m pr ta \<longleftrightarrow> pool4table_contains t ta"
        by (rule db_holds_key [OF t uniq])
      ultimately show ?thesis
        using db_holds_update [OF d(2), of m' pr' ta] key by auto
    qed
    have "pool4db_add hash_32 alloc m pr prefix ports p n = Some (e, put_table hash_32 p m pr [t'], n')"
      using db r(1) Some add by (simp add: pool4db_add_def)
    then show ?thesis
      using d(1) holds
      by (intro exI [of _ e] exI [of _ "put_table hash_32 p m pr [t']"] exI [of _ n'] exI [of _ database']
          conjI impI allI)
  qed
qed

lemma pool4db_rm_spec:
  assumes "hash_range hash_32" "db_rep hash_32 p database" "range_ok ports"
  shows "\<exists>e p' n' database'. pool4db_rm hash_32 alloc m pr prefix ports p n = Some (e, p', n') \<and>
    db_rep hash_32 p' database' \<and>
    (e = Ok \<longrightarrow> (\<forall>m' pr' ta. db_holds database' m' pr' ta \<longleftrightarrow> db_holds database m' pr' ta \<and>
       \<not> ((m', pr') = (m, pr) \<and> ta \<in> block prefix ports)))"
proof -
  obtain r where r: "find_table hash_32 p m pr = Some r"
    "\<forall>t. r = Some t \<longleftrightarrow> t \<in> set (concat database) \<and> has_key m pr t"
    using find_table_rep [OF assms(1,2), of m pr] by blast
  show ?thesis
  proof (cases r)
    case None
    then have "pool4db_rm hash_32 alloc m pr prefix ports p n = Some (Err ESRCH, p, n)"
      using r(1) by (simp add: pool4db_rm_def)
    then show ?thesis
      using assms(2) by (intro exI [of _ "Err ESRCH"] exI [of _ p] exI [of _ n] exI [of _ database]) simp
  next
    case (Some t)
    then have t: "t \<in> set (concat database)" "has_key m pr t" using r(2) by blast+
    have uniq: "x = t" if "x \<in> set (concat database)" "has_key m pr x" for x
      using r(2) Some that by (metis option.inject)
    note inv = db_rep_tables [OF assms(2) t(1)]
    obtain e t' n' where rm: "pool4table_rm alloc t prefix ports n = Some (e, t', n')"
      and spec: "pool4table_inv t'" "p4t_mark t' = p4t_mark t" "p4t_proto t' = p4t_proto t"
      "\<forall>ta. pool4table_contains t' ta \<longrightarrow> pool4table_contains t ta"
      "\<forall>ta. pool4table_contains t ta \<longrightarrow> pool4table_contains t' ta \<or> ta \<in> block prefix ports"
      "e = Ok \<longrightarrow> (\<forall>ta. pool4table_contains t' ta \<longrightarrow> ta \<notin> block prefix ports)"
      "e \<noteq> Ok \<longrightarrow> \<not> pool4table_is_empty t'"
      using pool4table_rm_spec [OF inv(1) assms(3), of alloc prefix n]
      unfolding block_def mem_Collect_eq by blast
    have key: "has_key m pr t'" using spec(2,3) t(2) by (simp add: has_key_def)
    define new where "new = (if pool4table_is_empty t' then [] else [t'])"
    have "new = [] \<or> (\<exists>x. new = [x] \<and> has_key m pr x \<and> pool4table_inv x \<and> \<not> pool4table_is_empty x)"
      using key spec(1) by (simp add: new_def)
    from put_table_rep [OF assms(1,2) t this] obtain database' where d:
      "db_rep hash_32 ((put_table hash_32 p m pr new)\<lparr>p4_tables :=
         (if new = [] then p4_tables p - 1 else p4_tables p)\<rparr>) database'"
      "set (concat database') = set new \<union> {x \<in> set (concat database). \<not> has_key m pr x}"
      by blast
    let ?p' = "(put_table hash_32 p m pr new)\<lparr>p4_tables :=
         (if new = [] then p4_tables p - 1 else p4_tables p)\<rparr>"
    have run: "pool4db_rm hash_32 alloc m pr prefix ports p n = Some (e, ?p', n')"
      using r(1) Some rm spec(7) by (cases "e = Ok") (auto simp: pool4db_rm_def new_def put_table_def)
    have new_iff: "(\<exists>x \<in> set new. pool4table_contains x ta) \<longleftrightarrow> pool4table_contains t' ta" for ta
      using not_empty_contains [OF spec(1)] by (auto simp: new_def)
    have holds: "db_holds database' m' pr' ta \<longleftrightarrow> db_holds database m' pr' ta \<and>
       \<not> ((m', pr') = (m, pr) \<and> ta \<in> block prefix ports)" if "e = Ok" for m' pr' ta
    proof -
      have "pool4table_contains t' ta \<longleftrightarrow> pool4table_contains t ta \<and> ta \<notin> block prefix ports"
        using spec(4,5,6) that by blast
      moreover have "db_holds database m pr ta \<longleftrightarrow> pool4table_contains t ta"
        by (rule db_holds_key [OF t uniq])
      moreover have "\<forall>x \<in> set new. has_key m pr x" using key by (simp add: new_def)
      ultimately show ?thesis
        using db_holds_update [OF d(2), of m' pr' ta] new_iff by auto
    qed
    show ?thesis
      using run d(1) holds
      by (intro exI [of _ e] exI [of _ ?p'] exI [of _ n'] exI [of _ database'] conjI impI allI)
  qed
qed

lemma pool4db_is_empty_rep:
  assumes "db_rep hash_32 p database"
  shows "pool4db_is_empty p = Some (concat database = [])"
proof -
  have "p4_db p = Some database" using assms by (simp add: db_rep_def)
  moreover have "(\<exists>t \<in> set (concat database). \<not> pool4table_is_empty t) \<longleftrightarrow> concat database \<noteq> []"
    using db_rep_tables(2) [OF assms] by (metis hd_in_set list.set_cases empty_iff list.set(1))
  ultimately show ?thesis by (simp only: pool4db_is_empty_def bind.bind_lunit not_not simp_thms)
qed

section \<open>Sizing the hash table\<close>

lemma unat_slots: "k < 32 \<Longrightarrow> unat (slots k) = 2 ^ k"
  unfolding slots_def by (simp only: unsigned_push_bit_eq) (simp add: push_bit_eq_mult take_bit_nat_eq_self)

lemma init_power_loop_spec:
  assumes "unat sz \<le> 2 ^ 31" "k \<le> 31" "\<forall>j < k. 2 ^ j < unat sz"
  shows "\<exists>r \<le> 31. init_power_loop sz k = Some r \<and> unat sz \<le> 2 ^ r \<and> (\<forall>j < r. 2 ^ j < unat sz)"
  using assms(2,3)
proof (induction "31 - k" arbitrary: k)
  case 0
  then have "k = 31" by simp
  then show ?case
    using assms(1) 0
    by (intro exI [of _ 31]) (simp add: init_power_loop.simps [of sz 31] word_less_nat_alt unat_slots)
next
  case (Suc d)
  show ?case
  proof (cases "slots k < sz")
    case True
    then have "\<forall>j < Suc k. 2 ^ j < unat sz"
      using Suc.prems by (auto simp: word_less_nat_alt unat_slots less_Suc_eq)
    then show ?thesis
      using Suc.hyps(1) [of "Suc k"] Suc.hyps(2) True by (simp add: init_power_loop.simps [of sz k])
  next
    case False
    then show ?thesis
      using Suc.prems by (intro exI [of _ k])
        (simp add: init_power_loop.simps [of sz k] word_less_nat_alt unat_slots not_less)
  qed
qed

section \<open>Properties\<close>


definition sample_db :: pool4_db where
  "sample_db = \<lparr>p4_db = Some [[], []], p4_tables = 0, p4_power = 1\<rparr>"

lemma sample_db_rep: "db_rep (\<lambda>_ _. 0) sample_db [[], []]"
  by (auto simp: db_rep_def sample_db_def slot_ok_def nth_Cons split: nat.splits)




text \<open>
  C30: \<^verbatim>\<open>init_power\<close> ends for every requested size, rejects exactly sizes above
  \<^term>\<open>2 ^ 31 :: nat\<close>, and otherwise finds the smallest power of two that is at least the requested
  size (16 for 0).
\<close>

theorem init_power_correct:
  "init_power sz =
     (if unat sz > 2 ^ 31 then Some (Inl EINVAL)
      else Some (Inr (LEAST k. unat (if sz = 0 then 16 else sz) \<le> 2 ^ k)))"
proof (cases "unat sz > 2 ^ 31")
  case True
  then show ?thesis by (auto simp: init_power_def word_less_nat_alt)
next
  case False
  define s where "s = (if sz = 0 then 16 else sz)"
  have "unat s \<le> 2 ^ 31" using False by (simp add: s_def)
  from init_power_loop_spec [OF this, of 0] obtain r where r: "init_power_loop s 0 = Some r"
    "unat s \<le> 2 ^ r" "\<forall>j < r. 2 ^ j < unat s"
    by auto
  then have "(LEAST k. unat s \<le> 2 ^ k) = r"
    by (intro Least_equality) (auto simp: not_le [symmetric])
  then show ?thesis
    using False r(1) \<open>unat s \<le> 2 ^ 31\<close>
    unfolding init_power_def Let_def s_def [symmetric] by (simp add: word_less_nat_alt not_less)
qed

end
