(* ===== verification/Packet.thy ===== *)
theory Packet
  imports Addresses
begin

text \<open>
  Packets (\<^verbatim>\<open>include/nat64/mod/common/packet.h\<close>, \<^verbatim>\<open>mod/common/packet.c\<close>): socket buffers as bytes, the
  headers decoded from them, and the validation that turns a buffer into a \<open>packet\<close>.

  A buffer has all its bytes in \<open>sk_data\<close> (from \<^verbatim>\<open>skb->data\<close>), of which the first \<open>sk_headlen\<close> are
  linear, the rest being paged. \<^verbatim>\<open>skb_header_pointer\<close> reads anywhere in the buffer and yields \<open>None\<close>
  (C's NULL) past its end; dereferencing a pointer into the buffer is only defined in the linear
  part, and is a fault outside. Multi-byte fields are decoded from network order. Offsets are
  natural numbers: they are bounded by the size of the buffer. Log messages and statistics
  are not modelled.
\<close>

section \<open>Headers\<close>

record ipv6hdr =
  ip6_version :: u8
  ip6_priority :: u8
  ip6_flow_lbl0 :: u8
  ip6_flow_lbl1 :: u8
  ip6_flow_lbl2 :: u8
  ip6_payload_len :: u16
  ip6_nexthdr :: u8
  ip6_hop_limit :: u8
  ip6_saddr :: in6_addr
  ip6_daddr :: in6_addr

record iphdr =
  ip4_version :: u8
  ip4_ihl :: u8
  ip4_tos :: u8
  ip4_tot_len :: u16
  ip4_id :: u16
  ip4_frag_off :: u16
  ip4_ttl :: u8
  ip4_protocol :: u8
  ip4_check :: u16
  ip4_saddr :: in_addr
  ip4_daddr :: in_addr

record frag_hdr =
  fh_nexthdr :: u8
  fh_reserved :: u8
  fh_frag_off :: u16
  fh_identification :: u32

record tcphdr =
  th_source :: u16
  th_dest :: u16
  th_seq :: u32
  th_ack_seq :: u32
  th_doff :: u8
  th_res1 :: u8
  th_flags :: u8
  th_window :: u16
  th_check :: u16
  th_urg_ptr :: u16

record udphdr =
  uh_source :: u16
  uh_dest :: u16
  uh_len :: u16
  uh_check :: u16

text \<open>\<^verbatim>\<open>icmphdr\<close> and \<^verbatim>\<open>icmp6hdr\<close> have the same layout; the last four bytes are a union.\<close>

record icmphdr =
  ih_type :: u8
  ih_code :: u8
  ih_checksum :: u16
  ih_un0 :: u16
  ih_un1 :: u16

definition be16 :: "u8 \<Rightarrow> u8 \<Rightarrow> u16" where
  "be16 hi lo = push_bit 8 (ucast hi) OR ucast lo"

definition be32 :: "u8 \<Rightarrow> u8 \<Rightarrow> u8 \<Rightarrow> u8 \<Rightarrow> u32" where
  "be32 a b c d = push_bit 24 (ucast a) OR push_bit 16 (ucast b) OR push_bit 8 (ucast c) OR ucast d"

definition be128 :: "u8 list \<Rightarrow> in6_addr" where
  "be128 bs = foldl (\<lambda>acc b. push_bit 8 acc OR ucast b) 0 bs"

text \<open>Each decoder reads the bytes of one header.\<close>

definition decode_ipv6hdr :: "u8 list \<Rightarrow> ipv6hdr" where
  "decode_ipv6hdr b =
     \<lparr>ip6_version = drop_bit 4 (b ! 0), ip6_priority = b ! 0 AND 0xF, ip6_flow_lbl0 = b ! 1,
      ip6_flow_lbl1 = b ! 2, ip6_flow_lbl2 = b ! 3, ip6_payload_len = be16 (b ! 4) (b ! 5),
      ip6_nexthdr = b ! 6, ip6_hop_limit = b ! 7,
      ip6_saddr = be128 (take 16 (drop 8 b)), ip6_daddr = be128 (take 16 (drop 24 b))\<rparr>"

definition decode_iphdr :: "u8 list \<Rightarrow> iphdr" where
  "decode_iphdr b =
     \<lparr>ip4_version = drop_bit 4 (b ! 0), ip4_ihl = b ! 0 AND 0xF, ip4_tos = b ! 1,
      ip4_tot_len = be16 (b ! 2) (b ! 3), ip4_id = be16 (b ! 4) (b ! 5),
      ip4_frag_off = be16 (b ! 6) (b ! 7), ip4_ttl = b ! 8, ip4_protocol = b ! 9,
      ip4_check = be16 (b ! 10) (b ! 11), ip4_saddr = be32 (b ! 12) (b ! 13) (b ! 14) (b ! 15),
      ip4_daddr = be32 (b ! 16) (b ! 17) (b ! 18) (b ! 19)\<rparr>"

definition decode_frag_hdr :: "u8 list \<Rightarrow> frag_hdr" where
  "decode_frag_hdr b =
     \<lparr>fh_nexthdr = b ! 0, fh_reserved = b ! 1, fh_frag_off = be16 (b ! 2) (b ! 3),
      fh_identification = be32 (b ! 4) (b ! 5) (b ! 6) (b ! 7)\<rparr>"

definition decode_tcphdr :: "u8 list \<Rightarrow> tcphdr" where
  "decode_tcphdr b =
     \<lparr>th_source = be16 (b ! 0) (b ! 1), th_dest = be16 (b ! 2) (b ! 3),
      th_seq = be32 (b ! 4) (b ! 5) (b ! 6) (b ! 7), th_ack_seq = be32 (b ! 8) (b ! 9) (b ! 10) (b ! 11),
      th_doff = drop_bit 4 (b ! 12), th_res1 = b ! 12 AND 0xF, th_flags = b ! 13,
      th_window = be16 (b ! 14) (b ! 15), th_check = be16 (b ! 16) (b ! 17),
      th_urg_ptr = be16 (b ! 18) (b ! 19)\<rparr>"

definition decode_udphdr :: "u8 list \<Rightarrow> udphdr" where
  "decode_udphdr b =
     \<lparr>uh_source = be16 (b ! 0) (b ! 1), uh_dest = be16 (b ! 2) (b ! 3), uh_len = be16 (b ! 4) (b ! 5),
      uh_check = be16 (b ! 6) (b ! 7)\<rparr>"

definition decode_icmphdr :: "u8 list \<Rightarrow> icmphdr" where
  "decode_icmphdr b =
     \<lparr>ih_type = b ! 0, ih_code = b ! 1, ih_checksum = be16 (b ! 2) (b ! 3),
      ih_un0 = be16 (b ! 4) (b ! 5), ih_un1 = be16 (b ! 6) (b ! 7)\<rparr>"

text \<open>The flag bits of the TCP header's 14th byte.\<close>

definition th_fin :: "tcphdr \<Rightarrow> bool" where "th_fin h = bit (th_flags h) 0"
definition th_syn :: "tcphdr \<Rightarrow> bool" where "th_syn h = bit (th_flags h) 1"
definition th_rst :: "tcphdr \<Rightarrow> bool" where "th_rst h = bit (th_flags h) 2"

section \<open>Fields of the headers\<close>

definition get_traffic_class :: "ipv6hdr \<Rightarrow> u8" where
  "get_traffic_class hdr =
     (let upper_bits = ip6_priority hdr; lower_bits = drop_bit 4 (ip6_flow_lbl0 hdr)
      in push_bit 4 upper_bits OR lower_bits)"

definition IP_DF :: u16 where "IP_DF = 0x4000"
definition IP_MF :: u16 where "IP_MF = 0x2000"
definition IP_OFFSET :: u16 where "IP_OFFSET = 0x1FFF"
definition IP6_MF :: u16 where "IP6_MF = 0x0001"

definition is_dont_fragment_set :: "iphdr \<Rightarrow> u16" where
  "is_dont_fragment_set hdr = ip4_frag_off hdr AND IP_DF"

definition is_more_fragments_set_ipv6 :: "frag_hdr \<Rightarrow> u16" where
  "is_more_fragments_set_ipv6 hdr = fh_frag_off hdr AND IP6_MF"

definition is_more_fragments_set_ipv4 :: "iphdr \<Rightarrow> u16" where
  "is_more_fragments_set_ipv4 hdr = ip4_frag_off hdr AND IP_MF"

definition get_fragment_offset_ipv6 :: "frag_hdr \<Rightarrow> u16" where
  "get_fragment_offset_ipv6 hdr = fh_frag_off hdr AND 0xFFF8"

definition get_fragment_offset_ipv4 :: "iphdr \<Rightarrow> u16" where
  "get_fragment_offset_ipv4 hdr = push_bit 3 (ip4_frag_off hdr AND IP_OFFSET)"

definition is_first_frag4 :: "iphdr \<Rightarrow> bool" where
  "is_first_frag4 hdr = (get_fragment_offset_ipv4 hdr = 0)"

definition is_first_frag6 :: "frag_hdr option \<Rightarrow> bool" where
  "is_first_frag6 hdr = (case hdr of Some h \<Rightarrow> get_fragment_offset_ipv6 h = 0 | None \<Rightarrow> True)"

definition is_fragmented_ipv4 :: "iphdr \<Rightarrow> bool" where
  "is_fragmented_ipv4 hdr = (get_fragment_offset_ipv4 hdr \<noteq> 0 \<or> is_more_fragments_set_ipv4 hdr \<noteq> 0)"

definition is_fragmented_ipv6 :: "frag_hdr option \<Rightarrow> bool" where
  "is_fragmented_ipv6 hdr =
     (case hdr of
        Some h \<Rightarrow> get_fragment_offset_ipv6 h \<noteq> 0 \<or> is_more_fragments_set_ipv6 h \<noteq> 0
      | None \<Rightarrow> False)"

definition build_ipv6_frag_off_field :: "u16 \<Rightarrow> u16 \<Rightarrow> u16" where
  "build_ipv6_frag_off_field frag_offset mf = (frag_offset AND 0xFFF8) OR (if mf \<noteq> 0 then 1 else 0)"

definition build_ipv4_frag_off_field :: "bool \<Rightarrow> u16 \<Rightarrow> u16 \<Rightarrow> u16" where
  "build_ipv4_frag_off_field df mf frag_offset =
     (if df then push_bit 14 1 else 0) OR (if mf \<noteq> 0 then push_bit 13 1 else 0) OR drop_bit 3 frag_offset"

definition tcp_hdr_len :: "tcphdr \<Rightarrow> nat" where
  "tcp_hdr_len hdr = unat (th_doff hdr) * 4"

section \<open>Socket buffers\<close>

text \<open>
  The network device of a buffer: whether it belongs to a namespace, and whether it has IPv6 state
  (\<^verbatim>\<open>in6_dev_get\<close>).
\<close>

record net_device =
  nd_net :: bool
  nd_inet6 :: bool

record sk_buff =
  sk_data :: "u8 list"
  sk_headlen :: nat
  sk_network_offset :: nat
  sk_mark :: u32
  sk_shared :: bool
  sk_dev :: "net_device option"

definition skb_len :: "sk_buff \<Rightarrow> nat" where
  "skb_len skb = length (sk_data skb)"

definition skb_header_pointer :: "sk_buff \<Rightarrow> nat \<Rightarrow> nat \<Rightarrow> u8 list option" where
  "skb_header_pointer skb offset len =
     (if offset + len \<le> skb_len skb then Some (take len (drop offset (sk_data skb))) else None)"

text \<open>Dereferencing a pointer to \<open>len\<close> bytes at an offset from \<^verbatim>\<open>skb->data\<close>.\<close>

definition skb_deref :: "sk_buff \<Rightarrow> nat \<Rightarrow> nat \<Rightarrow> u8 list option" where
  "skb_deref skb offset len =
     (if offset + len \<le> sk_headlen skb \<and> offset + len \<le> skb_len skb
      then Some (take len (drop offset (sk_data skb))) else None)"

text \<open>
  \<^verbatim>\<open>pskb_may_pull\<close> makes the first \<open>len\<close> bytes linear. It fails past the end of the buffer or, if the
  header area must grow, when that allocation fails; \<open>grow\<close> tells for which lengths it succeeds.
\<close>

definition pskb_may_pull :: "(nat \<Rightarrow> bool) \<Rightarrow> sk_buff \<Rightarrow> nat \<Rightarrow> bool \<times> sk_buff" where
  "pskb_may_pull grow skb len =
     (if len \<le> sk_headlen skb then (True, skb)
      else if len > skb_len skb then (False, skb)
      else if grow len then (True, skb\<lparr>sk_headlen := len\<rparr>) else (False, skb))"

section \<open>Packets\<close>

text \<open>
  The pointers of \<^verbatim>\<open>struct packet\<close> are offsets from \<^verbatim>\<open>skb->data\<close>. \<^verbatim>\<open>original_pkt\<close> points to the packet
  itself for every packet built here and is left out.
\<close>

record packet =
  pkt_skb :: sk_buff
  pkt_l3_proto :: l3_protocol
  pkt_l4_proto :: l4_protocol
  pkt_is_inner :: bool
  pkt_is_hairpin :: bool
  pkt_hdr_frag :: "nat option"
  pkt_transport_offset :: nat
  pkt_payload_offset :: nat

definition pkt_ip4_hdr :: "packet \<Rightarrow> iphdr option" where
  "pkt_ip4_hdr pkt = map_option decode_iphdr (skb_deref (pkt_skb pkt) (sk_network_offset (pkt_skb pkt)) 20)"

definition pkt_ip6_hdr :: "packet \<Rightarrow> ipv6hdr option" where
  "pkt_ip6_hdr pkt = map_option decode_ipv6hdr (skb_deref (pkt_skb pkt) (sk_network_offset (pkt_skb pkt)) 40)"

definition pkt_udp_hdr :: "packet \<Rightarrow> udphdr option" where
  "pkt_udp_hdr pkt = map_option decode_udphdr (skb_deref (pkt_skb pkt) (pkt_transport_offset pkt) 8)"

definition pkt_tcp_hdr :: "packet \<Rightarrow> tcphdr option" where
  "pkt_tcp_hdr pkt = map_option decode_tcphdr (skb_deref (pkt_skb pkt) (pkt_transport_offset pkt) 20)"

definition pkt_icmp4_hdr :: "packet \<Rightarrow> icmphdr option" where
  "pkt_icmp4_hdr pkt = map_option decode_icmphdr (skb_deref (pkt_skb pkt) (pkt_transport_offset pkt) 8)"

definition pkt_icmp6_hdr :: "packet \<Rightarrow> icmphdr option" where
  "pkt_icmp6_hdr pkt = map_option decode_icmphdr (skb_deref (pkt_skb pkt) (pkt_transport_offset pkt) 8)"

definition pkt_frag_hdr :: "packet \<Rightarrow> frag_hdr option option" where
  "pkt_frag_hdr pkt =
     (case pkt_hdr_frag pkt of
        None \<Rightarrow> Some None
      | Some off \<Rightarrow> map_option (Some \<circ> decode_frag_hdr) (skb_deref (pkt_skb pkt) off 8))"

definition pkt_is_outer :: "packet \<Rightarrow> bool" where
  "pkt_is_outer pkt = (\<not> pkt_is_inner pkt)"

definition pkt_is_intrinsic_hairpin :: "packet \<Rightarrow> bool" where
  "pkt_is_intrinsic_hairpin pkt = pkt_is_hairpin pkt"

definition pkt_has_l4_hdr :: "packet \<Rightarrow> bool" where
  "pkt_has_l4_hdr pkt = (pkt_transport_offset pkt \<noteq> pkt_payload_offset pkt)"

definition pkt_l3hdr_len :: "packet \<Rightarrow> nat" where
  "pkt_l3hdr_len pkt = pkt_transport_offset pkt - sk_network_offset (pkt_skb pkt)"

definition pkt_l4hdr_len :: "packet \<Rightarrow> nat" where
  "pkt_l4hdr_len pkt = pkt_payload_offset pkt - pkt_transport_offset pkt"

definition pkt_hdrs_len :: "packet \<Rightarrow> nat" where
  "pkt_hdrs_len pkt = pkt_payload_offset pkt - sk_network_offset (pkt_skb pkt)"

text \<open>\<^verbatim>\<open>l4_proto && ...\<close>: the ICMP header is only read for ICMP packets.\<close>

definition pkt_is_icmp6_error :: "packet \<Rightarrow> bool option" where
  "pkt_is_icmp6_error pkt =
     (if pkt_l4_proto pkt = L4PROTO_ICMP
      then do { hdr \<leftarrow> pkt_icmp6_hdr pkt; Some (is_icmp6_error (ih_type hdr)) }
      else Some False)"

definition pkt_is_icmp4_error :: "packet \<Rightarrow> bool option" where
  "pkt_is_icmp4_error pkt =
     (if pkt_l4_proto pkt = L4PROTO_ICMP
      then do { hdr \<leftarrow> pkt_icmp4_hdr pkt; Some (is_icmp4_error (ih_type hdr)) }
      else Some False)"

section \<open>Validation\<close>

record pkt_metadata =
  m_has_frag_hdr :: bool
  m_frag_offset :: nat
  m_l4_proto :: l4_protocol
  m_l4_offset :: nat
  m_payload_offset :: nat

definition has_inner_pkt4 :: "u8 \<Rightarrow> bool" where
  "has_inner_pkt4 icmp_type = is_icmp4_error icmp_type"

definition has_inner_pkt6 :: "u8 \<Rightarrow> bool" where
  "has_inner_pkt6 icmp6_type = is_icmp6_error icmp6_type"

definition fail_if_shared :: "sk_buff \<Rightarrow> status" where
  "fail_if_shared skb = (if sk_shared skb then Err EINVAL else Ok)"

definition get_tot_len_ipv6 :: "sk_buff \<Rightarrow> nat option" where
  "get_tot_len_ipv6 skb =
     do { payload_len \<leftarrow> skb_deref skb (sk_network_offset skb + 4) 2;
          Some (40 + unat (be16 (payload_len ! 0) (payload_len ! 1))) }"

text \<open>
  The walk over the chain of extension headers. Every header that is skipped was read inside the
  buffer, so the offset stays below its length and the walk ends.
\<close>

function summarize_loop6 :: "sk_buff \<Rightarrow> u8 \<Rightarrow> nat \<Rightarrow> bool \<Rightarrow> pkt_metadata \<Rightarrow> errno + pkt_metadata" where
  "summarize_loop6 skb nexthdr offset is_first meta =
     (if nexthdr = 6
      then let meta = meta\<lparr>m_l4_proto := L4PROTO_TCP, m_l4_offset := offset, m_payload_offset := offset\<rparr>
           in if is_first
              then (case skb_header_pointer skb offset 20 of
                      None \<Rightarrow> Inl EINVAL
                    | Some b \<Rightarrow> Inr (meta\<lparr>m_payload_offset := offset + tcp_hdr_len (decode_tcphdr b)\<rparr>))
              else Inr meta
      else if nexthdr = 17
      then Inr (meta\<lparr>m_l4_proto := L4PROTO_UDP, m_l4_offset := offset,
                     m_payload_offset := (if is_first then offset + 8 else offset)\<rparr>)
      else if nexthdr = 58
      then Inr (meta\<lparr>m_l4_proto := L4PROTO_ICMP, m_l4_offset := offset,
                     m_payload_offset := (if is_first then offset + 8 else offset)\<rparr>)
      else if nexthdr = 44
      then (case skb_header_pointer skb offset 8 of
              None \<Rightarrow> Inl EINVAL
            | Some b \<Rightarrow>
                summarize_loop6 skb (fh_nexthdr (decode_frag_hdr b)) (offset + 8)
                  (is_first_frag6 (Some (decode_frag_hdr b)))
                  (meta\<lparr>m_has_frag_hdr := True, m_frag_offset := offset\<rparr>))
      else if nexthdr = 0 \<or> nexthdr = 43 \<or> nexthdr = 60
      then (case skb_header_pointer skb offset 2 of
              None \<Rightarrow> Inl EINVAL
            | Some b \<Rightarrow> summarize_loop6 skb (b ! 0) (offset + 8 + 8 * unat (b ! 1)) is_first meta)
      else Inr (meta\<lparr>m_l4_proto := L4PROTO_OTHER, m_l4_offset := offset, m_payload_offset := offset\<rparr>))"
  by pat_completeness auto
termination
  by (relation "measure (\<lambda>(skb, _, offset, _). skb_len skb - offset)")
    (auto simp: skb_header_pointer_def split: if_splits)

declare summarize_loop6.simps [simp del]

text \<open>The first next-header value is read through a pointer into the buffer.\<close>

definition summarize_skb6 :: "sk_buff \<Rightarrow> nat \<Rightarrow> (errno + pkt_metadata) option" where
  "summarize_skb6 skb hdr6_offset =
     do { nexthdr \<leftarrow> skb_deref skb (sk_network_offset skb + hdr6_offset + 6) 1;
          Some (summarize_loop6 skb (nexthdr ! 0) (hdr6_offset + 40) True
            \<lparr>m_has_frag_hdr = False, m_frag_offset = 0, m_l4_proto = L4PROTO_OTHER, m_l4_offset = 0,
             m_payload_offset = 0\<rparr>) }"

text \<open>
  The checks on the packet inside an ICMP error. Pulling may change which bytes are linear, so
  the buffer is returned.
\<close>

definition validate_inner6 :: "(nat \<Rightarrow> bool) \<Rightarrow> sk_buff \<Rightarrow> pkt_metadata \<Rightarrow> (status \<times> sk_buff) option" where
  "validate_inner6 grow skb outer_meta =
     (case skb_header_pointer skb (m_payload_offset outer_meta) 40 of
        None \<Rightarrow> Some (Err EINVAL, skb)
      | Some b \<Rightarrow>
          if ip6_version (decode_ipv6hdr b) \<noteq> 6 then Some (Err EINVAL, skb)
          else
            do { r \<leftarrow> summarize_skb6 skb (m_payload_offset outer_meta);
                 Some (case r of
                         Inl error \<Rightarrow> (Err error, skb)
                       | Inr meta \<Rightarrow>
                           let frag = skb_header_pointer skb (m_frag_offset meta) 8;
                               icmp = skb_header_pointer skb (m_l4_offset meta) 8
                           in if m_has_frag_hdr meta \<and> frag = None then (Err EINVAL, skb)
                              else if m_has_frag_hdr meta \<and> \<not> is_first_frag6 (map_option decode_frag_hdr frag)
                              then (Err EINVAL, skb)
                              else if m_l4_proto meta = L4PROTO_ICMP \<and> icmp = None then (Err EINVAL, skb)
                              else if m_l4_proto meta = L4PROTO_ICMP \<and> has_inner_pkt6 (ih_type (decode_icmphdr (the icmp)))
                              then (Err EINVAL, skb)
                              else (case pskb_may_pull grow skb (m_payload_offset meta) of
                                      (ok, skb') \<Rightarrow> (if ok then Ok else Err EINVAL, skb'))) })"

definition handle_icmp6 :: "xlat_type \<Rightarrow> (nat \<Rightarrow> bool) \<Rightarrow> sk_buff \<Rightarrow> pkt_metadata \<Rightarrow> (status \<times> sk_buff) option" where
  "handle_icmp6 xlat grow skb meta =
     (case skb_header_pointer skb (m_l4_offset meta) 8 of
        None \<Rightarrow> Some (Err EINVAL, skb)
      | Some b \<Rightarrow>
          do { (error, skb) \<leftarrow> (if has_inner_pkt6 (ih_type (decode_icmphdr b))
                               then validate_inner6 grow skb meta else Some (Ok, skb));
               Some (if error \<noteq> Ok then (error, skb)
                     else if xlat = XLAT_SIIT \<and> m_has_frag_hdr meta \<and> is_icmp6_info (ih_type (decode_icmphdr b))
                     then (case skb_header_pointer skb (m_frag_offset meta) 8 of
                             None \<Rightarrow> (Err EINVAL, skb)
                           | Some f \<Rightarrow>
                               if is_fragmented_ipv6 (Some (decode_frag_hdr f)) then (Err EINVAL, skb)
                               else (Ok, skb))
                     else (Ok, skb)) })"

definition pkt_init_ipv6 :: "xlat_type \<Rightarrow> (nat \<Rightarrow> bool) \<Rightarrow> sk_buff \<Rightarrow> (errno + packet) option" where
  "pkt_init_ipv6 xlat grow skb =
     (if fail_if_shared skb \<noteq> Ok then Some (Inl EINVAL)
      else
        do { tot_len \<leftarrow> get_tot_len_ipv6 skb;
             (if skb_len skb \<noteq> tot_len then Some (Inl EINVAL)
              else
                do { r \<leftarrow> summarize_skb6 skb (sk_network_offset skb);
                     (case r of
                        Inl error \<Rightarrow> Some (Inl error)
                      | Inr meta \<Rightarrow>
                          do { (error, skb) \<leftarrow> (if m_l4_proto meta = L4PROTO_ICMP
                                               then handle_icmp6 xlat grow skb meta else Some (Ok, skb));
                               Some (case error of
                                       Err e \<Rightarrow> Inl e
                                     | _ \<Rightarrow>
                                         (case pskb_may_pull grow skb (m_payload_offset meta) of
                                            (ok, skb) \<Rightarrow>
                                              if \<not> ok then Inl EINVAL
                                              else Inr \<lparr>pkt_skb = skb, pkt_l3_proto = L3PROTO_IPV6,
                                                        pkt_l4_proto = m_l4_proto meta, pkt_is_inner = False,
                                                        pkt_is_hairpin = False,
                                                        pkt_hdr_frag = (if m_has_frag_hdr meta
                                                          then Some (m_frag_offset meta) else None),
                                                        pkt_transport_offset = m_l4_offset meta,
                                                        pkt_payload_offset = m_payload_offset meta\<rparr>)) }) }) })"

definition validate_inner4 :: "(nat \<Rightarrow> bool) \<Rightarrow> sk_buff \<Rightarrow> pkt_metadata \<Rightarrow> status \<times> sk_buff" where
  "validate_inner4 grow skb meta =
     (let offset = m_payload_offset meta
      in case skb_header_pointer skb offset 20 of
           None \<Rightarrow> (Err EINVAL, skb)
         | Some b \<Rightarrow>
             let ip4 = decode_iphdr b; ihl = 4 * unat (ip4_ihl ip4); offset = offset + ihl
             in if ip4_version ip4 \<noteq> 4 then (Err EINVAL, skb)
                else if ihl < 20 then (Err EINVAL, skb)
                else if unat (ip4_tot_len ip4) < ihl then (Err EINVAL, skb)
                else if \<not> is_first_frag4 ip4 then (Err EINVAL, skb)
                else
                  (let pull = (\<lambda>offset. case pskb_may_pull grow skb offset of
                                         (ok, skb') \<Rightarrow> (if ok then Ok else Err EINVAL, skb'))
                   in if ip4_protocol ip4 = 6
                      then (case skb_header_pointer skb offset 20 of
                              None \<Rightarrow> (Err EINVAL, skb)
                            | Some t \<Rightarrow> pull (offset + tcp_hdr_len (decode_tcphdr t)))
                      else if ip4_protocol ip4 = 17 then pull (offset + 8)
                      else if ip4_protocol ip4 = 1 then pull (offset + 8)
                      else pull offset))"

definition handle_icmp4 :: "xlat_type \<Rightarrow> (nat \<Rightarrow> bool) \<Rightarrow> sk_buff \<Rightarrow> pkt_metadata \<Rightarrow> (status \<times> sk_buff) option" where
  "handle_icmp4 xlat grow skb meta =
     (case skb_header_pointer skb (m_l4_offset meta) 8 of
        None \<Rightarrow> Some (Err EINVAL, skb)
      | Some b \<Rightarrow>
          (case (if has_inner_pkt4 (ih_type (decode_icmphdr b)) then validate_inner4 grow skb meta else (Ok, skb)) of
             (error, skb) \<Rightarrow>
               if error \<noteq> Ok then Some (error, skb)
               else if xlat = XLAT_SIIT \<and> is_icmp4_info (ih_type (decode_icmphdr b))
               then do { h \<leftarrow> skb_deref skb (sk_network_offset skb) 20;
                         Some (if is_fragmented_ipv4 (decode_iphdr h) then (Err EINVAL, skb) else (Ok, skb)) }
               else Some (Ok, skb)))"

definition summarize_skb4 :: "xlat_type \<Rightarrow> (nat \<Rightarrow> bool) \<Rightarrow> sk_buff \<Rightarrow> ((errno + pkt_metadata) \<times> sk_buff) option" where
  "summarize_skb4 xlat grow skb =
     do { h \<leftarrow> skb_deref skb (sk_network_offset skb) 20;
          let hdr4 = decode_iphdr h;
              offset = sk_network_offset skb + unat (ip4_ihl hdr4) * 4;
              meta = \<lparr>m_has_frag_hdr = False, m_frag_offset = 0, m_l4_proto = L4PROTO_OTHER,
                      m_l4_offset = offset, m_payload_offset = offset\<rparr>
          in if ip4_protocol hdr4 = 6
             then (let meta = meta\<lparr>m_l4_proto := L4PROTO_TCP\<rparr>
                   in if is_first_frag4 hdr4
                      then (case skb_header_pointer skb offset 20 of
                              None \<Rightarrow> Some (Inl EINVAL, skb)
                            | Some t \<Rightarrow> Some (Inr (meta\<lparr>m_payload_offset := offset + tcp_hdr_len (decode_tcphdr t)\<rparr>), skb))
                      else Some (Inr meta, skb))
             else if ip4_protocol hdr4 = 17
             then (let meta = meta\<lparr>m_l4_proto := L4PROTO_UDP\<rparr>
                   in Some (Inr (if is_first_frag4 hdr4 then meta\<lparr>m_payload_offset := offset + 8\<rparr> else meta), skb))
             else if ip4_protocol hdr4 = 1
             then (let meta = meta\<lparr>m_l4_proto := L4PROTO_ICMP\<rparr>;
                       meta = (if is_first_frag4 hdr4 then meta\<lparr>m_payload_offset := offset + 8\<rparr> else meta)
                   in do { (error, skb) \<leftarrow> handle_icmp4 xlat grow skb meta;
                           Some (case error of Err e \<Rightarrow> Inl e | _ \<Rightarrow> Inr meta, skb) })
             else Some (Inr meta, skb) }"

definition pkt_init_ipv4 :: "xlat_type \<Rightarrow> (nat \<Rightarrow> bool) \<Rightarrow> sk_buff \<Rightarrow> (errno + packet) option" where
  "pkt_init_ipv4 xlat grow skb =
     (if fail_if_shared skb \<noteq> Ok then Some (Inl EINVAL)
      else
        do { (r, skb) \<leftarrow> summarize_skb4 xlat grow skb;
             Some (case r of
                     Inl error \<Rightarrow> Inl error
                   | Inr meta \<Rightarrow>
                       (case pskb_may_pull grow skb (m_payload_offset meta) of
                          (ok, skb) \<Rightarrow>
                            if \<not> ok then Inl EINVAL
                            else Inr \<lparr>pkt_skb = skb, pkt_l3_proto = L3PROTO_IPV4,
                                      pkt_l4_proto = m_l4_proto meta, pkt_is_inner = False,
                                      pkt_is_hairpin = False, pkt_hdr_frag = None,
                                      pkt_transport_offset = m_l4_offset meta,
                                      pkt_payload_offset = m_payload_offset meta\<rparr>)) })"

end
