(* ===== verification/Port_Allocator.thy ===== *)
theory Port_Allocator
  imports Bib Pool4_Db Packet
begin

text \<open>
  The port allocator (\<^verbatim>\<open>mod/stateful/bib/port_allocator.c\<close>): RFC 6056, algorithm 3.

  The kernel's hash transform is a parameter \<open>crypto\<close>. \<open>pool4_env\<close> bundles what the IPv4 pool is
  asked about: the pool itself, its hash function, the node's devices, and where a packet with a
  given mark is routed.
\<close>

record crypto =
  crypto_hash_init :: "errno option"
  crypto_hash_digest :: "u8 list \<Rightarrow> errno + u32 list"

record palloc_db = bib_db +
  secret_key :: "u8 list"
  next_ephemeral :: u32

text \<open>
  \<^verbatim>\<open>palloc_init\<close>: whether \<^verbatim>\<open>kmalloc\<close> succeeds, the random bytes that fill the key and the counter,
  and the outcome of \<^verbatim>\<open>crypto_alloc_hash\<close> are arguments; \<^verbatim>\<open>PAGE_SIZE\<close> exceeds 128.
\<close>

definition palloc_init :: "bool \<Rightarrow> (nat \<Rightarrow> u8) \<Rightarrow> u32 \<Rightarrow> errno option \<Rightarrow> 'a palloc_db_scheme \<Rightarrow>
    status \<times> 'a palloc_db_scheme" where
  "palloc_init kmalloc_ok random_byte tmp alloc_hash s =
     (let secret_key_len = 128
      in if \<not> kmalloc_ok then (Err ENOMEM, s)
         else let s = s\<lparr>secret_key := map random_byte [0..<secret_key_len], next_ephemeral := tmp\<rparr>
              in case alloc_hash of
                   Some error \<Rightarrow> (Err error, s\<lparr>secret_key := []\<rparr>)
                 | None \<Rightarrow> (Ok, s))"

definition palloc_destroy :: "'a palloc_db_scheme \<Rightarrow> 'a palloc_db_scheme" where
  "palloc_destroy s = s\<lparr>secret_key := []\<rparr>"

definition in6_bytes :: "in6_addr \<Rightarrow> u8 list" where
  "in6_bytes a = map (s6_addr a) [0..<16]"

text \<open>The port is hashed as it lies in memory (little endian).\<close>

definition palloc_f :: "crypto \<Rightarrow> u8 list \<Rightarrow> in6_addr \<Rightarrow> in6_addr \<Rightarrow> u16 \<Rightarrow> (errno + u32) option" where
  "palloc_f c key local_ip remote_ip remote_port =
     (let sg = in6_bytes local_ip @ in6_bytes remote_ip @
               [ucast remote_port, ucast (drop_bit 8 remote_port)] @ key
      in case crypto_hash_init c of
           Some error \<Rightarrow> Some (Inl error)
         | None \<Rightarrow>
             (case crypto_hash_digest c sg of
                Inl error \<Rightarrow> Some (Inl error)
              | Inr as32 \<Rightarrow> do { r \<leftarrow> list_at as32 3; Some (Inr r) }))"

text \<open>
  The state of the callback: the counter and \<^verbatim>\<open>*result\<close> once it is written; \<open>None\<close> after a fault in the
  BIB lookup, which ends the iteration.
\<close>

type_synonym palloc_args = "(u32 \<times> ipv4_transport_addr option) option"

definition choose_port :: "'a bib_db_scheme \<Rightarrow> l4_protocol \<Rightarrow> ipv4_transport_addr \<Rightarrow> palloc_args \<Rightarrow>
    status \<times> palloc_args" where
  "choose_port s proto addr args =
     (case args of
        None \<Rightarrow> (Stop, None)
      | Some (ephemeral, result) \<Rightarrow>
          (case bibdb_contains4 addr proto s of
             None \<Rightarrow> (Stop, None)
           | Some found \<Rightarrow>
               if \<not> found then (Stop, Some (ephemeral + 1, Some addr))
               else (Ok, Some (ephemeral + 1, result))))"

record pool4_env =
  pe_hash_32 :: hash_32
  pe_devs :: "in_device option list"
  pe_route4 :: "u32 \<Rightarrow> in_addr \<Rightarrow> in_device option option"
  pe_pool4 :: pool4_db

definition palloc_allocate :: "crypto \<Rightarrow> 'b pool4_env_scheme \<Rightarrow> u32 \<Rightarrow> tuple \<Rightarrow> in_addr \<Rightarrow>
    'a palloc_db_scheme \<Rightarrow> ((errno + ipv4_transport_addr) \<times> 'a palloc_db_scheme) option" where
  "palloc_allocate c env mark tuple6 daddr s =
     do { r \<leftarrow> palloc_f c (secret_key s) (ta6_l3 (addr6 (t_src tuple6))) (ta6_l3 (addr6 (t_dst tuple6)))
                 (ta6_l4 (addr6 (t_dst tuple6)));
          (case r of
             Inl error \<Rightarrow> Some (Inl error, s)
           | Inr offset \<Rightarrow>
               do { (error, args) \<leftarrow>
                      pool4db_foreach_taddr4 (pe_hash_32 env) (pe_devs env) (pe_route4 env mark daddr)
                        (pe_pool4 env) mark (t_l4_proto tuple6) daddr
                        (choose_port s (t_l4_proto tuple6)) (Some (next_ephemeral s, None))
                        (offset + next_ephemeral s);
                    (ephemeral, result) \<leftarrow> args;
                    let s' = s\<lparr>next_ephemeral := ephemeral\<rparr>
                    in case error of
                         Stop \<Rightarrow> do { ta \<leftarrow> result; Some (Inr ta, s') }
                       | Err e \<Rightarrow> Some (Inl e, s')
                       | Ok \<Rightarrow> Some (Inl ESRCH, s') }) }"

section \<open>What it allocates\<close>

text \<open>The transport addresses the pool offers for a packet, or the error of looking them up.\<close>

definition palloc_candidates :: "'b pool4_env_scheme \<Rightarrow> u32 \<Rightarrow> l4_protocol \<Rightarrow> in_addr \<Rightarrow> pool4_table list list \<Rightarrow>
    errno + ipv4_transport_addr list" where
  "palloc_candidates env mark proto daddr database =
     (if concat database = []
      then (case pe_route4 env mark daddr of
              None \<Rightarrow> Inl EINVAL
            | Some dev \<Rightarrow>
                (case pick_addr (pe_devs env) dev daddr of
                   Inl error \<Rightarrow> Inl error
                 | Inr saddr \<Rightarrow> Inr (default_ports saddr)))
      else (case find (has_key mark proto) (concat database) of
              None \<Rightarrow> Inl ESRCH
            | Some table \<Rightarrow> Inr (pool4_taddrs table)))"

definition bib_taken :: "'a bib_db_scheme \<Rightarrow> l4_protocol \<Rightarrow> ipv4_transport_addr \<Rightarrow> bool" where
  "bib_taken s proto ta \<longleftrightarrow> (\<exists>p b. bibs s p = Some b \<and> b_l4_proto b = proto \<and> b_ipv4 b = ta)"

definition env_ok :: "'b pool4_env_scheme \<Rightarrow> pool4_table list list \<Rightarrow> bool" where
  "env_ok env database \<longleftrightarrow> hash_range (pe_hash_32 env) \<and> db_rep (pe_hash_32 env) (pe_pool4 env) database"

text \<open>The callback on a well-formed BIB is a search for the first address that is not taken.\<close>

lemma choose_port_search:
  assumes "bib_wf s"
  shows "foreach_cb (choose_port s proto) tas (Some (eph, r)) =
    (case find (\<lambda>ta. \<not> bib_taken s proto ta) tas of
       None \<Rightarrow> (Ok, Some (eph + word_of_nat (length tas), r))
     | Some ta \<Rightarrow> (Stop, Some (eph + 1 + word_of_nat (length (takeWhile (bib_taken s proto) tas)), Some ta)))"
  by (induction tas arbitrary: eph)
    (auto simp: choose_port_def bibdb_contains4_iff [OF assms] bib_taken_def algebra_simps split: option.splits)

lemma find_table_find:
  assumes "hash_range h" "db_rep h p database"
  shows "find_table h p mark proto = Some (find (has_key mark proto) (concat database))"
proof -
  obtain r where r: "find_table h p mark proto = Some r"
    "\<forall>t. r = Some t \<longleftrightarrow> t \<in> set (concat database) \<and> has_key mark proto t"
    using find_table_rep [OF assms] by blast
  have "r = find (has_key mark proto) (concat database)"
  proof (cases r)
    case None
    then show ?thesis using r(2) by (metis find_None_iff option.distinct(1))
  next
    case (Some t)
    then obtain t' where "find (has_key mark proto) (concat database) = Some t'"
      using r(2) by (metis find_None_iff not_Some_eq)
    then show ?thesis using r(2) Some find_SomeD by metis
  qed
  then show ?thesis using r(1) by simp
qed

lemma find_rotate_iff: "find P (rotate k xs) = None \<longleftrightarrow> (\<forall>x \<in> set xs. \<not> P x)"
  by (auto simp: find_None_iff)

lemma palloc_foreach:
  assumes wf: "bib_wf s" and env: "env_ok env database"
  shows "pool4db_foreach_taddr4 (pe_hash_32 env) (pe_devs env) (pe_route4 env mark daddr) (pe_pool4 env)
      mark proto daddr (choose_port s proto) (Some (eph, None)) off =
    Some (case palloc_candidates env mark proto daddr database of
            Inl e \<Rightarrow> (Err e, Some (eph, None))
          | Inr tas \<Rightarrow> foreach_cb (choose_port s proto) (rotate (unat off) tas) (Some (eph, None)))"
proof -
  have rep: "db_rep (pe_hash_32 env) (pe_pool4 env) database" and hash: "hash_range (pe_hash_32 env)"
    using env by (simp_all add: env_ok_def)
  show ?thesis
  proof (cases "concat database = []")
    case True
    then have "pool4db_is_empty (pe_pool4 env) = Some True" using pool4db_is_empty_rep [OF rep] by simp
    then show ?thesis
      unfolding pool4db_foreach_taddr4_def palloc_candidates_def pool4empty_foreach_taddr4_def
        foreach_port_rotate if_P [OF True]
      by (cases "pe_route4 env mark daddr") (simp_all split: sum.split)
  next
    case False
    then have "pool4db_is_empty (pe_pool4 env) = Some False" unfolding pool4db_is_empty_rep [OF rep] by blast
    moreover have "pool4table_foreach_taddr4 t (choose_port s proto) a off =
        foreach_cb (choose_port s proto) (rotate (unat off) (pool4_taddrs t)) a"
      if "find (has_key mark proto) (concat database) = Some t" for t a
    proof -
      have "t \<in> set (concat database)" using find_SomeD [OF that] by (rule conjunct1)
      then have "pool4table_inv t" by (rule db_rep_tables(1) [OF rep])
      then show ?thesis by (rule table_source.iterate_rotate)
    qed
    ultimately show ?thesis
      using False find_table_find [OF hash rep, of mark proto]
      by (simp add: pool4db_foreach_taddr4_def palloc_candidates_def del: concat_eq_Nil_conv split: option.split)
  qed
qed

lemma palloc_allocate_eq:
  assumes wf: "bib_wf s" and env: "env_ok env database"
    and f: "palloc_f c (secret_key s) (ta6_l3 (addr6 (t_src tuple6))) (ta6_l3 (addr6 (t_dst tuple6)))
      (ta6_l4 (addr6 (t_dst tuple6))) = Some r"
  shows "palloc_allocate c env mark tuple6 daddr s =
    (case r of
       Inl e \<Rightarrow> Some (Inl e, s)
     | Inr off \<Rightarrow>
         (case palloc_candidates env mark (t_l4_proto tuple6) daddr database of
            Inl e \<Rightarrow> Some (Inl e, s)
          | Inr tas \<Rightarrow>
              let order = rotate (unat (off + next_ephemeral s)) tas;
                  taken = bib_taken s (t_l4_proto tuple6)
              in case find (\<lambda>ta. \<not> taken ta) order of
                   None \<Rightarrow> Some (Inl ESRCH, s\<lparr>next_ephemeral := next_ephemeral s + word_of_nat (length tas)\<rparr>)
                 | Some ta \<Rightarrow> Some (Inr ta, s\<lparr>next_ephemeral := next_ephemeral s + 1 +
                     word_of_nat (length (takeWhile taken order))\<rparr>)))"
  using palloc_foreach [OF wf env, of mark daddr "t_l4_proto tuple6"] f
  by (simp add: palloc_allocate_def choose_port_search [OF wf] Let_def split: sum.split option.split)

text \<open>
  C14: with a well-formed BIB and pool, \<^verbatim>\<open>palloc_allocate\<close> always returns. What it hands out is a
  transport address that the pool offers for the packet and that no BIB entry of the protocol
  uses. It reports that the pool is exhausted exactly when every offered address is in use, and the
  search starts where the hash and the ephemeral counter say and wraps around.
\<close>

theorem palloc_allocate_correct:
  assumes "bib_wf s" "env_ok env database"
    "palloc_f c (secret_key s) (ta6_l3 (addr6 (t_src tuple6))) (ta6_l3 (addr6 (t_dst tuple6)))
      (ta6_l4 (addr6 (t_dst tuple6))) = Some (Inr off)"
    "palloc_candidates env mark (t_l4_proto tuple6) daddr database = Inr tas"
  shows "\<exists>res s'. palloc_allocate c env mark tuple6 daddr s = Some (res, s') \<and> bibs s' = bibs s \<and>
    (res = Inl ESRCH \<longleftrightarrow> (\<forall>ta \<in> set tas. bib_taken s (t_l4_proto tuple6) ta)) \<and>
    (\<forall>e. res = Inl e \<longrightarrow> e = ESRCH) \<and>
    (\<forall>ta. res = Inr ta \<longrightarrow> ta \<in> set tas \<and> \<not> bib_taken s (t_l4_proto tuple6) ta \<and>
       (\<exists>before after. rotate (unat (off + next_ephemeral s)) tas = before @ ta # after \<and>
          (\<forall>x \<in> set before. bib_taken s (t_l4_proto tuple6) x)))"
proof (cases "find (\<lambda>ta. \<not> bib_taken s (t_l4_proto tuple6) ta) (rotate (unat (off + next_ephemeral s)) tas)")
  case None
  then have "\<forall>ta \<in> set tas. bib_taken s (t_l4_proto tuple6) ta"
    using find_rotate_iff [of "\<lambda>ta. \<not> bib_taken s (t_l4_proto tuple6) ta"] by blast
  then show ?thesis using palloc_allocate_eq [OF assms(1-3), of mark daddr] assms(4) None by (simp add: Let_def)
next
  case (Some ta)
  then obtain i where i: "i < length tas" "ta = rotate (unat (off + next_ephemeral s)) tas ! i"
    "\<not> bib_taken s (t_l4_proto tuple6) ta"
    "\<forall>j < i. bib_taken s (t_l4_proto tuple6) (rotate (unat (off + next_ephemeral s)) tas ! j)"
    by (auto simp: find_Some_iff)
  have "ta \<in> set tas" using find_SomeD [OF Some] by simp
  moreover have "rotate (unat (off + next_ephemeral s)) tas =
      take i (rotate (unat (off + next_ephemeral s)) tas) @ ta # drop (Suc i) (rotate (unat (off + next_ephemeral s)) tas)"
    using i(1,2) by (simp add: id_take_nth_drop)
  moreover have "\<forall>x \<in> set (take i (rotate (unat (off + next_ephemeral s)) tas)). bib_taken s (t_l4_proto tuple6) x"
    using i(1,4) by (auto simp: in_set_conv_nth)
  ultimately show ?thesis
    using palloc_allocate_eq [OF assms(1-3), of mark daddr] assms(4) Some i(3) by (simp add: Let_def) blast
qed

lemma bib_wf_empty:
  assumes "bibs s = Map.empty" "bib_tcp s = bibtable_init" "bib_udp s = bibtable_init" "bib_icmp s = bibtable_init"
  shows "bib_wf s"
proof -
  have t: "t = bibtable_init" if "bib_get_table proto s = Some t" for proto t
    using that assms by (cases proto) (auto simp: bib_get_table_def)
  moreover have "bib_nodes bibtable_init = {}" by (simp add: bib_nodes_def bibtable_init_def)
  ultimately have "bib_live s = {}" unfolding bib_live_def by blast
  moreover have "bib_db_ok s" unfolding bib_db_ok_def using t bib_table_ok_empty by metis
  ultimately show ?thesis using assms(1) by (simp add: bib_wf_def)
qed

definition sample_palloc :: palloc_db where
  "sample_palloc = \<lparr>bibs = Map.empty, bib_tcp = bibtable_init, bib_udp = bibtable_init, bib_icmp = bibtable_init,
     secret_key = [1, 2, 3], next_ephemeral = 7\<rparr>"

definition sample_crypto :: crypto where
  "sample_crypto = \<lparr>crypto_hash_init = None, crypto_hash_digest = (\<lambda>_. Inr [0, 0, 0, 5])\<rparr>"

definition sample_env :: pool4_env where
  "sample_env = \<lparr>pe_hash_32 = (\<lambda>_ _. 0), pe_devs = [],
     pe_route4 = (\<lambda>_ _. Some (Some [\<lparr>ifa_universe = True, ifa_address = 0xC0000201, ifa_local = 0xC0000201, ifa_mask = 0xFFFFFF00\<rparr>])),
     pe_pool4 = sample_db\<rparr>"

lemma sample_env_ok: "env_ok sample_env [[], []]"
  using sample_db_rep by (simp add: env_ok_def sample_env_def hash_range_def)

definition sample_tuple6 :: tuple where
  "sample_tuple6 = \<lparr>t_src = Addr6 sample_ta6, t_dst = Addr6 \<lparr>ta6_l3 = 2, ta6_l4 = 80\<rparr>, t_l3_proto = L3PROTO_IPV6,
     t_l4_proto = L4PROTO_UDP\<rparr>"

theorem palloc_allocate_correct_witness:
  "\<exists>ta s'. palloc_allocate sample_crypto sample_env 0 sample_tuple6 0xC0000209 sample_palloc = Some (Inr ta, s') \<and>
     ta4_l3 ta = 0xC0000201"
proof -
  have wf: "bib_wf sample_palloc" by (rule bib_wf_empty) (simp_all add: sample_palloc_def)
  have f: "palloc_f sample_crypto (secret_key sample_palloc) (ta6_l3 (addr6 (t_src sample_tuple6)))
      (ta6_l3 (addr6 (t_dst sample_tuple6))) (ta6_l4 (addr6 (t_dst sample_tuple6))) = Some (Inr 5)"
    by (simp add: palloc_f_def sample_crypto_def list_at_def Let_def)
  have c: "palloc_candidates sample_env 0 (t_l4_proto sample_tuple6) 0xC0000209 [[], []] = Inr (default_ports 0xC0000201)"
    by (simp add: palloc_candidates_def sample_env_def pick_addr_def inet_ifa_match_def)
  have none: "\<not> bib_taken sample_palloc proto ta" for proto ta
    by (simp add: bib_taken_def sample_palloc_def)
  have "\<lparr>ta4_l3 = 0xC0000201, ta4_l4 = 65535\<rparr> \<in> set (default_ports 0xC0000201)"
    unfolding set_default_ports default_port_bounds by simp
  then have "\<not> (\<forall>ta \<in> set (default_ports 0xC0000201). bib_taken sample_palloc (t_l4_proto sample_tuple6) ta)"
    using none by blast
  then obtain ta s' where "palloc_allocate sample_crypto sample_env 0 sample_tuple6 0xC0000209 sample_palloc = Some (Inr ta, s')"
      "ta \<in> set (default_ports 0xC0000201)"
    using palloc_allocate_correct [OF wf sample_env_ok f c] by (metis sumE)
  then show ?thesis by (auto simp: set_default_ports)
qed

end
