(* ===== verification/Icmp_Wrapper.thy ===== *)
theory Icmp_Wrapper
  imports Packet
begin

text \<open>
  Sending ICMP errors (\<^verbatim>\<open>mod/common/icmp_wrapper.c\<close>) and counting dropped packets (\<^verbatim>\<open>mod/common/stats.c\<close>).

  What leaves the module is recorded as \<open>out_event\<close> values: the kernel calls \<^verbatim>\<open>icmp_send\<close> and
  \<^verbatim>\<open>icmpv6_send\<close> with their arguments, TCP probes, and increments of the kernel's counters. The packets are
  their own originals, as the ones of the incoming side are, and \<^verbatim>\<open>skb->protocol\<close> is the packet's
  layer-3 protocol.
\<close>

datatype icmp_error_code =
    ICMPERR_SILENT | ICMPERR_ADDR_UNREACHABLE | ICMPERR_PORT_UNREACHABLE | ICMPERR_PROTO_UNREACHABLE
  | ICMPERR_HOP_LIMIT | ICMPERR_FRAG_NEEDED | ICMPERR_HDR_FIELD | ICMPERR_SRC_ROUTE | ICMPERR_FILTER

datatype ip_stat = IPSTATS_MIB_INDISCARDS | IPSTATS_MIB_INNOROUTES | IPSTATS_MIB_INADDRERRORS | IPSTATS_MIB_INHDRERRORS
  | IPSTATS_MIB_INUNKNOWNPROTOS

text \<open>A probe carries the addresses and ports of the TCP segment.\<close>

datatype out_event =
    Icmp_send sk_buff u8 u8 u32
  | Icmpv6_send sk_buff u8 u8 u32
  | Probe ipv6hdr tcphdr
  | Inc_stats l3_protocol ip_stat

definition icmp4_send :: "sk_buff \<Rightarrow> icmp_error_code \<Rightarrow> u32 \<Rightarrow> out_event list" where
  "icmp4_send skb error info =
     (case error of
        ICMPERR_ADDR_UNREACHABLE \<Rightarrow> [Icmp_send skb 3 1 info]
      | ICMPERR_PORT_UNREACHABLE \<Rightarrow> [Icmp_send skb 3 3 info]
      | ICMPERR_PROTO_UNREACHABLE \<Rightarrow> [Icmp_send skb 3 2 info]
      | ICMPERR_HOP_LIMIT \<Rightarrow> [Icmp_send skb 11 0 info]
      | ICMPERR_FRAG_NEEDED \<Rightarrow> [Icmp_send skb 3 4 info]
      | ICMPERR_FILTER \<Rightarrow> [Icmp_send skb 3 13 info]
      | ICMPERR_SRC_ROUTE \<Rightarrow> [Icmp_send skb 3 5 info]
      | _ \<Rightarrow> [])"

definition icmp6_send :: "sk_buff \<Rightarrow> icmp_error_code \<Rightarrow> u32 \<Rightarrow> out_event list" where
  "icmp6_send skb error info =
     (case error of
        ICMPERR_ADDR_UNREACHABLE \<Rightarrow> [Icmpv6_send skb 1 3 info]
      | ICMPERR_PORT_UNREACHABLE \<Rightarrow> [Icmpv6_send skb 1 4 info]
      | ICMPERR_PROTO_UNREACHABLE \<Rightarrow> [Icmpv6_send skb 1 4 info]
      | ICMPERR_HOP_LIMIT \<Rightarrow> [Icmpv6_send skb 3 0 info]
      | ICMPERR_FILTER \<Rightarrow> [Icmpv6_send skb 1 1 info]
      | ICMPERR_HDR_FIELD \<Rightarrow> [Icmpv6_send skb 4 0 info]
      | ICMPERR_FRAG_NEEDED \<Rightarrow> [Icmpv6_send skb 2 0 info]
      | _ \<Rightarrow> [])"

text \<open>\<open>route4_input\<close> tells whether the kernel finds an input route for the packet.\<close>

definition icmp64_send :: "(packet \<Rightarrow> bool) \<Rightarrow> packet \<Rightarrow> icmp_error_code \<Rightarrow> u32 \<Rightarrow> out_event list" where
  "icmp64_send route4_input pkt error info =
     (if sk_dev (pkt_skb pkt) = None then []
      else case pkt_l3_proto pkt of
             L3PROTO_IPV4 \<Rightarrow> (if \<not> route4_input pkt then [] else icmp4_send (pkt_skb pkt) error info)
           | L3PROTO_IPV6 \<Rightarrow> icmp6_send (pkt_skb pkt) error info)"

definition validate_skb :: "sk_buff \<Rightarrow> status" where
  "validate_skb skb =
     (case sk_dev skb of
        None \<Rightarrow> Err EINVAL
      | Some dev \<Rightarrow> if \<not> nd_net dev then Err EINVAL else Ok)"

definition inc_stats6 :: "sk_buff \<Rightarrow> ip_stat \<Rightarrow> out_event list" where
  "inc_stats6 skb field =
     (case sk_dev skb of
        None \<Rightarrow> []
      | Some dev \<Rightarrow> if nd_inet6 dev then [Inc_stats L3PROTO_IPV6 field] else [])"

definition inc_stats4 :: "sk_buff \<Rightarrow> ip_stat \<Rightarrow> out_event list" where
  "inc_stats4 skb field = [Inc_stats L3PROTO_IPV4 field]"

definition inc_stats :: "packet \<Rightarrow> ip_stat \<Rightarrow> out_event list" where
  "inc_stats pkt field =
     (if validate_skb (pkt_skb pkt) \<noteq> Ok then []
      else case pkt_l3_proto pkt of
             L3PROTO_IPV6 \<Rightarrow> inc_stats6 (pkt_skb pkt) field
           | L3PROTO_IPV4 \<Rightarrow> inc_stats4 (pkt_skb pkt) field)"

end
