(* ===== verification/Session_Entry.thy ===== *)
theory Session_Entry
  imports Port_Allocator Icmp_Wrapper "HOL-Library.Multiset"
begin

text \<open>
  Session entries (\<^verbatim>\<open>mod/stateful/session/entry.c\<close>).

  Like BIB entries, session entries live in a heap and are reference counted; every session owns
  one reference of its BIB entry. The state extends the port allocator's (which extends the BIB)
  with the heap of sessions, the kernel's clock and the log of what was sent.

  The accounting of references is by tokens: a multiset \<open>B\<close> of pointers stands for the references
  to BIB entries that are held outside of the sessions. \<open>refs_ok B s\<close> says that every
  BIB entry's counter is the number of sessions that point to it plus the number of its tokens.
\<close>

section \<open>Entries\<close>

datatype tcp_state = CLOSED | V6_INIT | V4_INIT | ESTABLISHED | V4_FIN_RCV | V6_FIN_RCV
  | V4_FIN_V6_FIN_RCV | TRANS

text \<open>\<^verbatim>\<open>session->expirer\<close> points to one of the two timers of the session's table.\<close>

datatype expirer = Est_timer | Trans_timer

record session_entry =
  se_remote6 :: ipv6_transport_addr
  se_local6 :: ipv6_transport_addr
  se_local4 :: ipv4_transport_addr
  se_remote4 :: ipv4_transport_addr
  se_update_time :: u64
  se_bib :: "ptr option"
  se_refcounter :: int
  se_expirer :: "expirer option"
  se_l4_proto :: l4_protocol
  se_state :: tcp_state
  se_tree6_hook :: bool
  se_tree4_hook :: bool

type_synonym session_heap = "ptr \<rightharpoonup> session_entry"

type_synonym session_alloc = "session_heap \<Rightarrow> ptr option"

definition session_alloc_ok :: "session_alloc \<Rightarrow> bool" where
  "session_alloc_ok alloc \<longleftrightarrow> (\<forall>h p. alloc h = Some p \<longrightarrow> h p = None)"

record sess_db = palloc_db +
  sessions :: session_heap
  jiffies :: u64
  outs :: "out_event list"

definition emit :: "out_event list \<Rightarrow> 'a sess_db_scheme \<Rightarrow> 'a sess_db_scheme" where
  "emit events s = s\<lparr>outs := outs s @ events\<rparr>"

text \<open>The list hook is a member of the lists of the table theory; here it is only initialized.\<close>

definition session_clone :: "session_alloc \<Rightarrow> session_entry \<Rightarrow> 'a sess_db_scheme \<Rightarrow>
    (ptr option \<times> 'a sess_db_scheme) option" where
  "session_clone alloc session s =
     (case alloc (sessions s) of
        None \<Rightarrow> Some (None, s)
      | Some result \<Rightarrow>
          (let s1 = s\<lparr>sessions := (sessions s)(result \<mapsto>
                        session\<lparr>se_refcounter := 1, se_tree6_hook := False, se_tree4_hook := False\<rparr>)\<rparr>
           in case se_bib session of
                None \<Rightarrow> Some (Some result, s1)
              | Some bib \<Rightarrow> do { h \<leftarrow> bibentry_get bib (bibs s1); Some (Some result, s1\<lparr>bibs := h\<rparr>) }))"

definition session_create :: "session_alloc \<Rightarrow> ipv6_transport_addr \<Rightarrow> ipv6_transport_addr \<Rightarrow>
    ipv4_transport_addr \<Rightarrow> ipv4_transport_addr \<Rightarrow> l4_protocol \<Rightarrow> ptr option \<Rightarrow> 'a sess_db_scheme \<Rightarrow>
    (ptr option \<times> 'a sess_db_scheme) option" where
  "session_create alloc remote6 local6 local4 remote4 l4_proto bib s =
     session_clone alloc
       \<lparr>se_remote6 = remote6, se_local6 = local6, se_local4 = local4, se_remote4 = remote4,
        se_update_time = jiffies s, se_bib = bib, se_refcounter = 0, se_expirer = None,
        se_l4_proto = l4_proto, se_state = CLOSED, se_tree6_hook = False, se_tree4_hook = False\<rparr> s"

definition session_get :: "ptr \<Rightarrow> 'a sess_db_scheme \<Rightarrow> 'a sess_db_scheme option" where
  "session_get session s =
     do { e \<leftarrow> sessions s session;
          Some (s\<lparr>sessions := (sessions s)(session \<mapsto> e\<lparr>se_refcounter := se_refcounter e + 1\<rparr>)\<rparr>) }"

definition session_release :: "ptr rb_ops \<Rightarrow> ptr \<Rightarrow> 'a sess_db_scheme \<Rightarrow> 'a sess_db_scheme option" where
  "session_release ops session s =
     do { e \<leftarrow> sessions s session;
          s1 \<leftarrow> (if se_bib e \<noteq> None then bibdb_return ops (se_bib e) s else Some s);
          Some (s1\<lparr>sessions := (sessions s1)(session := None)\<rparr>) }"

text \<open>\<^verbatim>\<open>kref_put\<close> calls the destructor when the count reaches zero.\<close>

definition session_return :: "ptr rb_ops \<Rightarrow> ptr \<Rightarrow> 'a sess_db_scheme \<Rightarrow> 'a sess_db_scheme option" where
  "session_return ops session s =
     do { e \<leftarrow> sessions s session;
          let s1 = s\<lparr>sessions := (sessions s)(session \<mapsto> e\<lparr>se_refcounter := se_refcounter e - 1\<rparr>)\<rparr>
          in if se_refcounter e - 1 = 0 then session_release ops session s1 else Some s1 }"

section \<open>Frames\<close>

text \<open>
  Session entries change the heaps and the BIB tables only: \<open>ref_only\<close> relates states
  that agree on everything else.
\<close>

definition ref_only :: "'a sess_db_scheme \<Rightarrow> 'a sess_db_scheme \<Rightarrow> bool" where
  "ref_only s s' \<longleftrightarrow> secret_key s' = secret_key s \<and> next_ephemeral s' = next_ephemeral s \<and>
     jiffies s' = jiffies s \<and> outs s' = outs s \<and> sess_db.more s' = sess_db.more s"

lemma ref_only_refl [simp]: "ref_only s s"
  by (simp add: ref_only_def)

lemma ref_only_trans: "ref_only s s' \<Longrightarrow> ref_only s' s'' \<Longrightarrow> ref_only s s''"
  by (simp add: ref_only_def)

lemma ref_only_sessions [simp]: "ref_only s (s'\<lparr>sessions := h\<rparr>) = ref_only s s'"
  by (simp add: ref_only_def)

lemma ref_only_bibs [simp]: "ref_only s (s'\<lparr>bibs := h\<rparr>) = ref_only s s'"
  by (simp add: ref_only_def)

lemma bib_only_fields:
  assumes "bib_only s s'"
  shows "sessions s' = sessions s" "jiffies s' = jiffies s" "outs s' = outs s"
    "secret_key s' = secret_key s" "next_ephemeral s' = next_ephemeral s" "sess_db.more s' = sess_db.more s"
  using assms by (cases s; cases s'; simp add: bib_only_def)+

lemma bib_only_ref_only: "bib_only s s' \<Longrightarrow> ref_only s s'"
  by (simp add: ref_only_def bib_only_fields)

lemma bib_wf_cong:
  assumes "bibs s' = bibs s" "bib_tcp s' = bib_tcp s" "bib_udp s' = bib_udp s" "bib_icmp s' = bib_icmp s"
  shows "bib_wf s' = bib_wf s"
proof -
  have "bib_get_table proto s' = bib_get_table proto s" for proto
    using assms by (cases proto) (simp_all add: bib_get_table_def)
  then show ?thesis using assms by (simp add: bib_wf_def bib_db_ok_def bib_live_def)
qed

lemma bib_wf_sessions [simp]: "bib_wf (s\<lparr>sessions := h\<rparr>) = bib_wf s"
  by (rule bib_wf_cong) simp_all

section \<open>Reference accounting\<close>

definition bib_count :: "'a bib_db_scheme \<Rightarrow> ptr \<Rightarrow> int" where
  "bib_count s p = (case bibs s p of None \<Rightarrow> 0 | Some b \<Rightarrow> b_refcounter b)"

definition sess_count :: "'a sess_db_scheme \<Rightarrow> ptr \<Rightarrow> int" where
  "sess_count s q = (case sessions s q of None \<Rightarrow> 0 | Some e \<Rightarrow> se_refcounter e)"

definition holders :: "session_heap \<Rightarrow> ptr \<Rightarrow> ptr set" where
  "holders h p = {q. \<exists>e. h q = Some e \<and> se_bib e = Some p}"

text \<open>A session agrees with its BIB entry.\<close>

definition sess_agrees :: "session_entry \<Rightarrow> bib_entry \<Rightarrow> bool" where
  "sess_agrees e b \<longleftrightarrow> se_l4_proto e = b_l4_proto b \<and> se_remote6 e = b_ipv6 b \<and> se_local4 e = b_ipv4 b"

definition refs_ok :: "ptr multiset \<Rightarrow> 'a sess_db_scheme \<Rightarrow> bool" where
  "refs_ok B s \<longleftrightarrow> bib_wf s \<and> finite (dom (sessions s)) \<and>
     (\<forall>p. bib_count s p = int (card (holders (sessions s) p)) + int (count B p)) \<and>
     (\<forall>q e. sessions s q = Some e \<longrightarrow> se_refcounter e \<ge> 1) \<and>
     (\<forall>q e p b. sessions s q = Some e \<longrightarrow> se_bib e = Some p \<longrightarrow> bibs s p = Some b \<longrightarrow> sess_agrees e b)"

lemma holders_finite [simp]: "finite (dom h) \<Longrightarrow> finite (holders h p)"
  by (rule finite_subset [of _ "dom h"]) (auto simp: holders_def)

lemma holders_upd_same:
  "h q = Some e \<Longrightarrow> se_bib e' = se_bib e \<Longrightarrow> holders (h(q \<mapsto> e')) p = holders h p"
  by (auto simp: holders_def)

lemma holders_new:
  "h q = None \<Longrightarrow> holders (h(q \<mapsto> e)) p = (if se_bib e = Some p then insert q (holders h p) else holders h p)"
  by (auto simp: holders_def)

lemma holders_free: "h q = Some e \<Longrightarrow>
    holders (h(q := None)) p = (if se_bib e = Some p then holders h p - {q} else holders h p)"
  by (auto simp: holders_def)

lemma not_holder: "h q = None \<Longrightarrow> q \<notin> holders h p"
  by (simp add: holders_def)

lemma bib_count_pos: "bib_wf s \<Longrightarrow> bib_count s p > 0 \<longleftrightarrow> p \<in> dom (bibs s)"
  by (auto simp: bib_count_def split: option.splits dest: bib_wf_pos)

lemma refs_ok_count: "refs_ok B s \<Longrightarrow> bib_count s p = int (card (holders (sessions s) p)) + int (count B p)"
  by (simp add: refs_ok_def)

lemma refs_ok_wf: "refs_ok B s \<Longrightarrow> bib_wf s"
  by (simp add: refs_ok_def)

lemma refs_ok_token:
  assumes "refs_ok B s" "p \<in># B"
  obtains b where "bibs s p = Some b"
proof -
  have "count B p > 0" using assms(2) by simp
  then have "bib_count s p > 0" using refs_ok_count [OF assms(1), of p] by linarith
  then show ?thesis using that bib_count_pos [OF refs_ok_wf [OF assms(1)]] by auto
qed

lemma refs_ok_bib:
  assumes "refs_ok B s" "sessions s q = Some e" "se_bib e = Some p"
  obtains b where "bibs s p = Some b" "sess_agrees e b" "b_refcounter b \<ge> 1"
proof -
  have f: "finite (dom (sessions s))" using assms(1) by (simp add: refs_ok_def)
  have "q \<in> holders (sessions s) p" using assms by (auto simp: holders_def)
  then have "card (holders (sessions s) p) > 0" using f card_gt_0_iff by fastforce
  then have "bib_count s p > 0" using refs_ok_count [OF assms(1), of p] by linarith
  then obtain b where "bibs s p = Some b" "b_refcounter b \<ge> 1"
    using bib_count_pos [of s p] assms(1) bib_wf_pos [of s p] by (auto simp: refs_ok_def)
  then show ?thesis using that assms unfolding refs_ok_def by blast
qed

lemma refs_ok_upd:
  assumes "refs_ok B s" "sessions s q = Some e" "se_bib e' = se_bib e" "se_refcounter e' \<ge> 1"
    "se_l4_proto e' = se_l4_proto e" "se_remote6 e' = se_remote6 e" "se_local4 e' = se_local4 e"
  shows "refs_ok B (s\<lparr>sessions := (sessions s)(q \<mapsto> e')\<rparr>)"
proof -
  have "finite (dom ((sessions s)(q \<mapsto> e')))" using assms(1) by (simp add: refs_ok_def)
  moreover have "sess_agrees e' b = sess_agrees e b" for b using assms by (simp add: sess_agrees_def)
  ultimately show ?thesis
    using assms unfolding refs_ok_def
    by (auto simp: holders_upd_same bib_count_def)
qed


text \<open>Another session comes to life, and takes a reference of its BIB entry.\<close>

lemma session_clone_ok:
  assumes alloc: "session_alloc_ok alloc" and ok: "refs_ok B s"
    and bib: "\<And>p. se_bib e = Some p \<Longrightarrow> \<exists>b. bibs s p = Some b \<and> sess_agrees e b"
  obtains (nomem) "session_clone alloc e s = Some (None, s)"
    | (cloned) q s' where "session_clone alloc e s = Some (Some q, s')" "refs_ok B s'" "ref_only s s'"
      "sessions s q = None" "bib_tcp s' = bib_tcp s"
      "sessions s' = (sessions s)(q \<mapsto> e\<lparr>se_refcounter := 1, se_tree6_hook := False, se_tree4_hook := False\<rparr>)"
proof (cases "alloc (sessions s)")
  case None
  then show ?thesis using nomem by (simp add: session_clone_def)
next
  case (Some q)
  define e' where "e' = e\<lparr>se_refcounter := 1, se_tree6_hook := False, se_tree4_hook := False\<rparr>"
  define h where "h = (sessions s)(q \<mapsto> e')"
  have q: "sessions s q = None" using alloc Some by (simp add: session_alloc_ok_def)
  have fin: "finite (dom (sessions s))" "finite (dom h)" using ok by (simp_all add: refs_ok_def h_def)
  have card: "card (holders h p) = (if se_bib e = Some p then Suc (card (holders (sessions s) p)) else card (holders (sessions s) p))" for p
    using holders_new [of "sessions s" q e' p] not_holder [of "sessions s" q p] q fin by (simp add: h_def e'_def)
  have agree: "sess_agrees e' b = sess_agrees e b" for b by (simp add: e'_def sess_agrees_def)
  show ?thesis
  proof (cases "se_bib e")
    case None
    have wf: "bib_wf (s\<lparr>sessions := h\<rparr>)" using refs_ok_wf [OF ok] by simp
    have "refs_ok B (s\<lparr>sessions := h\<rparr>)"
      using ok fin(2) wf card None unfolding refs_ok_def by (auto simp: bib_count_def h_def e'_def)
    then show ?thesis
      using cloned [of q "s\<lparr>sessions := h\<rparr>"] Some None q
      by (simp add: session_clone_def h_def e'_def)
  next
    case (Some p)
    obtain b where b: "bibs s p = Some b" "sess_agrees e b" using bib Some by blast
    let ?s' = "bib_get_ref p (s\<lparr>sessions := h\<rparr>)"
    have r: "session_clone alloc e s = Some (Some q, ?s')"
      using \<open>alloc (sessions s) = Some q\<close> Some b
      by (simp add: session_clone_def bibentry_get_def bib_get_ref_def h_def e'_def)
    have "bib_wf (s\<lparr>sessions := h\<rparr>)" using refs_ok_wf [OF ok] by simp
    then have wf: "bib_wf ?s'" by (rule bib_get_ref_wf)
    have c: "bib_count ?s' p' = bib_count s p' + (if p' = p then 1 else 0)" for p'
      using b by (simp add: bib_count_def bib_get_ref_def)
    have ag: "sess_agrees e2 b2" if a: "h q2 = Some e2" "se_bib e2 = Some p2" "bibs ?s' p2 = Some b2" for q2 e2 p2 b2
    proof (cases "q2 = q")
      case True
      then have "e2 = e'" using a(1) by (simp add: h_def)
      then have "p2 = p" using a(2) Some by (simp add: e'_def)
      then have "b2 = b\<lparr>b_refcounter := b_refcounter b + 1\<rparr>" using a(3) b(1) by (simp add: bib_get_ref_def)
      then show ?thesis using b(2) \<open>e2 = e'\<close> agree [of b] by (simp add: sess_agrees_def)
    next
      case False
      then have "sessions s q2 = Some e2" using a by (simp add: h_def)
      moreover obtain b3 where "bibs s p2 = Some b3" "sess_agrees e2 b2 = sess_agrees e2 b3"
        using a(3) b(1) by (cases "p2 = p") (auto simp: bib_get_ref_def sess_agrees_def)
      ultimately show ?thesis using a(2) ok unfolding refs_ok_def by blast
    qed
    have "refs_ok B ?s'"
      unfolding refs_ok_def
    proof (intro conjI)
      show "\<forall>p'. bib_count ?s' p' = int (card (holders (sessions ?s') p')) + int (count B p')"
        using c refs_ok_count [OF ok] card Some by (simp add: bib_get_ref_def)
      show "\<forall>q2 e2. sessions ?s' q2 = Some e2 \<longrightarrow> se_refcounter e2 \<ge> 1"
        using ok by (auto simp: refs_ok_def bib_get_ref_def h_def e'_def)
    qed (use wf fin ag in \<open>auto simp: bib_get_ref_def\<close>)
    then show ?thesis
      using cloned [OF r] q by (simp add: bib_get_ref_def h_def e'_def)
  qed
qed


text \<open>Giving up a reference to a BIB entry, as the counters see it.\<close>

lemma bibdb_return_count:
  assumes "rb_laws ops" "bib_wf s" "bibs s p = Some b"
  obtains s' where "bibdb_return ops (Some p) s = Some s'" "bib_only s s'" "bib_wf s'"
    "\<And>p'. bib_count s' p' = bib_count s p' - (if p' = p then 1 else 0)"
    "\<And>p' b'. bibs s' p' = Some b' \<Longrightarrow> \<exists>b. bibs s p' = Some b \<and> bib_same b b'"
proof (rule bibdb_return_cases [OF assms])
  fix s' assume s': "bibdb_return ops (Some p) s = Some s'" "bib_only s s'" "bib_wf s'"
    "bibs s' = (if b_refcounter b = 1 then (bibs s)(p := None) else (bibs s)(p \<mapsto> b\<lparr>b_refcounter := b_refcounter b - 1\<rparr>))"
  have "bib_count s' p' = bib_count s p' - (if p' = p then 1 else 0)" for p'
    using s'(4) assms(3) by (simp add: bib_count_def)
  moreover have "\<exists>b. bibs s p' = Some b \<and> bib_same b b'" if "bibs s' p' = Some b'" for p' b'
    using that s'(4) assms(3) by (cases "p' = p") (auto split: if_splits)
  ultimately show thesis using that s' by blast
qed

lemma bib_same_agrees: "bib_same b b' \<Longrightarrow> sess_agrees e b' = sess_agrees e b"
  by (simp add: bib_same_def sess_agrees_def)

lemma bibdb_return_token:
  assumes laws: "rb_laws ops" and ok: "refs_ok (add_mset p B) s"
  obtains s' where "bibdb_return ops (Some p) s = Some s'" "bib_only s s'" "refs_ok B s'"
proof -
  obtain b where b: "bibs s p = Some b" using refs_ok_token [OF ok] by auto
  obtain s' where s': "bibdb_return ops (Some p) s = Some s'" "bib_only s s'" "bib_wf s'"
    "\<And>p'. bib_count s' p' = bib_count s p' - (if p' = p then 1 else 0)"
    "\<And>p' b'. bibs s' p' = Some b' \<Longrightarrow> \<exists>b. bibs s p' = Some b \<and> bib_same b b'"
    using bibdb_return_count [OF laws refs_ok_wf [OF ok] b] by blast
  have "bib_count s' p' = int (card (holders (sessions s') p')) + int (count B p')" for p'
    using s'(4) [of p'] refs_ok_count [OF ok, of p'] bib_only_fields(1) [OF s'(2)] by simp
  moreover have "sess_agrees e b'" if "sessions s q = Some e" "se_bib e = Some p'" "bibs s' p' = Some b'" for q e p' b'
    using s'(5) [OF that(3)] bib_same_agrees that(1,2) ok unfolding refs_ok_def by blast
  ultimately have "refs_ok B s'"
    using s'(3) ok bib_only_fields(1) [OF s'(2)] unfolding refs_ok_def by simp
  then show ?thesis using that s' by blast
qed

lemma session_get_ok:
  assumes "refs_ok B s" "sessions s q = Some e"
  obtains s' where "session_get q s = Some s'" "refs_ok B s'" "ref_only s s'"
    "sessions s' = (sessions s)(q \<mapsto> e\<lparr>se_refcounter := se_refcounter e + 1\<rparr>)"
proof -
  have "se_refcounter e \<ge> 1" using assms by (auto simp: refs_ok_def)
  then have "refs_ok B (s\<lparr>sessions := (sessions s)(q \<mapsto> e\<lparr>se_refcounter := se_refcounter e + 1\<rparr>)\<rparr>)"
    using refs_ok_upd [OF assms] by simp
  then show ?thesis using that assms(2) by (simp add: session_get_def)
qed

lemma session_return_ok:
  assumes laws: "rb_laws ops" and ok: "refs_ok B s" and q: "sessions s q = Some e"
  obtains s' where "session_return ops q s = Some s'" "refs_ok B s'" "ref_only s s'"
    "sessions s' = (if se_refcounter e = 1 then (sessions s)(q := None)
                    else (sessions s)(q \<mapsto> e\<lparr>se_refcounter := se_refcounter e - 1\<rparr>))"
proof (cases "se_refcounter e = 1")
  case False
  have "se_refcounter e \<ge> 1" using ok q by (auto simp: refs_ok_def)
  then have "refs_ok B (s\<lparr>sessions := (sessions s)(q \<mapsto> e\<lparr>se_refcounter := se_refcounter e - 1\<rparr>)\<rparr>)"
    using refs_ok_upd [OF ok q] False by simp
  then show ?thesis using that q False by (simp add: session_return_def)
next
  case True
  note ret = that
  define s1 where "s1 = s\<lparr>sessions := (sessions s)(q \<mapsto> e\<lparr>se_refcounter := 0\<rparr>)\<rparr>"
  define h where "h = (sessions s)(q := None)"
  have fin: "finite (dom (sessions s))" using ok by (simp add: refs_ok_def)
  have card: "card (holders h p) = (if se_bib e = Some p then card (holders (sessions s) p) - 1 else card (holders (sessions s) p))"
    "se_bib e = Some p \<Longrightarrow> card (holders (sessions s) p) \<ge> 1" for p
  proof -
    have "q \<in> holders (sessions s) p" if "se_bib e = Some p" using that q by (simp add: holders_def)
    then show "card (holders h p) = (if se_bib e = Some p then card (holders (sessions s) p) - 1 else card (holders (sessions s) p))"
      "se_bib e = Some p \<Longrightarrow> card (holders (sessions s) p) \<ge> 1"
      using holders_free [of "sessions s" q e p] q holders_finite [OF fin, of p] card_gt_0_iff [of "holders (sessions s) p"]
      by (auto simp: h_def Suc_le_eq)
  qed
  have one: "1 \<le> se_refcounter e2" if "h q2 = Some e2" for q2 e2 using that ok by (auto simp: refs_ok_def h_def split: if_splits)
  have ag: "sess_agrees e2 b" if "h q2 = Some e2" "se_bib e2 = Some p" "bibs s p = Some b" for q2 e2 p b
    using that ok unfolding refs_ok_def h_def by (metis fun_upd_apply option.distinct(1))
  have done1: ?thesis
    if r: "session_release ops q s1 = Some (s2\<lparr>sessions := h\<rparr>)" and r2: "refs_ok B (s2\<lparr>sessions := h\<rparr>)" "ref_only s s2" for s2
    by (rule ret [of "s2\<lparr>sessions := h\<rparr>"])
      (use r r2 True q in \<open>auto simp: session_return_def s1_def h_def\<close>)
  show ?thesis
  proof (cases "se_bib e")
    case None
    have "session_release ops q s1 = Some (s\<lparr>sessions := h\<rparr>)"
      using None by (simp add: session_release_def s1_def h_def)
    moreover have "refs_ok B (s\<lparr>sessions := h\<rparr>)"
      using ok fin card(1) None one ag unfolding refs_ok_def by (auto simp: bib_count_def h_def)
    ultimately show ?thesis using done1 [of s] by simp
  next
    case (Some p)
    obtain b where b: "bibs s1 p = Some b" using refs_ok_bib [OF ok q Some] by (auto simp: s1_def)
    have "bib_wf s1" using refs_ok_wf [OF ok] by (simp add: s1_def)
    then obtain s2 where s2: "bibdb_return ops (Some p) s1 = Some s2" "bib_only s1 s2" "bib_wf s2"
      "\<And>p'. bib_count s2 p' = bib_count s1 p' - (if p' = p then 1 else 0)"
      "\<And>p' b'. bibs s2 p' = Some b' \<Longrightarrow> \<exists>b. bibs s1 p' = Some b \<and> bib_same b b'"
      using bibdb_return_count [OF laws _ b] by blast
    have sb: "bib_count s1 p' = bib_count s p'" "bibs s1 = bibs s" for p' by (simp_all add: s1_def bib_count_def)
    have "session_release ops q s1 = Some (s2\<lparr>sessions := h\<rparr>)"
      using Some s2(1) bib_only_fields(1) [OF s2(2)] by (simp add: session_release_def s1_def h_def)
    moreover have "refs_ok B (s2\<lparr>sessions := h\<rparr>)"
      unfolding refs_ok_def
    proof (intro conjI)
      have "bib_count s2 p' = int (card (holders h p')) + int (count B p')" for p'
        using s2(4) [of p'] sb card [of p'] refs_ok_count [OF ok, of p'] Some by (auto simp: of_nat_diff)
      then show "\<forall>p'. bib_count (s2\<lparr>sessions := h\<rparr>) p' = int (card (holders (sessions (s2\<lparr>sessions := h\<rparr>)) p')) + int (count B p')"
        by (simp add: bib_count_def)
      show "\<forall>q2 e2 p' b'. sessions (s2\<lparr>sessions := h\<rparr>) q2 = Some e2 \<longrightarrow> se_bib e2 = Some p' \<longrightarrow>
          bibs (s2\<lparr>sessions := h\<rparr>) p' = Some b' \<longrightarrow> sess_agrees e2 b'"
        using s2(5) ag bib_same_agrees sb(2) by simp blast
    qed (use s2(3) fin one in \<open>simp_all add: h_def\<close>)
    moreover have "ref_only s s2"
      using bib_only_ref_only [OF s2(2)] by (simp add: ref_only_def s1_def)
    ultimately show ?thesis using done1 [of s2] by simp
  qed
qed

end
