(* ===== verification/Config.thy ===== *)
theory Config
  imports Jool_Prelude
begin

text \<open>
  The global configuration (\<^verbatim>\<open>mod/common/config.c\<close>, \<^verbatim>\<open>struct global_config\<close>).

  The configuration is a value; RCU and the mutex are not modelled. \<^verbatim>\<open>msecs_to_jiffies\<close> (which takes an
  \<^verbatim>\<open>unsigned int\<close>) and \<^verbatim>\<open>jiffies_to_msecs\<close> (which returns one) are parameters, as they depend on the
  kernel's clock rate. Booleans that C keeps in \<^verbatim>\<open>__u8\<close> are \<open>bool\<close>.
\<close>

datatype eam_hairpinning_mode = EAM_HAIRPIN_OFF | EAM_HAIRPIN_SIMPLE | EAM_HAIRPIN_INTRINSIC

record global_config =
  jool_status :: bool
  is_disable :: bool
  reset_traffic_class :: bool
  reset_tos :: bool
  new_tos :: u8
  df_always_on :: bool
  build_ipv6_fh :: bool
  build_ipv4_id :: bool
  lower_mtu_fail :: bool
  mtu_plateaus :: "u16 list"
  mtu_plateau_count :: u16
  ttl_udp :: u64
  ttl_icmp :: u64
  ttl_tcp_est :: u64
  ttl_tcp_trans :: u64
  ttl_frag :: u64
  drop_by_addr :: bool
  drop_icmp6_info :: bool
  drop_external_tcp :: bool
  max_stored_pkts :: u64
  src_icmp6errs_better :: bool
  bib_logging :: bool
  session_logging :: bool
  compute_udp_csum_zero :: bool
  randomize_error_addresses :: bool
  eam_hairpin_mode :: eam_hairpinning_mode

definition UDP_DEFAULT :: u32 where "UDP_DEFAULT = 5 * 60"
definition TCP_EST :: u32 where "TCP_EST = 2 * 60 * 60"
definition TCP_TRANS :: u32 where "TCP_TRANS = 4 * 60"
definition TCP_INCOMING_SYN :: u32 where "TCP_INCOMING_SYN = 6"
definition ICMP_DEFAULT :: u32 where "ICMP_DEFAULT = 1 * 60"
definition FRAGMENT_MIN :: u32 where "FRAGMENT_MIN = 2"
definition MIN_TIMER_SLEEP :: u64 where "MIN_TIMER_SLEEP = 255"

definition DEFAULT_MTU_PLATEAUS :: "u16 list" where
  "DEFAULT_MTU_PLATEAUS = [65535, 32000, 17914, 8166, 4352, 2002, 1492, 1006, 508, 296, 68]"

type_synonym msecs_to_jiffies = "u32 \<Rightarrow> u64"
type_synonym jiffies_to_msecs = "u64 \<Rightarrow> u32"

text \<open>The two \<^verbatim>\<open>kmalloc\<close> outcomes are arguments.\<close>

definition config_init :: "msecs_to_jiffies \<Rightarrow> bool \<Rightarrow> bool \<Rightarrow> bool \<Rightarrow> errno + global_config" where
  "config_init msecs_to_jiffies cfg_ok plateaus_ok is_dis =
     (if \<not> cfg_ok then Inl ENOMEM
      else if \<not> plateaus_ok then Inl ENOMEM
      else Inr \<lparr>jool_status = False, is_disable = is_dis, reset_traffic_class = False, reset_tos = False,
                new_tos = 0, df_always_on = False, build_ipv6_fh = False, build_ipv4_id = True,
                lower_mtu_fail = True, mtu_plateaus = DEFAULT_MTU_PLATEAUS,
                mtu_plateau_count = word_of_nat (length DEFAULT_MTU_PLATEAUS),
                ttl_udp = msecs_to_jiffies (1000 * UDP_DEFAULT),
                ttl_icmp = msecs_to_jiffies (1000 * ICMP_DEFAULT),
                ttl_tcp_est = msecs_to_jiffies (1000 * TCP_EST),
                ttl_tcp_trans = msecs_to_jiffies (1000 * TCP_TRANS),
                ttl_frag = msecs_to_jiffies (1000 * FRAGMENT_MIN),
                drop_by_addr = False, drop_icmp6_info = False, drop_external_tcp = False,
                max_stored_pkts = 10, src_icmp6errs_better = False, bib_logging = False,
                session_logging = False, compute_udp_csum_zero = False,
                randomize_error_addresses = True, eam_hairpin_mode = EAM_HAIRPIN_INTRINSIC\<rparr>)"

text \<open>The plateaus are copied according to the stored count.\<close>

definition config_clone :: "bool \<Rightarrow> global_config \<Rightarrow> errno + global_config" where
  "config_clone kmalloc_ok cfg =
     (if \<not> kmalloc_ok then Inl ENOMEM
      else Inr (cfg\<lparr>mtu_plateaus := take (unat (mtu_plateau_count cfg)) (mtu_plateaus cfg)\<rparr>))"

definition config_get_ttl_udp :: "global_config \<Rightarrow> u64" where
  "config_get_ttl_udp cfg = ttl_udp cfg"

definition config_get_ttl_tcpest :: "global_config \<Rightarrow> u64" where
  "config_get_ttl_tcpest cfg = ttl_tcp_est cfg"

definition config_get_ttl_tcptrans :: "global_config \<Rightarrow> u64" where
  "config_get_ttl_tcptrans cfg = ttl_tcp_trans cfg"

definition config_get_ttl_icmp :: "global_config \<Rightarrow> u64" where
  "config_get_ttl_icmp cfg = ttl_icmp cfg"

text \<open>The stored \<^verbatim>\<open>__u64\<close> is read into an \<^verbatim>\<open>unsigned int\<close>.\<close>

definition config_get_max_pkts :: "global_config \<Rightarrow> u32" where
  "config_get_max_pkts cfg = ucast (max_stored_pkts cfg)"

definition config_get_filter_icmpv6_info :: "global_config \<Rightarrow> bool" where
  "config_get_filter_icmpv6_info cfg = drop_icmp6_info cfg"

definition config_get_addr_dependent_filtering :: "global_config \<Rightarrow> bool" where
  "config_get_addr_dependent_filtering cfg = drop_by_addr cfg"

definition config_get_drop_external_connections :: "global_config \<Rightarrow> bool" where
  "config_get_drop_external_connections cfg = drop_external_tcp cfg"

section \<open>Crossing to userspace\<close>

text \<open>
  The buffer holds the image of the structure, whose plateau pointer means nothing to the other side,
  followed by the plateaus.
\<close>

record config_buffer =
  cb_image :: global_config
  cb_plateaus :: "u16 list"

definition serialize_global_config :: "jiffies_to_msecs \<Rightarrow> bool \<Rightarrow> global_config \<Rightarrow> bool \<Rightarrow> errno + config_buffer" where
  "serialize_global_config jiffies_to_msecs kmalloc_ok cfg pools_empty =
     (if \<not> kmalloc_ok then Inl ENOMEM
      else
        (let disabled = is_disable cfg \<or> pools_empty
         in Inr \<lparr>cb_image = cfg\<lparr>ttl_udp := ucast (jiffies_to_msecs (ttl_udp cfg)),
                                ttl_tcp_est := ucast (jiffies_to_msecs (ttl_tcp_est cfg)),
                                ttl_tcp_trans := ucast (jiffies_to_msecs (ttl_tcp_trans cfg)),
                                ttl_icmp := ucast (jiffies_to_msecs (ttl_icmp cfg)),
                                ttl_frag := ucast (jiffies_to_msecs (ttl_frag cfg)),
                                jool_status := \<not> disabled\<rparr>,
                 cb_plateaus = take (unat (mtu_plateau_count cfg)) (mtu_plateaus cfg)\<rparr>))"

definition deserialize_global_config :: "msecs_to_jiffies \<Rightarrow> bool \<Rightarrow> config_buffer \<Rightarrow> errno + global_config" where
  "deserialize_global_config msecs_to_jiffies kmalloc_ok buffer =
     (let target = (cb_image buffer)\<lparr>mtu_plateaus := []\<rparr>
      in if mtu_plateau_count target \<noteq> 0 \<and> \<not> kmalloc_ok then Inl ENOMEM
         else
           (let target = (if mtu_plateau_count target \<noteq> 0
                          then target\<lparr>mtu_plateaus := take (unat (mtu_plateau_count target)) (cb_plateaus buffer)\<rparr>
                          else target)
            in Inr (target\<lparr>ttl_udp := msecs_to_jiffies (ucast (ttl_udp target)),
                           ttl_tcp_est := msecs_to_jiffies (ucast (ttl_tcp_est target)),
                           ttl_tcp_trans := msecs_to_jiffies (ucast (ttl_tcp_trans target)),
                           ttl_icmp := msecs_to_jiffies (ucast (ttl_icmp target)),
                           ttl_frag := msecs_to_jiffies (ucast (ttl_frag target))\<rparr>)))"

lemma ucast_up_down: "(ucast (ucast (w :: u32) :: u64) :: u32) = w"
  by (simp add: word_eq_iff_bits bit_unsigned_iff)

text \<open>
  C33: what crosses to userspace can be brought back: with a clock that converts the five timeouts
  without loss, deserializing a serialized configuration gives the configuration, its status field
  apart, which serializing computes.
\<close>

theorem config_roundtrip:
  assumes "\<forall>t \<in> {ttl_udp cfg, ttl_tcp_est cfg, ttl_tcp_trans cfg, ttl_icmp cfg, ttl_frag cfg}.
      msecs_to_jiffies (jiffies_to_msecs t) = t"
    "mtu_plateau_count cfg = word_of_nat (length (mtu_plateaus cfg))" "length (mtu_plateaus cfg) < 65536"
  shows "\<exists>buffer. serialize_global_config jiffies_to_msecs True cfg pools_empty = Inr buffer \<and>
    deserialize_global_config msecs_to_jiffies True buffer =
      Inr (cfg\<lparr>jool_status := \<not> (is_disable cfg \<or> pools_empty)\<rparr>)"
proof -
  have n: "unat (mtu_plateau_count cfg) = length (mtu_plateaus cfg)"
    using assms(2,3) by (simp add: unat_of_nat)
  then have "mtu_plateau_count cfg = 0 \<longleftrightarrow> mtu_plateaus cfg = []"
    by (metis length_0_conv unat_eq_zero)
  then show ?thesis
    using assms(1) n by (cases cfg) (simp add: serialize_global_config_def deserialize_global_config_def Let_def ucast_up_down)
qed

theorem config_roundtrip_witness:
  "\<exists>cfg buffer. config_init (\<lambda>m. ucast m) True True False = Inr cfg \<and>
     serialize_global_config (\<lambda>j. ucast j) True cfg True = Inr buffer \<and>
     deserialize_global_config (\<lambda>m. ucast m) True buffer = Inr cfg"
proof -
  obtain cfg where c: "config_init (\<lambda>m. ucast m) True True False = Inr cfg" by (simp add: config_init_def)
  then have "\<forall>t \<in> {ttl_udp cfg, ttl_tcp_est cfg, ttl_tcp_trans cfg, ttl_icmp cfg, ttl_frag cfg}.
      (ucast (ucast t :: u32) :: u64) = t" "mtu_plateau_count cfg = word_of_nat (length (mtu_plateaus cfg))"
    "length (mtu_plateaus cfg) < 65536" "cfg\<lparr>jool_status := False\<rparr> = cfg"
    by (auto simp: config_init_def UDP_DEFAULT_def TCP_EST_def TCP_TRANS_def ICMP_DEFAULT_def FRAGMENT_MIN_def
      DEFAULT_MTU_PLATEAUS_def)
  then show ?thesis
    using c config_roundtrip [of cfg "\<lambda>m. ucast m" "\<lambda>j. ucast j" True] by auto
qed

end
