(* ===== verification/Pkt_Queue.thy ===== *)
theory Pkt_Queue
  imports Session_Entry Config
begin

text \<open>
  The storage of IPv4 TCP SYNs that wait for a simultaneous open
  (\<^verbatim>\<open>mod/stateful/session/pkt_queue.c\<close>).

  Packet nodes live in a heap of their own; each owns one reference of its session. The references
  to sessions held outside of the queue are a multiset \<open>K\<close> of tokens: \<open>pktq_ok B K s\<close> says that a
  session's counter is the number of nodes that point to it plus the number of its tokens. The
  freeing of the stored buffers is not modelled.
\<close>

section \<open>What the sessions need from outside\<close>

record packet_node =
  pn_session :: ptr
  pn_pkt :: packet

type_synonym node_heap = "ptr \<rightharpoonup> packet_node"

text \<open>
  The kernel's tree code and clock rate, the configuration, the outcomes of the allocators, of
  routing and of the probes' checksum.
\<close>

record sess_env =
  ev_rb :: "ptr rb_ops"
  ev_cfg :: global_config
  ev_msecs_to_jiffies :: msecs_to_jiffies
  ev_route4_input :: "packet \<Rightarrow> bool"
  ev_session_alloc :: session_alloc
  ev_node_alloc :: "node_heap \<Rightarrow> ptr option"
  ev_alloc_skb :: bool
  ev_tcp_csum :: "ipv6hdr \<Rightarrow> tcphdr \<Rightarrow> u16"
  ev_route6 :: "ipv6hdr \<Rightarrow> tcphdr \<Rightarrow> bool"

definition sess_env_ok :: "sess_env \<Rightarrow> bool" where
  "sess_env_ok env \<longleftrightarrow> rb_laws (ev_rb env) \<and> session_alloc_ok (ev_session_alloc env) \<and>
     (\<forall>h p. ev_node_alloc env h = Some p \<longrightarrow> h p = None)"

section \<open>Kernel lists and clock\<close>

text \<open>
  \<^verbatim>\<open>list_for_each_entry_safe\<close>: the successor is read before the body runs. Reading it from an entry
  that is not in the list is a fault. The body tells whether it breaks out of the loop.
\<close>

partial_function (option) list_for_each_safe :: "('s \<Rightarrow> ptr list) \<Rightarrow> (ptr \<Rightarrow> 's \<Rightarrow> (bool \<times> 's) option) \<Rightarrow>
    ptr option \<Rightarrow> 's \<Rightarrow> 's option" where
  "list_for_each_safe head body cursor s =
     (case cursor of
        None \<Rightarrow> Some s
      | Some p \<Rightarrow>
          (if p \<notin> set (head s) then None
           else do { (break, s') \<leftarrow> body p s;
                     (if break then Some s'
                      else list_for_each_safe head body (list_next (head s) p) s') }))"

declare list_for_each_safe.simps [code]

definition time_before :: "u64 \<Rightarrow> u64 \<Rightarrow> bool" where
  "time_before a b \<longleftrightarrow> sint (a - b) < 0"

section \<open>The queue\<close>

record pktq_db = sess_db +
  nodes :: node_heap
  node_list :: "ptr list"
  node_tree :: "ptr tree"
  node_count :: u32
  pq_timer :: "u64 option"

text \<open>\<open>pq_timer\<close> is the time a pending timer expires. The \<^verbatim>\<open>int\<close> counter is kept as 32 bits.\<close>

definition pktq_get_timeout :: "sess_env \<Rightarrow> u64" where
  "pktq_get_timeout env = ev_msecs_to_jiffies env (1000 * TCP_INCOMING_SYN)"

definition send_icmp_error :: "sess_env \<Rightarrow> ptr \<Rightarrow> 'a pktq_db_scheme \<Rightarrow> 'a pktq_db_scheme option" where
  "send_icmp_error env node s =
     do { nd \<leftarrow> nodes s node;
          let s1 = emit (icmp64_send (ev_route4_input env) (pn_pkt nd) ICMPERR_PORT_UNREACHABLE 0) s
          in do { s2 \<leftarrow> session_return (ev_rb env) (pn_session nd) s1;
                  Some (s2\<lparr>nodes := (nodes s2)(node := None)\<rparr>) } }"

definition pktq_rm :: "sess_env \<Rightarrow> ptr \<Rightarrow> 'a pktq_db_scheme \<Rightarrow> 'a pktq_db_scheme option" where
  "pktq_rm env node s =
     do { tree \<leftarrow> rbtree_erase (ev_rb env) node (node_tree s);
          Some (s\<lparr>node_list := remove1 node (node_list s), node_tree := tree, node_count := node_count s - 1\<rparr>) }"

text \<open>The loop's state carries the local list \<^verbatim>\<open>icmps\<close>.\<close>

definition pktq_cleaner_body :: "sess_env \<Rightarrow> u64 \<Rightarrow> ptr \<Rightarrow> 'a pktq_db_scheme \<times> ptr list \<Rightarrow>
    (bool \<times> 'a pktq_db_scheme \<times> ptr list) option" where
  "pktq_cleaner_body env TIMEOUT node si =
     (case si of (s, icmps) \<Rightarrow>
        do { nd \<leftarrow> nodes s node;
             e \<leftarrow> sessions s (pn_session nd);
             let next_timeout = se_update_time e + TIMEOUT
             in if time_before (jiffies s) next_timeout
                then Some (True, s\<lparr>pq_timer := Some next_timeout\<rparr>, icmps)
                else do { s1 \<leftarrow> pktq_rm env node s; Some (False, s1, node # icmps) } })"

fun send_icmp_errors :: "sess_env \<Rightarrow> ptr list \<Rightarrow> 'a pktq_db_scheme \<Rightarrow> 'a pktq_db_scheme option" where
  "send_icmp_errors env [] s = Some s"
| "send_icmp_errors env (node # icmps) s =
     do { s1 \<leftarrow> send_icmp_error env node s; send_icmp_errors env icmps s1 }"

definition pktq_cleaner_timer :: "sess_env \<Rightarrow> 'a pktq_db_scheme \<Rightarrow> 'a pktq_db_scheme option" where
  "pktq_cleaner_timer env s =
     do { (s1, icmps) \<leftarrow> list_for_each_safe (\<lambda>(s, _). node_list s) (pktq_cleaner_body env (pktq_get_timeout env))
                           (first_of (node_list s)) (s, []);
          send_icmp_errors env icmps s1 }"

definition pktqueue_init :: "'a pktq_db_scheme \<Rightarrow> status \<times> 'a pktq_db_scheme" where
  "pktqueue_init s = (Ok, s\<lparr>node_list := [], node_tree := Leaf, node_count := 0, pq_timer := None\<rparr>)"

definition pktqueue_destroy :: "sess_env \<Rightarrow> 'a pktq_db_scheme \<Rightarrow> 'a pktq_db_scheme option" where
  "pktqueue_destroy env s = send_icmp_errors env (node_list s) (s\<lparr>pq_timer := None\<rparr>)"

text \<open>
  \<^verbatim>\<open>compare_fn\<close> reads the node's session; the wanted session is represented by the two addresses
  the function reads from it.
\<close>

definition pktq_compare_fn :: "node_heap \<times> session_heap \<Rightarrow> ipv4_transport_addr \<times> ipv4_transport_addr \<Rightarrow>
    ptr \<Rightarrow> int option" where
  "pktq_compare_fn h session node =
     (case (h, session) of ((ns, ss), (remote4, local4)) \<Rightarrow>
        do { nd \<leftarrow> ns node;
             e \<leftarrow> ss (pn_session nd);
             (let gap = ipv4_addr_cmp (ta4_l3 (se_remote4 e)) (ta4_l3 remote4)
              in if gap \<noteq> 0 then Some gap
              else let gap = uint (ta4_l4 (se_remote4 e)) - uint (ta4_l4 remote4)
              in if gap \<noteq> 0 then Some gap
              else let gap = ipv4_addr_cmp (ta4_l3 (se_local4 e)) (ta4_l3 local4)
              in if gap \<noteq> 0 then Some gap
              else Some (uint (ta4_l4 (se_local4 e)) - uint (ta4_l4 local4))) })"

definition session_key4 :: "session_entry \<Rightarrow> ipv4_transport_addr \<times> ipv4_transport_addr" where
  "session_key4 e = (se_remote4 e, se_local4 e)"

definition pktqueue_add :: "sess_env \<Rightarrow> ptr \<Rightarrow> packet \<Rightarrow> 'a pktq_db_scheme \<Rightarrow>
    (status \<times> 'a pktq_db_scheme) option" where
  "pktqueue_add env session pkt s =
     do { e \<leftarrow> sessions s session;
          (if se_l4_proto e \<noteq> L4PROTO_TCP then Some (Ok, s)
           else case ev_node_alloc env (nodes s) of
                  None \<Rightarrow> Some (Err ENOMEM, s)
                | Some node \<Rightarrow>
                    (let s1 = s\<lparr>nodes := (nodes s)(node \<mapsto> \<lparr>pn_session = session, pn_pkt = pkt\<rparr>)\<rparr>
                     in if node_count s1 + 1 \<ge> config_get_max_pkts (ev_cfg env)
                        then Some (Err E2BIG,
                          (emit (icmp64_send (ev_route4_input env) pkt ICMPERR_PORT_UNREACHABLE 0) s1)
                            \<lparr>nodes := (nodes s1)(node := None)\<rparr>)
                        else
                          do { (error, tree) \<leftarrow> rbtree_add (ev_rb env) node
                                 (pktq_compare_fn (nodes s1, sessions s1) (session_key4 e)) (node_tree s1);
                               (if error \<noteq> Ok then Some (error, s1\<lparr>nodes := (nodes s1)(node := None)\<rparr>)
                                else
                                  (let s2 = s1\<lparr>node_tree := tree, node_list := node_list s1 @ [node],
                                               node_count := node_count s1 + 1\<rparr>
                                   in do { first \<leftarrow> first_of (node_list s2);
                                           nd \<leftarrow> nodes s2 first;
                                           e1 \<leftarrow> sessions s2 (pn_session nd);
                                           s3 \<leftarrow> session_get session
                                             (s2\<lparr>pq_timer := Some (se_update_time e1 + pktq_get_timeout env)\<rparr>);
                                           Some (Ok, s3) })) })) }"

definition pktqueue_remove :: "sess_env \<Rightarrow> ptr \<Rightarrow> 'a pktq_db_scheme \<Rightarrow> 'a pktq_db_scheme option" where
  "pktqueue_remove env session s =
     do { e \<leftarrow> sessions s session;
          (if se_l4_proto e \<noteq> L4PROTO_TCP then Some s
           else
             do { found \<leftarrow> rbtree_find (pktq_compare_fn (nodes s, sessions s) (session_key4 e)) (node_tree s);
                  (case found of
                     None \<Rightarrow> Some s
                   | Some node \<Rightarrow>
                       do { s1 \<leftarrow> pktq_rm env node s;
                            nd \<leftarrow> nodes s1 node;
                            s2 \<leftarrow> session_return (ev_rb env) (pn_session nd) s1;
                            Some (s2\<lparr>nodes := (nodes s2)(node := None)\<rparr>) }) }) }"

section \<open>The tree is a search tree\<close>

definition pktq_key :: "node_heap \<times> session_heap \<Rightarrow> ptr \<Rightarrow> (ipv4_transport_addr \<times> ipv4_transport_addr) option" where
  "pktq_key h node = do { nd \<leftarrow> fst h node; e \<leftarrow> snd h (pn_session nd); Some (session_key4 e) }"

interpretation pktq: rb_order pktq_key pktq_compare_fn
proof
  fix h e k' k assume "pktq_key h e = Some k'"
  then obtain nd se where "fst h e = Some nd" "snd h (pn_session nd) = Some se" "k' = session_key4 se"
    by (auto simp: pktq_key_def bind_eq_Some_conv)
  then show "\<exists>c. pktq_compare_fn h k e = Some c \<and> (c < 0 \<longleftrightarrow> k' < k) \<and> (c > 0 \<longleftrightarrow> k < k')"
    by (auto simp: pktq_compare_fn_def session_key4_def split_beta Let_def ipv4_addr_cmp_def less_prod_def
        taddr4_less_iff word_less_def le_less taddr4_eq_iff)
qed


section \<open>Sessions up to their counters\<close>

definition sview :: "'a sess_db_scheme \<Rightarrow> session_heap" where
  "sview s q = map_option (\<lambda>e. e\<lparr>se_refcounter := 0\<rparr>) (sessions s q)"

lemma sview_None_iff [simp]: "sview s q = None \<longleftrightarrow> sessions s q = None"
  by (simp add: sview_def)

lemma sview_upd: "sessions s' = (sessions s)(q := x) \<Longrightarrow> sview s' = (sview s)(q := map_option (\<lambda>e. e\<lparr>se_refcounter := 0\<rparr>) x)"
  by (auto simp: sview_def)

lemma sview_fields [simp]:
  "sview (s\<lparr>bibs := h1\<rparr>) = sview s" "sview (s\<lparr>sessions := h2\<rparr>) q = map_option (\<lambda>e. e\<lparr>se_refcounter := 0\<rparr>) (h2 q)"
  by (auto simp: sview_def)

lemma sview_SomeD: "sview s q = Some v \<Longrightarrow> \<exists>e. sessions s q = Some e \<and> v = e\<lparr>se_refcounter := 0\<rparr>"
  by (auto simp: sview_def)

lemma sview_Some: "sessions s q = Some e \<Longrightarrow> sview s q = Some (e\<lparr>se_refcounter := 0\<rparr>)"
  by (simp add: sview_def)

lemma pktq_key_sview: "pktq_key (ns, sessions s) n = pktq_key (ns, sview s) n"
  by (cases "ns n"; cases "sessions s (pn_session (the (ns n)))") (auto simp: pktq_key_def sview_def session_key4_def)

lemma pktq_sorted_sview: "pktq.keys_sorted (ns, sessions s) es = pktq.keys_sorted (ns, sview s) es"
  by (rule pktq.keys_sorted_cong) (simp add: pktq_key_sview)

section \<open>The invariant\<close>

text \<open>\<open>X\<close> is a list of nodes that were unlinked and await their ICMP error.\<close>

definition pktq_wf :: "ptr list \<Rightarrow> 'a pktq_db_scheme \<Rightarrow> bool" where
  "pktq_wf X s \<longleftrightarrow>
     pktq.keys_sorted (nodes s, sview s) (inorder (node_tree s)) \<and>
     set (inorder (node_tree s)) = set (node_list s) \<and> distinct (node_list s @ X) \<and>
     dom (nodes s) = set (node_list s) \<union> set X \<and> node_count s = of_nat (length (node_list s)) \<and>
     (\<forall>n nd. nodes s n = Some nd \<longrightarrow> (\<exists>e. sview s (pn_session nd) = Some e \<and> se_l4_proto e = L4PROTO_TCP))"

definition pktq_timer_ok :: "'a pktq_db_scheme \<Rightarrow> bool" where
  "pktq_timer_ok s \<longleftrightarrow> (node_list s \<noteq> [] \<longrightarrow> pq_timer s \<noteq> None)"

definition node_refs :: "ptr list \<Rightarrow> 'a pktq_db_scheme \<Rightarrow> ptr multiset" where
  "node_refs X s = image_mset (\<lambda>n. pn_session (the (nodes s n))) (mset (node_list s @ X))"

definition pktq_ok :: "ptr list \<Rightarrow> ptr multiset \<Rightarrow> ptr multiset \<Rightarrow> 'a pktq_db_scheme \<Rightarrow> bool" where
  "pktq_ok X B K s \<longleftrightarrow> refs_ok B s \<and> pktq_wf X s \<and> (\<forall>q. sess_count s q = int (count (node_refs X s + K) q))"

text \<open>Operations of the queue leave the clock, the port allocator and the session tables alone.\<close>

definition pktq_frame :: "'a pktq_db_scheme \<Rightarrow> 'a pktq_db_scheme \<Rightarrow> bool" where
  "pktq_frame s s' \<longleftrightarrow> secret_key s' = secret_key s \<and> next_ephemeral s' = next_ephemeral s \<and>
     jiffies s' = jiffies s \<and> pktq_db.more s' = pktq_db.more s"

text \<open>Operations on references leave the queue itself alone, too.\<close>

definition queue_same :: "'a pktq_db_scheme \<Rightarrow> 'a pktq_db_scheme \<Rightarrow> bool" where
  "queue_same s s' \<longleftrightarrow> nodes s' = nodes s \<and> node_list s' = node_list s \<and> node_tree s' = node_tree s \<and>
     node_count s' = node_count s \<and> pq_timer s' = pq_timer s"

lemma ref_only_queue: "ref_only s s' \<Longrightarrow> queue_same s s'"
  by (cases s; cases s') (simp add: ref_only_def queue_same_def)

lemma ref_only_frame: "ref_only s s' \<Longrightarrow> pktq_frame s s'"
  by (cases s; cases s') (simp add: ref_only_def pktq_frame_def)

lemma pktq_frame_refl [simp]: "pktq_frame s s"
  by (simp add: pktq_frame_def)

lemma pktq_frame_trans: "pktq_frame s s' \<Longrightarrow> pktq_frame s' s'' \<Longrightarrow> pktq_frame s s''"
  by (simp add: pktq_frame_def)

lemma queue_same_refs: "queue_same s s' \<Longrightarrow> node_refs X s' = node_refs X s"
  by (simp add: queue_same_def node_refs_def)

lemma queue_same_timer: "queue_same s s' \<Longrightarrow> pktq_timer_ok s' = pktq_timer_ok s"
  by (simp add: queue_same_def pktq_timer_ok_def)

lemma pktq_wf_node:
  assumes "pktq_wf X s" "nodes s n = Some nd"
  obtains e where "sview s (pn_session nd) = Some e" "se_l4_proto e = L4PROTO_TCP"
  using assms unfolding pktq_wf_def by blast

text \<open>The nodes' sessions matter for their keys and protocol only.\<close>

lemma pktq_wf_sview:
  assumes "pktq_wf X s" "queue_same s s'"
    "\<And>n nd e. nodes s n = Some nd \<Longrightarrow> sview s (pn_session nd) = Some e \<Longrightarrow>
       \<exists>e'. sview s' (pn_session nd) = Some e' \<and> session_key4 e' = session_key4 e \<and> se_l4_proto e' = se_l4_proto e"
  shows "pktq_wf X s'"
proof -
  have "pktq_key (nodes s, sview s') n = pktq_key (nodes s, sview s) n" if "n \<in> set (inorder (node_tree s))" for n
  proof -
    have "n \<in> dom (nodes s)" using that assms(1) by (simp add: pktq_wf_def)
    then obtain nd where nd: "nodes s n = Some nd" by blast
    then obtain e where e: "sview s (pn_session nd) = Some e" using pktq_wf_node [OF assms(1)] by blast
    then obtain e' where "sview s' (pn_session nd) = Some e'" "session_key4 e' = session_key4 e"
      using assms(3) [OF nd e] by blast
    then show ?thesis using e nd by (simp add: pktq_key_def)
  qed
  then have "pktq.keys_sorted (nodes s, sview s') (inorder (node_tree s)) = pktq.keys_sorted (nodes s, sview s) (inorder (node_tree s))"
    by (intro pktq.keys_sorted_cong) blast
  moreover have "\<exists>e. sview s' (pn_session nd) = Some e \<and> se_l4_proto e = L4PROTO_TCP" if nd: "nodes s n = Some nd" for n nd
  proof -
    obtain e where e: "sview s (pn_session nd) = Some e" "se_l4_proto e = L4PROTO_TCP"
      using pktq_wf_node [OF assms(1) nd] .
    then show ?thesis using assms(3) [OF nd e(1)] by metis
  qed
  ultimately show ?thesis using assms(1,2) by (simp add: pktq_wf_def queue_same_def)
qed

lemma sess_count_pos: "refs_ok B s \<Longrightarrow> sess_count s q > 0 \<longleftrightarrow> sessions s q \<noteq> None"
proof (cases "sessions s q")
  case (Some e)
  assume "refs_ok B s"
  then have "se_refcounter e \<ge> 1" using Some unfolding refs_ok_def by blast
  then show ?thesis using Some by (simp add: sess_count_def)
qed (simp add: sess_count_def)

lemma pktq_ok_D:
  assumes "pktq_ok X B K s"
  shows "refs_ok B s" "pktq_wf X s" "sess_count s q = int (count (node_refs X s + K) q)"
  using assms unfolding pktq_ok_def by blast+

lemma pktq_ok_live:
  assumes "pktq_ok X B K s"
  shows "q \<in># node_refs X s + K \<longleftrightarrow> sessions s q \<noteq> None"
proof -
  have "q \<in># node_refs X s + K \<longleftrightarrow> count (node_refs X s + K) q > 0" by (rule count_greater_zero_iff [symmetric])
  also have "\<dots> \<longleftrightarrow> sess_count s q > 0" unfolding pktq_ok_D(3) [OF assms] by (rule of_nat_0_less_iff [symmetric])
  finally show ?thesis using sess_count_pos [OF pktq_ok_D(1) [OF assms]] by simp
qed

lemma pktq_ok_token:
  assumes "pktq_ok X B K s" "q \<in># K"
  obtains e where "sessions s q = Some e"
  using pktq_ok_live [OF assms(1), of q] assms(2) that by auto

lemma node_ref: "pktq_wf X s \<Longrightarrow> nodes s n = Some nd \<Longrightarrow> pn_session nd \<in># node_refs X s"
proof -
  assume "pktq_wf X s" and nd: "nodes s n = Some nd"
  then have "n \<in> set (node_list s @ X)" by (auto simp: pktq_wf_def)
  then have "pn_session (the (nodes s n)) \<in># node_refs X s"
    unfolding node_refs_def by (simp only: set_image_mset set_mset_mset) blast
  then show ?thesis using nd by simp
qed


section \<open>Moving tokens\<close>

lemma sess_count_upd:
  "sessions s' = (sessions s)(q := x) \<Longrightarrow>
     sess_count s' q' = (if q' = q then (case x of None \<Rightarrow> 0 | Some e \<Rightarrow> se_refcounter e) else sess_count s q')"
  by (simp add: sess_count_def)

lemma pktq_ok_refs:
  assumes ok: "pktq_ok X B K s" and refs: "refs_ok B' s'" and same: "queue_same s s'"
    and view: "\<And>n nd e. nodes s n = Some nd \<Longrightarrow> sview s (pn_session nd) = Some e \<Longrightarrow>
       \<exists>e'. sview s' (pn_session nd) = Some e' \<and> session_key4 e' = session_key4 e \<and> se_l4_proto e' = se_l4_proto e"
    and cnt: "\<And>q. sess_count s' q = int (count (node_refs X s + K') q)"
  shows "pktq_ok X B' K' s'"
  unfolding pktq_ok_def
  using refs pktq_wf_sview [OF pktq_ok_D(2) [OF ok] same view] cnt queue_same_refs [OF same, of X] by simp

lemma session_get_token:
  assumes ok: "pktq_ok X B K s" and q: "sessions s q = Some e"
  obtains s' where "session_get q s = Some s'" "pktq_ok X B (add_mset q K) s'" "ref_only s s'" "sview s' = sview s"
    "bibs s' = bibs s"
proof -
  obtain s' where s': "session_get q s = Some s'" "refs_ok B s'" "ref_only s s'"
    "sessions s' = (sessions s)(q \<mapsto> e\<lparr>se_refcounter := se_refcounter e + 1\<rparr>)"
    using session_get_ok [OF pktq_ok_D(1) [OF ok] q] by blast
  have v: "sview s' = sview s" using sview_upd [OF s'(4)] q by (auto simp: sview_def)
  have "sess_count s q = se_refcounter e" using q by (simp add: sess_count_def)
  then have c: "sess_count s' q' = int (count (node_refs X s + add_mset q K) q')" for q'
    using sess_count_upd [OF s'(4), of q'] pktq_ok_D(3) [OF ok, of q'] by (cases "q' = q") simp_all
  have "pktq_ok X B (add_mset q K) s'"
    by (rule pktq_ok_refs [OF ok s'(2) ref_only_queue [OF s'(3)] _ c]) (simp add: v)
  moreover have "bibs s' = bibs s" using s'(1) q by (auto simp: session_get_def)
  ultimately show ?thesis using that s' v by blast
qed

lemma session_return_token:
  assumes laws: "rb_laws ops" and ok: "pktq_ok X B (add_mset q K) s"
  obtains s' where "session_return ops q s = Some s'" "pktq_ok X B K s'" "ref_only s s'"
    "sview s' = (if q \<in># node_refs X s + K then sview s else (sview s)(q := None))"
proof -
  obtain e where q: "sessions s q = Some e" using pktq_ok_token [OF ok, of q] by auto
  obtain s' where s': "session_return ops q s = Some s'" "refs_ok B s'" "ref_only s s'"
    "sessions s' = (if se_refcounter e = 1 then (sessions s)(q := None)
                    else (sessions s)(q \<mapsto> e\<lparr>se_refcounter := se_refcounter e - 1\<rparr>))"
    using session_return_ok [OF laws pktq_ok_D(1) [OF ok] q] by blast
  have n: "se_refcounter e = int (count (node_refs X s + K) q) + 1"
    using pktq_ok_D(3) [OF ok, of q] q by (simp add: sess_count_def)
  then have last: "se_refcounter e = 1 \<longleftrightarrow> q \<notin># node_refs X s + K"
    by (simp only: not_in_iff) linarith
  have v: "sview s' = (if q \<in># node_refs X s + K then sview s else (sview s)(q := None))"
    using s'(4) last q sview_upd [of s' s q] by (auto simp: sview_def fun_eq_iff)
  have c: "sess_count s' q' = int (count (node_refs X s + K) q')" for q'
  proof (cases "q' = q")
    case True
    then show ?thesis using s'(4) n by (simp add: sess_count_def)
  next
    case False
    then have "sess_count s' q' = sess_count s q'" using s'(4) by (simp add: sess_count_def)
    then show ?thesis using pktq_ok_D(3) [OF ok, of q'] False by simp
  qed
  have "pktq_ok X B K s'"
  proof (rule pktq_ok_refs [OF ok s'(2) ref_only_queue [OF s'(3)] _ c])
    fix n nd e' assume nd: "nodes s n = Some nd" "sview s (pn_session nd) = Some e'"
    have "pn_session nd \<noteq> q \<or> q \<in># node_refs X s + K"
      using node_ref [OF pktq_ok_D(2) [OF ok] nd(1)] by auto
    then have "sview s' (pn_session nd) = sview s (pn_session nd)" using v by auto
    then show "\<exists>e2. sview s' (pn_session nd) = Some e2 \<and> session_key4 e2 = session_key4 e' \<and> se_l4_proto e2 = se_l4_proto e'"
      using nd(2) by simp
  qed
  then show ?thesis using that s' v by blast
qed

lemma session_clone_token:
  assumes alloc: "session_alloc_ok alloc" and ok: "pktq_ok X B K s"
    and bib: "\<And>p. se_bib e = Some p \<Longrightarrow> \<exists>b. bibs s p = Some b \<and> sess_agrees e b"
  obtains (nomem) "session_clone alloc e s = Some (None, s)"
    | (cloned) q s' where "session_clone alloc e s = Some (Some q, s')" "pktq_ok X B (add_mset q K) s'" "ref_only s s'"
      "sessions s q = None" "sessions s' = (sessions s)(q \<mapsto> e\<lparr>se_refcounter := 1, se_tree6_hook := False, se_tree4_hook := False\<rparr>)"
      "sview s' = (sview s)(q \<mapsto> e\<lparr>se_tree6_hook := False, se_tree4_hook := False, se_refcounter := 0\<rparr>)"
proof (rule session_clone_ok [OF alloc pktq_ok_D(1) [OF ok] bib])
  fix q s' assume s': "session_clone alloc e s = Some (Some q, s')" "refs_ok B s'" "ref_only s s'" "sessions s q = None"
    "sessions s' = (sessions s)(q \<mapsto> e\<lparr>se_refcounter := 1, se_tree6_hook := False, se_tree4_hook := False\<rparr>)"
  have v: "sview s' = (sview s)(q \<mapsto> e\<lparr>se_tree6_hook := False, se_tree4_hook := False, se_refcounter := 0\<rparr>)"
    using sview_upd [OF s'(5)] by simp
  have q: "q \<notin># node_refs X s + K" using pktq_ok_live [OF ok, of q] s'(4) by simp
  have c: "sess_count s' q' = int (count (node_refs X s + add_mset q K) q')" for q'
    using sess_count_upd [OF s'(5), of q'] pktq_ok_D(3) [OF ok, of q'] q by (cases "q' = q") (simp_all add: not_in_iff)
  have "pktq_ok X B (add_mset q K) s'"
  proof (rule pktq_ok_refs [OF ok s'(2) ref_only_queue [OF s'(3)] _ c])
    fix n nd e' assume nd: "nodes s n = Some nd" "sview s (pn_session nd) = Some e'"
    have "pn_session nd \<noteq> q" using nd(2) s'(4) by (metis option.distinct(1) sview_None_iff)
    then show "\<exists>e2. sview s' (pn_session nd) = Some e2 \<and> session_key4 e2 = session_key4 e' \<and> se_l4_proto e2 = se_l4_proto e'"
      using nd(2) v by simp
  qed
  then show thesis using cloned s' v by blast
qed (use nomem in blast)+

lemma bibdb_return_token2:
  assumes laws: "rb_laws ops" and ok: "pktq_ok X (add_mset p B) K s"
  obtains s' where "bibdb_return ops (Some p) s = Some s'" "pktq_ok X B K s'" "bib_only s s'" "sview s' = sview s"
proof (rule bibdb_return_token [OF laws pktq_ok_D(1) [OF ok]])
  fix s' assume s': "bibdb_return ops (Some p) s = Some s'" "bib_only s s'" "refs_ok B s'"
  have v: "sview s' = sview s" using bib_only_fields(1) [OF s'(2)] by (simp add: sview_def fun_eq_iff)
  have "sess_count s' q = int (count (node_refs X s + K) q)" for q
    using pktq_ok_D(3) [OF ok, of q] bib_only_fields(1) [OF s'(2)] by (simp add: sess_count_def)
  then have "pktq_ok X B K s'"
    by (intro pktq_ok_refs [OF ok s'(3) ref_only_queue [OF bib_only_ref_only [OF s'(2)]]]) (simp_all add: v)
  then show thesis using that s' v by blast
qed

text \<open>Writing to the fields of a session that are neither its keys nor its counter.\<close>

lemma session_write:
  assumes ok: "pktq_ok X B K s" and q: "sessions s q = Some e"
    and e': "se_refcounter e' = se_refcounter e" "se_bib e' = se_bib e" "se_l4_proto e' = se_l4_proto e"
      "se_remote6 e' = se_remote6 e" "se_local4 e' = se_local4 e" "se_remote4 e' = se_remote4 e"
  shows "pktq_ok X B K (s\<lparr>sessions := (sessions s)(q \<mapsto> e')\<rparr>)"
    "sview (s\<lparr>sessions := (sessions s)(q \<mapsto> e')\<rparr>) = (sview s)(q \<mapsto> e'\<lparr>se_refcounter := 0\<rparr>)"
proof -
  let ?s' = "s\<lparr>sessions := (sessions s)(q \<mapsto> e')\<rparr>"
  have "se_refcounter e \<ge> 1" using pktq_ok_D(1) [OF ok] q unfolding refs_ok_def by blast
  then have r: "refs_ok B ?s'" using refs_ok_upd [OF pktq_ok_D(1) [OF ok] q] e' by simp
  show v: "sview ?s' = (sview s)(q \<mapsto> e'\<lparr>se_refcounter := 0\<rparr>)" using sview_upd [of ?s' s q "Some e'"] by simp
  have c: "sess_count ?s' q' = int (count (node_refs X s + K) q')" for q'
    using pktq_ok_D(3) [OF ok, of q'] q e'(1) by (cases "q' = q") (simp_all add: sess_count_def)
  show "pktq_ok X B K ?s'"
  proof (rule pktq_ok_refs [OF ok r _ _ c])
    fix n nd e2 assume nd: "nodes s n = Some nd" "sview s (pn_session nd) = Some e2"
    show "\<exists>e3. sview ?s' (pn_session nd) = Some e3 \<and> session_key4 e3 = session_key4 e2 \<and> se_l4_proto e3 = se_l4_proto e2"
      unfolding v using nd(2) q e' by (cases "pn_session nd = q") (auto simp: sview_def session_key4_def)
  qed (simp add: queue_same_def)
qed


section \<open>Operations of the queue\<close>

text \<open>Returning a reference does not look at the queue's nodes.\<close>

lemma bib_put_table_nodes: "bib_put_table proto t (s\<lparr>nodes := h\<rparr>) = (bib_put_table proto t s)\<lparr>nodes := h\<rparr>"
  by (cases proto) (simp_all add: bib_put_table_def)

lemma bib_get_table_nodes: "bib_get_table proto (s\<lparr>nodes := h\<rparr>) = bib_get_table proto s"
  by (cases proto) (simp_all add: bib_get_table_def)

lemma bibdb_return_nodes:
  "bibdb_return ops b (s\<lparr>nodes := h\<rparr>) = map_option (\<lambda>s'. s'\<lparr>nodes := h\<rparr>) (bibdb_return ops b s)"
  by (cases b) (auto simp: bibdb_return_def bib_put_table_nodes bib_get_table_nodes
      split: Option.bind_splits option.splits)

lemma session_return_nodes:
  "session_return ops q (s\<lparr>nodes := h\<rparr>) = map_option (\<lambda>s'. s'\<lparr>nodes := h\<rparr>) (session_return ops q s)"
proof -
  have c: "s\<lparr>nodes := h, sessions := g\<rparr> = s\<lparr>sessions := g, nodes := h\<rparr>" for s :: "'a pktq_db_scheme" and g by simp
  show ?thesis
    by (auto simp: session_return_def session_release_def Let_def c bibdb_return_nodes
      split: Option.bind_splits option.splits)
qed

lemma refs_ok_cong:
  assumes "bibs s' = bibs s" "bib_tcp s' = bib_tcp s" "bib_udp s' = bib_udp s" "bib_icmp s' = bib_icmp s"
    "sessions s' = sessions s"
  shows "refs_ok B s' = refs_ok B s"
  using assms bib_wf_cong [OF assms(1-4)] by (simp add: refs_ok_def bib_count_def)

lemma sview_pktq [simp]:
  "sview (emit ev s) = sview s" "sview (s\<lparr>pq_timer := t\<rparr>) = sview s" "sview (s\<lparr>nodes := h\<rparr>) = sview s"
  "sview (s\<lparr>node_list := xs\<rparr>) = sview s" "sview (s\<lparr>node_tree := tr\<rparr>) = sview s" "sview (s\<lparr>node_count := c\<rparr>) = sview s"
  by (simp_all add: sview_def emit_def fun_eq_iff)

lemma emit_fields [simp]:
  "sessions (emit ev s) = sessions s" "bibs (emit ev s) = bibs s" "jiffies (emit ev s) = jiffies s"
  "outs (emit ev s) = outs s @ ev"
  by (simp_all add: emit_def)

lemma emit_queue [simp]:
  "nodes (emit ev s) = nodes s" "node_list (emit ev s) = node_list s" "node_tree (emit ev s) = node_tree s"
  "node_count (emit ev s) = node_count s" "pq_timer (emit ev s) = pq_timer s"
  by (simp_all add: emit_def)

lemma pktq_ok_emit [simp]: "pktq_ok X B K (emit ev s) = pktq_ok X B K s"
proof -
  have "refs_ok B (emit ev s) = refs_ok B s" by (rule refs_ok_cong) (simp_all add: emit_def)
  then show ?thesis by (simp add: pktq_ok_def pktq_wf_def node_refs_def sess_count_def)
qed

lemma pktq_ok_timer [simp]: "pktq_ok X B K (s\<lparr>pq_timer := t\<rparr>) = pktq_ok X B K s"
proof -
  have "refs_ok B (s\<lparr>pq_timer := t\<rparr>) = refs_ok B s" by (rule refs_ok_cong) simp_all
  then show ?thesis by (simp add: pktq_ok_def pktq_wf_def node_refs_def sess_count_def)
qed

lemma pktq_frame_simps [simp]:
  "pktq_frame s (emit ev s') = pktq_frame s s'" "pktq_frame s (s'\<lparr>pq_timer := t\<rparr>) = pktq_frame s s'"
  "pktq_frame s (s'\<lparr>nodes := h\<rparr>) = pktq_frame s s'" "pktq_frame s (s'\<lparr>node_list := xs\<rparr>) = pktq_frame s s'"
  "pktq_frame s (s'\<lparr>node_tree := tr\<rparr>) = pktq_frame s s'" "pktq_frame s (s'\<lparr>node_count := c\<rparr>) = pktq_frame s s'"
  by (simp_all add: pktq_frame_def emit_def)

lemma pktq_rm_ok:
  assumes env: "sess_env_ok env" and ok: "pktq_ok X B K s" and n: "n \<in> set (node_list s)"
  obtains s' where "pktq_rm env n s = Some s'" "pktq_ok (n # X) B K s'" "sview s' = sview s" "pktq_frame s s'"
    "node_list s' = remove1 n (node_list s)" "nodes s' = nodes s" "pq_timer s' = pq_timer s" "bibs s' = bibs s"
proof -
  note wf = pktq_ok_D(2) [OF ok]
  have laws: "rb_laws (ev_rb env)" using env by (simp add: sess_env_ok_def)
  let ?t = "rb_erase (ev_rb env) n (node_tree s)"
  let ?s' = "s\<lparr>node_list := remove1 n (node_list s), node_tree := ?t, node_count := node_count s - 1\<rparr>"
  have nt: "n \<in> set (inorder (node_tree s))" using wf n unfolding pktq_wf_def by blast
  have r: "pktq_rm env n s = Some ?s'" using nt by (simp add: pktq_rm_def rbtree_erase_def del: set_inorder)
  have srt: "pktq.keys_sorted (nodes s, sview s) (inorder (node_tree s))" using wf by (simp add: pktq_wf_def)
  have dist: "distinct (inorder (node_tree s))" using pktq.keys_sorted_distinct [OF srt] .
  have "set (inorder ?t) = set (remove1 n (node_list s))"
    using wf dist unfolding rb_laws_erase [OF laws] pktq_wf_def by (simp del: set_inorder)
  moreover have "pktq.keys_sorted (nodes s, sview s) (inorder ?t)"
    unfolding rb_laws_erase [OF laws] by (rule pktq.keys_sorted_remove1 [OF srt])
  moreover have "node_count s - 1 = of_nat (length (remove1 n (node_list s)))"
    using wf length_Suc_remove1 [OF n] by (simp add: pktq_wf_def)
  moreover have "distinct (remove1 n (node_list s) @ n # X)" "set (remove1 n (node_list s)) \<union> set (n # X) = set (node_list s) \<union> set X"
    using wf n by (auto simp: pktq_wf_def)
  ultimately have "pktq_wf (n # X) ?s'"
    using wf unfolding pktq_wf_def by (simp del: set_inorder)
  moreover have "node_refs (n # X) ?s' = node_refs X s"
  proof -
    have "mset (remove1 n (node_list s) @ n # X) = mset (node_list s @ X)" using n by simp
    moreover have "node_list ?s' = remove1 n (node_list s)" "nodes ?s' = nodes s" by simp_all
    ultimately show ?thesis by (simp only: node_refs_def)
  qed
  moreover have "refs_ok B ?s'" using pktq_ok_D(1) [OF ok] refs_ok_cong [of ?s' s] by simp
  ultimately have "pktq_ok (n # X) B K ?s'"
    using pktq_ok_D(3) [OF ok] by (simp add: pktq_ok_def sess_count_def)
  then show ?thesis using that [OF r] by simp
qed

text \<open>A node gives its reference to whoever frees it.\<close>

lemma node_drop:
  assumes ok: "pktq_ok (n # X) B K s" and n: "nodes s n = Some nd"
  shows "pktq_ok X B (add_mset (pn_session nd) K) (s\<lparr>nodes := (nodes s)(n := None)\<rparr>)"
proof -
  note wf = pktq_ok_D(2) [OF ok]
  let ?h = "(nodes s)(n := None)"
  have nn: "n \<notin> set (node_list s)" "n \<notin> set X" "set (inorder (node_tree s)) = set (node_list s)"
    using wf by (auto simp: pktq_wf_def simp del: set_inorder)
  have "pktq_key (?h, sview s) x = pktq_key (nodes s, sview s) x" if "x \<in> set (inorder (node_tree s))" for x
    using that nn by (auto simp: pktq_key_def simp del: set_inorder)
  then have "pktq.keys_sorted (?h, sview s) (inorder (node_tree s)) = pktq.keys_sorted (nodes s, sview s) (inorder (node_tree s))"
    by (intro pktq.keys_sorted_cong) blast
  moreover have "dom ?h = set (node_list s) \<union> set X" using wf nn by (auto simp: pktq_wf_def)
  ultimately have "pktq_wf X (s\<lparr>nodes := ?h\<rparr>)"
    using wf unfolding pktq_wf_def by (auto simp del: set_inorder)
  moreover have "node_refs (n # X) s = add_mset (pn_session nd) (node_refs X (s\<lparr>nodes := ?h\<rparr>))"
  proof -
    have "image_mset (\<lambda>m. pn_session (the (?h m))) (mset (node_list s @ X)) =
        image_mset (\<lambda>m. pn_session (the (nodes s m))) (mset (node_list s @ X))"
      using nn by (intro image_mset_cong) auto
    then show ?thesis using n by (simp add: node_refs_def)
  qed
  moreover have "refs_ok B (s\<lparr>nodes := ?h\<rparr>)" using pktq_ok_D(1) [OF ok] refs_ok_cong [of "s\<lparr>nodes := ?h\<rparr>" s] by simp
  ultimately show ?thesis
    using pktq_ok_D(3) [OF ok] by (simp add: pktq_ok_def sess_count_def)
qed

lemma node_return:
  assumes env: "sess_env_ok env" and ok: "pktq_ok (n # X) B K s" and n: "nodes s n = Some nd"
  obtains s2 where "session_return (ev_rb env) (pn_session nd) s = Some s2"
    "pktq_ok X B K (s2\<lparr>nodes := (nodes s2)(n := None)\<rparr>)" "sview s2 \<subseteq>\<^sub>m sview s" "ref_only s s2"
proof -
  have laws: "rb_laws (ev_rb env)" using env by (simp add: sess_env_ok_def)
  let ?s1 = "s\<lparr>nodes := (nodes s)(n := None)\<rparr>"
  obtain s' where s': "session_return (ev_rb env) (pn_session nd) ?s1 = Some s'" "pktq_ok X B K s'" "ref_only ?s1 s'"
    "sview s' = (if pn_session nd \<in># node_refs X ?s1 + K then sview ?s1 else (sview ?s1)(pn_session nd := None))"
    using session_return_token [OF laws node_drop [OF ok n]] by blast
  obtain s2 where s2: "session_return (ev_rb env) (pn_session nd) s = Some s2" "s' = s2\<lparr>nodes := (nodes s)(n := None)\<rparr>"
    using s'(1) by (auto simp: session_return_nodes)
  have "sview s2 \<subseteq>\<^sub>m sview s" using s'(4) s2(2) by (auto simp: map_le_def)
  moreover have ref: "ref_only s s2"
  proof -
    obtain e where e: "sessions s (pn_session nd) = Some e"
      using pktq_ok_live [OF ok, of "pn_session nd"] node_ref [OF pktq_ok_D(2) [OF ok] n] by auto
    show ?thesis using session_return_ok [OF laws pktq_ok_D(1) [OF ok] e] s2(1) by (metis option.inject)
  qed
  moreover have "nodes s2 = nodes s" using ref_only_queue [OF ref] by (simp add: queue_same_def)
  ultimately show ?thesis using that s2 s'(2) by simp
qed


lemma pktqueue_remove_ok:
  assumes env: "sess_env_ok env" and ok: "pktq_ok [] B K s" and q: "sessions s q = Some e"
  obtains s' where "pktqueue_remove env q s = Some s'" "pktq_ok [] B K s'" "sview s' \<subseteq>\<^sub>m sview s" "pktq_frame s s'"
    "pktq_timer_ok s \<Longrightarrow> pktq_timer_ok s'" "set (node_list s') \<subseteq> set (node_list s)"
    "length (node_list s') \<le> length (node_list s)"
proof (cases "se_l4_proto e = L4PROTO_TCP")
  case False
  then show ?thesis using that [of s] ok q by (simp add: pktqueue_remove_def)
next
  case True
  have srt: "pktq.keys_sorted (nodes s, sessions s) (inorder (node_tree s))"
    using pktq_ok_D(2) [OF ok] by (simp add: pktq_wf_def pktq_sorted_sview)
  obtain r where r: "rbtree_find (pktq_compare_fn (nodes s, sessions s) (session_key4 e)) (node_tree s) = Some r"
    "\<forall>n. r = Some n \<longleftrightarrow> n \<in> set (inorder (node_tree s)) \<and> pktq_key (nodes s, sessions s) n = Some (session_key4 e)"
    using pktq.find_ok [OF srt] by blast
  show ?thesis
  proof (cases r)
    case None
    then show ?thesis using that [of s] ok q r(1) True by (simp add: pktqueue_remove_def)
  next
    case (Some n)
    have n: "n \<in> set (node_list s)" using r(2) Some pktq_ok_D(2) [OF ok] unfolding pktq_wf_def by blast
    then obtain nd where nd: "nodes s n = Some nd" using pktq_ok_D(2) [OF ok] unfolding pktq_wf_def by blast
    obtain s1 where s1: "pktq_rm env n s = Some s1" "pktq_ok [n] B K s1" "sview s1 = sview s" "pktq_frame s s1"
      "node_list s1 = remove1 n (node_list s)" "nodes s1 = nodes s" "pq_timer s1 = pq_timer s"
      using pktq_rm_ok [OF env ok n] by blast
    obtain s2 where s2: "session_return (ev_rb env) (pn_session nd) s1 = Some s2"
      "pktq_ok [] B K (s2\<lparr>nodes := (nodes s2)(n := None)\<rparr>)" "sview s2 \<subseteq>\<^sub>m sview s1" "ref_only s1 s2"
      using node_return [OF env s1(2)] nd s1(6) by metis
    have same: "queue_same s1 s2" using ref_only_queue [OF s2(4)] .
    let ?s' = "s2\<lparr>nodes := (nodes s2)(n := None)\<rparr>"
    have l: "node_list ?s' = remove1 n (node_list s)" "pq_timer ?s' = pq_timer s"
      using same s1(5,7) by (simp_all add: queue_same_def)
    have len: "length (remove1 n (node_list s)) \<le> length (node_list s)" by (simp add: length_remove1)
    show ?thesis
    proof (rule that [OF _ s2(2)])
      show "pktqueue_remove env q s = Some ?s'"
        using q True r(1) Some s1(1,6) nd s2(1) by (simp add: pktqueue_remove_def)
      show "sview ?s' \<subseteq>\<^sub>m sview s" using s2(3) s1(3) by simp
      show "pktq_frame s ?s'" using pktq_frame_trans [OF s1(4) ref_only_frame [OF s2(4)]] by simp
      show "pktq_timer_ok s \<Longrightarrow> pktq_timer_ok ?s'" using l by (cases "node_list s") (auto simp: pktq_timer_ok_def)
      show "set (node_list ?s') \<subseteq> set (node_list s)" unfolding l by (rule set_remove1_subset)
      show "length (node_list ?s') \<le> length (node_list s)" unfolding l using len .
    qed
  qed
qed

lemma node_add:
  assumes ok: "pktq_ok [] B (add_mset q K) s" and n: "nodes s n = None"
    and e: "sview s q = Some e" "se_l4_proto e = L4PROTO_TCP"
    and t: "inorder (node_tree s) = xs @ ys" "inorder t = xs @ n # ys"
      "pktq.keys_sorted ((nodes s)(n \<mapsto> \<lparr>pn_session = q, pn_pkt = pkt\<rparr>), sview s) (inorder t)"
  shows "pktq_ok [] B K (s\<lparr>nodes := (nodes s)(n \<mapsto> \<lparr>pn_session = q, pn_pkt = pkt\<rparr>), node_tree := t,
    node_list := node_list s @ [n], node_count := node_count s + 1\<rparr>)" (is "pktq_ok _ _ _ ?s'")
proof -
  note wf = pktq_ok_D(2) [OF ok]
  have nn: "n \<notin> set (node_list s)" using wf n by (auto simp: pktq_wf_def)
  have "set (inorder (node_tree s)) = set (node_list s)" using wf by (simp add: pktq_wf_def del: set_inorder)
  then have "set (inorder t) = set (node_list s @ [n])" using t(1,2) by (auto simp del: set_inorder)
  moreover have "\<exists>e. sview s (pn_session nd) = Some e \<and> se_l4_proto e = L4PROTO_TCP"
    if "((nodes s)(n \<mapsto> \<lparr>pn_session = q, pn_pkt = pkt\<rparr>)) m = Some nd" for m nd
    using that e pktq_wf_node [OF wf, of m nd] by (cases "m = n") auto
  ultimately have "pktq_wf [] ?s'"
    using wf nn t(3) unfolding pktq_wf_def by (auto simp del: set_inorder)
  moreover have "node_refs [] ?s' = add_mset q (node_refs [] s)"
  proof -
    have "image_mset (\<lambda>m. pn_session (the (((nodes s)(n \<mapsto> \<lparr>pn_session = q, pn_pkt = pkt\<rparr>)) m))) (mset (node_list s)) =
        image_mset (\<lambda>m. pn_session (the (nodes s m))) (mset (node_list s))"
      using nn by (intro image_mset_cong) auto
    then show ?thesis by (simp add: node_refs_def)
  qed
  moreover have "refs_ok B ?s'" using pktq_ok_D(1) [OF ok] refs_ok_cong [of ?s' s] by simp
  ultimately show ?thesis using pktq_ok_D(3) [OF ok] by (simp add: pktq_ok_def sess_count_def)
qed


text \<open>The refusals leave the state as it was, one ICMP error apart.\<close>

lemma pktqueue_add_cases:
  assumes env: "sess_env_ok env" and ok: "pktq_ok [] B K s" and q: "sessions s q = Some e"
    and tcp: "se_l4_proto e = L4PROTO_TCP"
  obtains (refused) r ev where "pktqueue_add env q pkt s = Some (Err r, emit ev s)"
    | (stored) s' n where "pktqueue_add env q pkt s = Some (Ok, s')" "pktq_ok [] B K s'" "sview s' = sview s"
      "pktq_frame s s'" "pktq_timer_ok s'" "bibs s' = bibs s" "outs s' = outs s"
      "node_list s' = node_list s @ [n]" "nodes s n = None"
      "nodes s' = (nodes s)(n \<mapsto> \<lparr>pn_session = q, pn_pkt = pkt\<rparr>)" "node_count s + 1 < config_get_max_pkts (ev_cfg env)"
proof (cases "ev_node_alloc env (nodes s)")
  case None
  have "s = emit [] s" by (simp add: emit_def)
  then show ?thesis using refused [of ENOMEM "[]"] None q tcp by (simp add: pktqueue_add_def)
next
  case (Some n)
  have n: "nodes s n = None" and laws: "rb_laws (ev_rb env)" using env Some by (auto simp: sess_env_ok_def)
  define nd where "nd = \<lparr>pn_session = q, pn_pkt = pkt\<rparr>"
  define h where "h = (nodes s)(n \<mapsto> nd)"
  have idem: "s\<lparr>nodes := (nodes s)(n := None)\<rparr> = s" using n by (simp add: fun_upd_idem)
  note wf = pktq_ok_D(2) [OF ok]
  show ?thesis
  proof (cases "node_count s + 1 \<ge> config_get_max_pkts (ev_cfg env)")
    case True
    have "(emit ev (s\<lparr>nodes := h\<rparr>))\<lparr>nodes := h(n := None)\<rparr> = emit ev s" for ev
      using n by (simp add: emit_def h_def fun_upd_idem)
    then show ?thesis using refused True Some q tcp by (simp add: pktqueue_add_def Let_def h_def nd_def)
  next
    case False
    have tn: "set (inorder (node_tree s)) = set (node_list s)" "n \<notin> set (node_list s)"
      using wf n by (auto simp: pktq_wf_def simp del: set_inorder)
    have "pktq_key (h, sessions s) x = pktq_key (nodes s, sview s) x" if "x \<in> set (inorder (node_tree s))" for x
      using that tn unfolding pktq_key_sview by (auto simp: pktq_key_def h_def simp del: set_inorder)
    then have srt: "pktq.keys_sorted (h, sessions s) (inorder (node_tree s))"
      using wf pktq.keys_sorted_cong [of "inorder (node_tree s)" "(h, sessions s)" "(nodes s, sview s)"]
      by (simp add: pktq_wf_def del: set_inorder)
    have key: "pktq_key (h, sessions s) n = Some (session_key4 e)" using q by (simp add: pktq_key_def h_def nd_def)
    show ?thesis
    proof (cases rule: pktq.add_Ok_iff [OF laws srt key])
      case (1 x)
      then have "pktqueue_add env q pkt s = Some (Err EEXIST, s)"
        using False Some q tcp idem n by (simp add: pktqueue_add_def Let_def h_def nd_def fun_upd_idem)
      moreover have "s = emit [] s" by (simp add: emit_def)
      ultimately show ?thesis using refused [of EEXIST "[]"] by simp
    next
      case (2 t xs ys)
      obtain sg where sg: "session_get q s = Some sg" "pktq_ok [] B (add_mset q K) sg" "ref_only s sg" "sview sg = sview s"
        "bibs sg = bibs s"
        using session_get_token [OF ok q] by blast
      have qs: "nodes sg = nodes s" "node_list sg = node_list s" "node_tree sg = node_tree s" "node_count sg = node_count s"
        using ref_only_queue [OF sg(3)] by (simp_all add: queue_same_def)
      define s2 where "s2 = s\<lparr>nodes := h, node_tree := t, node_list := node_list s @ [n], node_count := node_count s + 1\<rparr>"
      define s3 where "s3 = sg\<lparr>nodes := h, node_tree := t, node_list := node_list s @ [n], node_count := node_count s + 1\<rparr>"
      obtain m where m: "first_of (node_list s @ [n]) = Some m" "m \<in> set (node_list s @ [n])"
        by (cases "node_list s") auto
      have "dom h = set (node_list s @ [n])" using wf by (auto simp: pktq_wf_def h_def)
      then obtain nd2 where nd2: "h m = Some nd2" using m(2) by blast
      have "\<exists>e2. sessions s (pn_session nd2) = Some e2"
      proof (cases "m = n")
        case True
        then show ?thesis using nd2 q by (auto simp: h_def nd_def)
      next
        case False
        then have "nodes s m = Some nd2" using nd2 by (simp add: h_def)
        then show ?thesis using pktq_wf_node [OF wf] sview_SomeD by metis
      qed
      then obtain e2 where e2: "sessions s (pn_session nd2) = Some e2" by blast
      let ?time = "se_update_time e2 + pktq_get_timeout env"
      have r: "pktqueue_add env q pkt s = Some (Ok, s3\<lparr>pq_timer := Some ?time\<rparr>)"
        using False Some q tcp 2(2) m(1) nd2 e2 sg(1)
        by (auto simp: pktqueue_add_def Let_def h_def nd_def session_get_def s3_def)
      have "pktq.keys_sorted (h, sview sg) (inorder t)" using 2(5) sg(4) by (simp add: pktq_sorted_sview)
      then have "pktq_ok [] B K s3"
        using node_add [OF sg(2), of n "e\<lparr>se_refcounter := 0\<rparr>" xs ys t pkt] qs n tcp sview_Some [OF q] sg(4) 2(3,4)
        by (simp add: s3_def h_def nd_def)
      then show ?thesis
        using stored [OF r, of n] sg n False qs ref_only_frame [OF sg(3)] sg(3)
        by (simp add: s3_def h_def nd_def pktq_timer_ok_def ref_only_def not_le)
    qed
  qed
qed


section \<open>The timer\<close>

fun list_each :: "(ptr \<Rightarrow> 's \<Rightarrow> (bool \<times> 's) option) \<Rightarrow> ptr list \<Rightarrow> 's \<Rightarrow> 's option" where
  "list_each body [] s = Some s"
| "list_each body (p # ps) s =
     do { (break, s') \<leftarrow> body p s; (if break then Some s' else list_each body ps s') }"

text \<open>A body that unlinks nothing that is still to come lets the loop be read as one over the initial list.\<close>

lemma list_for_each_safe_list:
  assumes step: "\<And>p s pre rest s'. I s \<Longrightarrow> head s = pre @ p # rest \<Longrightarrow> distinct (head s) \<Longrightarrow> body p s = Some (False, s') \<Longrightarrow>
      I s' \<and> (\<exists>pre'. head s' = pre' @ rest) \<and> distinct (head s')"
    and "I s" "head s = pre @ ps" "distinct (head s)"
  shows "list_for_each_safe head body (first_of ps) s = list_each body ps s"
  using assms(2-)
proof (induction ps arbitrary: pre s)
  case Nil
  then show ?case by (simp add: list_for_each_safe.simps)
next
  case (Cons p ps)
  have n: "list_next (head s) p = first_of ps" "p \<in> set (head s)"
    using Cons.prems(2,3) by (simp_all add: list_next_split)
  have "list_for_each_safe head body (first_of ps) s' = list_each body ps s'" if "body p s = Some (False, s')" for s'
    using step [OF Cons.prems that] Cons.IH by blast
  then show ?case
    using n by (cases "body p s") (auto simp: list_for_each_safe.simps [of head body "Some p"] split: prod.splits)
qed

definition node_expired :: "sess_env \<Rightarrow> 'a pktq_db_scheme \<Rightarrow> ptr \<Rightarrow> bool" where
  "node_expired env s n =
     (case Option.bind (nodes s n) (\<lambda>nd. sview s (pn_session nd)) of
        None \<Rightarrow> False
      | Some e \<Rightarrow> \<not> time_before (jiffies s) (se_update_time e + pktq_get_timeout env))"

definition node_icmp :: "sess_env \<Rightarrow> 'a pktq_db_scheme \<Rightarrow> ptr \<Rightarrow> out_event list" where
  "node_icmp env s n = (case nodes s n of None \<Rightarrow> []
     | Some nd \<Rightarrow> icmp64_send (ev_route4_input env) (pn_pkt nd) ICMPERR_PORT_UNREACHABLE 0)"

lemma pktq_cleaner_loop:
  assumes env: "sess_env_ok env"
  shows "pktq_ok X B K s \<Longrightarrow> node_list s = ps \<Longrightarrow> outs s = ev \<Longrightarrow>
    \<exists>s1. list_each (pktq_cleaner_body env (pktq_get_timeout env)) ps (s, X) = Some (s1, rev (takeWhile (node_expired env s) ps) @ X) \<and>
      pktq_ok (rev (takeWhile (node_expired env s) ps) @ X) B K s1 \<and> node_list s1 = dropWhile (node_expired env s) ps \<and>
      nodes s1 = nodes s \<and> sview s1 = sview s \<and> pktq_frame s s1 \<and> outs s1 = ev \<and> pktq_timer_ok s1"
proof (induction ps arbitrary: s X)
  case Nil
  then show ?case by (simp add: pktq_timer_ok_def)
next
  case (Cons n ps)
  note wf = pktq_ok_D(2) [OF Cons.prems(1)]
  have n: "n \<in> set (node_list s)" using Cons.prems(2) by simp
  then obtain nd where nd: "nodes s n = Some nd" using wf unfolding pktq_wf_def by blast
  obtain v where v: "sview s (pn_session nd) = Some v" using pktq_wf_node [OF wf nd] by blast
  then obtain e where e: "sessions s (pn_session nd) = Some e" "v = e\<lparr>se_refcounter := 0\<rparr>" using sview_SomeD by blast
  have ex: "node_expired env s n \<longleftrightarrow> \<not> time_before (jiffies s) (se_update_time e + pktq_get_timeout env)"
    using nd v e(2) by (simp add: node_expired_def)
  show ?case
  proof (cases "node_expired env s n")
    case False
    then show ?thesis
      using Cons.prems nd e(1) ex by (simp add: pktq_cleaner_body_def Let_def pktq_timer_ok_def)
  next
    case True
    obtain s1 where s1: "pktq_rm env n s = Some s1" "pktq_ok (n # X) B K s1" "sview s1 = sview s" "pktq_frame s s1"
      "node_list s1 = remove1 n (node_list s)" "nodes s1 = nodes s"
      using pktq_rm_ok [OF env Cons.prems(1) n] by blast
    have o: "outs s1 = ev" using s1(1) Cons.prems(3) by (auto simp: pktq_rm_def bind_eq_Some_conv)
    have x: "node_expired env s1 = node_expired env s"
      using s1(3,4,6) by (intro ext) (simp add: node_expired_def pktq_frame_def cong: option.case_cong)
    have body: "pktq_cleaner_body env (pktq_get_timeout env) n (s, X) = Some (False, s1, n # X)"
      using nd e(1) ex True s1(1) by (simp add: pktq_cleaner_body_def Let_def)
    have "node_list s1 = ps" using s1(5) Cons.prems(2) by simp
    from Cons.IH [OF s1(2) this o] obtain s2 where s2:
      "list_each (pktq_cleaner_body env (pktq_get_timeout env)) ps (s1, n # X) = Some (s2, rev (takeWhile (node_expired env s) ps) @ n # X)"
      "pktq_ok (rev (takeWhile (node_expired env s) ps) @ n # X) B K s2" "node_list s2 = dropWhile (node_expired env s) ps"
      "nodes s2 = nodes s" "sview s2 = sview s" "pktq_frame s1 s2" "outs s2 = ev" "pktq_timer_ok s2"
      unfolding x using s1(3,6) by auto
    then show ?thesis using True body pktq_frame_trans [OF s1(4) s2(6)] by auto
  qed
qed

lemma send_icmp_errors_ok:
  assumes env: "sess_env_ok env"
  shows "pktq_ok X B K s \<Longrightarrow> \<exists>s'. send_icmp_errors env X s = Some s' \<and> pktq_ok [] B K s' \<and> sview s' \<subseteq>\<^sub>m sview s \<and>
    pktq_frame s s' \<and> node_list s' = node_list s \<and> pq_timer s' = pq_timer s \<and>
    outs s' = outs s @ concat (map (node_icmp env s) X)"
proof (induction X arbitrary: s)
  case Nil
  then show ?case by simp
next
  case (Cons n X)
  note wf = pktq_ok_D(2) [OF Cons.prems]
  have "n \<in> dom (nodes s)" using wf by (simp add: pktq_wf_def)
  then obtain nd where nd: "nodes s n = Some nd" by blast
  define s0 where "s0 = emit (node_icmp env s n) s"
  have ok0: "pktq_ok (n # X) B K s0" using Cons.prems by (simp add: s0_def)
  have nd0: "nodes s0 n = Some nd" using nd by (simp add: s0_def emit_def)
  obtain s2 where s2: "session_return (ev_rb env) (pn_session nd) s0 = Some s2"
    "pktq_ok X B K (s2\<lparr>nodes := (nodes s2)(n := None)\<rparr>)" "sview s2 \<subseteq>\<^sub>m sview s0" "ref_only s0 s2"
    using node_return [OF env ok0 nd0] by blast
  let ?s3 = "s2\<lparr>nodes := (nodes s2)(n := None)\<rparr>"
  have same: "nodes s2 = nodes s" "node_list s2 = node_list s" "pq_timer s2 = pq_timer s" "outs s2 = outs s @ node_icmp env s n"
    using ref_only_queue [OF s2(4)] s2(4) by (simp_all add: queue_same_def s0_def emit_def ref_only_def)
  have "distinct (n # X)" using wf by (simp add: pktq_wf_def)
  then have ic: "map (node_icmp env ?s3) X = map (node_icmp env s) X" using same(1) by (auto simp: node_icmp_def)
  have fr: "pktq_frame s ?s3" using ref_only_frame [OF s2(4)] by (simp add: s0_def pktq_frame_def emit_def)
  have send: "send_icmp_error env n s = Some ?s3"
    using nd s2(1) by (simp add: send_icmp_error_def Let_def s0_def node_icmp_def)
  obtain s4 where s4: "send_icmp_errors env X ?s3 = Some s4" "pktq_ok [] B K s4" "sview s4 \<subseteq>\<^sub>m sview ?s3"
    "pktq_frame ?s3 s4" "node_list s4 = node_list ?s3" "pq_timer s4 = pq_timer ?s3"
    "outs s4 = outs ?s3 @ concat (map (node_icmp env ?s3) X)"
    using Cons.IH [OF s2(2)] by blast
  have "sview s4 \<subseteq>\<^sub>m sview s" using s4(3) s2(3) map_le_trans by (fastforce simp: s0_def)
  moreover have "outs s4 = outs s @ concat (map (node_icmp env s) (n # X))"
    using s4(7) same(4) unfolding ic by simp
  ultimately show ?case
    using send s4(1-6) same pktq_frame_trans [OF fr s4(4)] by simp
qed


lemma pktq_cleaner_timer_ok:
  assumes env: "sess_env_ok env" and ok: "pktq_ok [] B K s"
  obtains s' where "pktq_cleaner_timer env s = Some s'" "pktq_ok [] B K s'" "sview s' \<subseteq>\<^sub>m sview s" "pktq_frame s s'"
    "node_list s' = dropWhile (node_expired env s) (node_list s)" "pktq_timer_ok s'"
    "outs s' = outs s @ concat (map (node_icmp env s) (rev (takeWhile (node_expired env s) (node_list s))))"
proof -
  let ?body = "pktq_cleaner_body env (pktq_get_timeout env)"
  have "list_for_each_safe (\<lambda>(s, _). node_list s) ?body (first_of (node_list s)) (s, []) =
      list_each ?body (node_list s) (s, [])"
  proof (rule list_for_each_safe_list [where I = "\<lambda>_. True" and pre = "[]"])
    show "distinct (case (s, [] :: ptr list) of (s, _) \<Rightarrow> node_list s)"
      using pktq_ok_D(2) [OF ok] by (simp add: pktq_wf_def)
  next
    fix p and st st' :: "'a pktq_db_scheme \<times> ptr list" and pre rest
    assume a: "(case st of (s, _) \<Rightarrow> node_list s) = pre @ p # rest" "distinct (case st of (s, _) \<Rightarrow> node_list s)"
      "?body p st = Some (False, st')"
    obtain s0 x0 s1 x1 where st: "st = (s0, x0)" "st' = (s1, x1)" by fastforce
    have "node_list s1 = remove1 p (node_list s0)"
      using a(3) st by (auto simp: pktq_cleaner_body_def pktq_rm_def Let_def bind_eq_Some_conv split: if_splits)
    also have "\<dots> = pre @ rest" using a(1,2) st(1) by (simp add: remove1_append)
    finally show "True \<and> (\<exists>pre'. (case st' of (s, _) \<Rightarrow> node_list s) = pre' @ rest) \<and>
        distinct (case st' of (s, _) \<Rightarrow> node_list s)"
      using a(1,2) st by auto
  qed simp_all
  moreover obtain s1 where s1:
    "list_each ?body (node_list s) (s, []) = Some (s1, rev (takeWhile (node_expired env s) (node_list s)))"
    "pktq_ok (rev (takeWhile (node_expired env s) (node_list s))) B K s1"
    "node_list s1 = dropWhile (node_expired env s) (node_list s)" "nodes s1 = nodes s" "sview s1 = sview s"
    "pktq_frame s s1" "outs s1 = outs s" "pktq_timer_ok s1"
    using pktq_cleaner_loop [OF env ok refl refl] by auto
  moreover obtain s' where s': "send_icmp_errors env (rev (takeWhile (node_expired env s) (node_list s))) s1 = Some s'"
    "pktq_ok [] B K s'" "sview s' \<subseteq>\<^sub>m sview s1" "pktq_frame s1 s'" "node_list s' = node_list s1" "pq_timer s' = pq_timer s1"
    "outs s' = outs s1 @ concat (map (node_icmp env s1) (rev (takeWhile (node_expired env s) (node_list s))))"
    using send_icmp_errors_ok [OF env s1(2)] by blast
  moreover have "node_icmp env s1 = node_icmp env s" using s1(4) by (simp add: node_icmp_def fun_eq_iff)
  ultimately show ?thesis
    using that [of s'] pktq_frame_trans [OF s1(6) s'(4)] by (simp add: pktq_cleaner_timer_def pktq_timer_ok_def)
qed

section \<open>A concrete queue\<close>

definition sample_cfg :: global_config where
  "sample_cfg = (case config_init (\<lambda>m. ucast m) True True False of Inr cfg \<Rightarrow> cfg)"

definition sample_sess_env :: sess_env where
  "sample_sess_env =
     \<lparr>ev_rb = plain_ops, ev_cfg = sample_cfg, ev_msecs_to_jiffies = (\<lambda>m. ucast m), ev_route4_input = (\<lambda>_. True),
      ev_session_alloc = (\<lambda>h. if h 9 = None then Some 9 else None),
      ev_node_alloc = (\<lambda>h. if h 2 = None then Some 2 else None), ev_alloc_skb = True,
      ev_tcp_csum = (\<lambda>_ _. 0), ev_route6 = (\<lambda>_ _. True)\<rparr>"

lemma sample_sess_env_ok: "sess_env_ok sample_sess_env"
  by (simp add: sess_env_ok_def sample_sess_env_def session_alloc_ok_def rb_laws_plain_ops)

definition sample_skb :: sk_buff where
  "sample_skb = \<lparr>sk_data = [], sk_headlen = 0, sk_network_offset = 0, sk_mark = 0, sk_shared = False,
     sk_dev = Some \<lparr>nd_net = True, nd_inet6 = True\<rparr>\<rparr>"

definition sample_packet :: packet where
  "sample_packet = \<lparr>pkt_skb = sample_skb, pkt_l3_proto = L3PROTO_IPV4, pkt_l4_proto = L4PROTO_TCP, pkt_is_inner = False,
     pkt_is_hairpin = False, pkt_hdr_frag = None, pkt_transport_offset = 0, pkt_payload_offset = 0\<rparr>"

definition sample_syn_session :: session_entry where
  "sample_syn_session = \<lparr>se_remote6 = \<lparr>ta6_l3 = 0, ta6_l4 = 0\<rparr>, se_local6 = \<lparr>ta6_l3 = 0, ta6_l4 = 0\<rparr>,
     se_local4 = \<lparr>ta4_l3 = 1, ta4_l4 = 1\<rparr>, se_remote4 = \<lparr>ta4_l3 = 2, ta4_l4 = 2\<rparr>, se_update_time = 0, se_bib = None,
     se_refcounter = 1, se_expirer = None, se_l4_proto = L4PROTO_TCP, se_state = V4_INIT, se_tree6_hook = False,
     se_tree4_hook = False\<rparr>"

text \<open>Session 5 is held by node 3, which is stored, and session 6 by a caller.\<close>

definition sample_pktq :: "u64 \<Rightarrow> pktq_db" where
  "sample_pktq now =
     \<lparr>bibs = Map.empty, bib_tcp = bibtable_init, bib_udp = bibtable_init, bib_icmp = bibtable_init, secret_key = [],
      next_ephemeral = 0,
      sessions = [5 \<mapsto> sample_syn_session, 6 \<mapsto> sample_syn_session\<lparr>se_remote4 := \<lparr>ta4_l3 = 3, ta4_l4 = 3\<rparr>\<rparr>],
      jiffies = now, outs = [], nodes = [3 \<mapsto> \<lparr>pn_session = 5, pn_pkt = sample_packet\<rparr>], node_list = [3],
      node_tree = Node Leaf 3 Leaf, node_count = 1, pq_timer = Some 6000\<rparr>"

lemma sample_pktq_ok: "pktq_ok [] {#} {#6#} (sample_pktq now)"
proof -
  have "bib_wf (sample_pktq now)" by (rule bib_wf_empty) (simp_all add: sample_pktq_def)
  moreover have "holders (sessions (sample_pktq now)) p = {}" for p
    by (auto simp: holders_def sample_pktq_def sample_syn_session_def split: if_splits)
  ultimately have "refs_ok {#} (sample_pktq now)"
    by (auto simp: refs_ok_def bib_count_def sample_pktq_def sample_syn_session_def split: if_splits)
  moreover have "pktq_wf [] (sample_pktq now)"
    by (auto simp: pktq_wf_def pktq_key_def sample_pktq_def sview_def sample_syn_session_def split: if_splits)
  moreover have "sess_count (sample_pktq now) q = int (count (node_refs [] (sample_pktq now) + {#6#}) q)" for q
    by (simp add: sess_count_def node_refs_def sample_pktq_def sample_syn_session_def)
  ultimately show ?thesis by (simp add: pktq_ok_def)
qed

section \<open>Properties\<close>

text \<open>
  C35: when the timer of the packet storage fires, the handler ends without touching freed memory, sends the
  ICMP error of exactly the nodes at the front of the queue that have expired, drops their references and no
  other, and leaves the timer pending whenever packets remain: no stored packet is forgotten.
\<close>

theorem pktq_cleaner_timer_correct:
  assumes "sess_env_ok env" "pktq_ok [] B K s"
  shows "\<exists>s'. pktq_cleaner_timer env s = Some s' \<and> pktq_ok [] B K s' \<and>
    node_list s' = dropWhile (node_expired env s) (node_list s) \<and>
    (node_list s' \<noteq> [] \<longrightarrow> pq_timer s' \<noteq> None) \<and>
    outs s' = outs s @ concat (map (node_icmp env s) (rev (takeWhile (node_expired env s) (node_list s))))"
  using pktq_cleaner_timer_ok [OF assms] unfolding pktq_timer_ok_def by blast


theorem pktq_cleaner_timer_correct_witness:
  "\<exists>s'. pktq_cleaner_timer sample_sess_env (sample_pktq 6000) = Some s' \<and> node_list s' = [] \<and>
     outs s' = [Icmp_send sample_skb 3 3 0]"
proof -
  have x: "node_expired sample_sess_env (sample_pktq 6000) 3"
    by (simp add: node_expired_def sample_pktq_def sview_def sample_syn_session_def pktq_get_timeout_def
      sample_sess_env_def TCP_INCOMING_SYN_def time_before_def)
  have i: "node_icmp sample_sess_env (sample_pktq 6000) 3 = [Icmp_send sample_skb 3 3 0]"
    by (simp add: node_icmp_def sample_pktq_def sample_sess_env_def icmp64_send_def icmp4_send_def sample_packet_def sample_skb_def)
  have l: "node_list (sample_pktq 6000) = [3]" "outs (sample_pktq 6000) = []" by (simp_all add: sample_pktq_def)
  show ?thesis
    using pktq_cleaner_timer_correct [OF sample_sess_env_ok sample_pktq_ok, of 6000] unfolding l by (auto simp: x i)
qed

text \<open>
  C36: the packet storage is bounded: a queue shorter than the configured maximum stays shorter whatever
  \<^verbatim>\<open>pktqueue_add\<close> does, so that its counter never wraps and always is the number of stored packets. The maximum
  itself is never reached.
\<close>

theorem pktqueue_add_bound:
  assumes "sess_env_ok env" "pktq_ok [] B K s" "sessions s q = Some e"
    "length (node_list s) < unat (config_get_max_pkts (ev_cfg env))"
  shows "\<exists>r s'. pktqueue_add env q pkt s = Some (r, s') \<and> pktq_ok [] B K s' \<and>
    length (node_list s') < unat (config_get_max_pkts (ev_cfg env)) \<and>
    unat (node_count s') = length (node_list s')"
proof -
  have cnt: "unat (node_count s') = length (node_list s')"
    if "pktq_ok [] B K s'" "length (node_list s') < unat (config_get_max_pkts (ev_cfg env))" for s'
  proof -
    have "length (node_list s') < 2 ^ LENGTH(32)"
      using less_trans [OF that(2) unat_u32_bound] by simp
    then show ?thesis using pktq_ok_D(2) [OF that(1)] by (simp add: pktq_wf_def unat_of_nat)
  qed
  show ?thesis
  proof (cases "se_l4_proto e = L4PROTO_TCP")
    case False
    then have "pktqueue_add env q pkt s = Some (Ok, s)" using assms(3) by (simp add: pktqueue_add_def)
    then show ?thesis using assms(2,4) cnt [of s] by blast
  next
    case True
    show ?thesis
    proof (cases rule: pktqueue_add_cases [OF assms(1-3) True, of pkt])
      case (1 r ev)
      then show ?thesis using assms(2,4) cnt [of s] by (intro exI [of _ "Err r"] exI [of _ "emit ev s"]) simp
    next
      case (2 s' n)
      have "unat (node_count s + 1) = length (node_list s) + 1"
        using cnt [OF assms(2,4)] unat_inc [of "node_count s" "config_get_max_pkts (ev_cfg env)"] assms(4)
        by (simp add: word_less_nat_alt)
      then have "length (node_list s') < unat (config_get_max_pkts (ev_cfg env))"
        using 2(8,11) by (simp add: word_less_nat_alt)
      then show ?thesis using 2(1,2) cnt by blast
    qed
  qed
qed

theorem pktqueue_add_bound_witness:
  "\<exists>r s'. pktqueue_add sample_sess_env 6 sample_packet (sample_pktq 0) = Some (r, s') \<and> length (node_list s') < 10"
proof -
  have m: "unat (config_get_max_pkts (ev_cfg sample_sess_env)) = 10"
    by (simp add: config_get_max_pkts_def sample_sess_env_def sample_cfg_def config_init_def)
  obtain e where e: "sessions (sample_pktq 0) 6 = Some e" by (simp add: sample_pktq_def)
  have l: "length (node_list (sample_pktq 0)) < 10" by (simp add: sample_pktq_def)
  show ?thesis
    using pktqueue_add_bound [OF sample_sess_env_ok sample_pktq_ok e, of sample_packet] l unfolding m by blast
qed

end
