(* ===== verification/Session_Table.thy ===== *)
theory Session_Table
  imports Pkt_Queue
begin

text \<open>
  A session table (\<^verbatim>\<open>mod/stateful/session/table.c\<close>): two trees over the same entries, and two timers,
  each with the list of the sessions it expires.

  The operations take the table and the state and return both. A session's list hook is in at most
  one list, so that unlinking it is removing it from the lists of the table. The local lists
  \<^verbatim>\<open>rms\<close> and \<^verbatim>\<open>probes\<close> are lists of pointers that are passed along. \<^verbatim>\<open>jiffies\<close> stands still while
  an operation runs; a pending timer is represented by its expiration time.
\<close>

section \<open>Tables and timers\<close>

datatype session_fate = FATE_TIMER_EST | FATE_TIMER_TRANS | FATE_RM | FATE_PRESERVE | FATE_PROBE

text \<open>
  A callback gets the clock, the packet (\<open>None\<close> is NULL) and the session, which it may write to;
  \<open>None\<close> is a memory fault.
\<close>

type_synonym fate_cb = "u64 \<Rightarrow> packet option \<Rightarrow> session_entry \<Rightarrow> (session_entry \<times> session_fate) option"

type_synonym timeout_cb = "global_config \<Rightarrow> u64"

record expire_timer =
  et_timer :: "u64 option"
  et_sessions :: "ptr list"
  et_get_timeout :: "timeout_cb option"
  et_decide_fate_cb :: "fate_cb option"

record session_table =
  st_tree6 :: "ptr tree"
  st_tree4 :: "ptr tree"
  st_count :: u64
  est_timer :: expire_timer
  trans_timer :: expire_timer

definition get_expirer :: "expirer \<Rightarrow> session_table \<Rightarrow> expire_timer" where
  "get_expirer x table = (case x of Est_timer \<Rightarrow> est_timer table | Trans_timer \<Rightarrow> trans_timer table)"

definition put_expirer :: "expirer \<Rightarrow> expire_timer \<Rightarrow> session_table \<Rightarrow> session_table" where
  "put_expirer x timer table =
     (case x of Est_timer \<Rightarrow> table\<lparr>est_timer := timer\<rparr> | Trans_timer \<Rightarrow> table\<lparr>trans_timer := timer\<rparr>)"

definition timer_unlink :: "ptr \<Rightarrow> expire_timer \<Rightarrow> expire_timer" where
  "timer_unlink p timer = timer\<lparr>et_sessions := remove1 p (et_sessions timer)\<rparr>"

text \<open>\<^verbatim>\<open>list_del(&session->list_hook)\<close>.\<close>

definition list_del :: "ptr \<Rightarrow> session_table \<Rightarrow> session_table" where
  "list_del p table =
     table\<lparr>est_timer := timer_unlink p (est_timer table), trans_timer := timer_unlink p (trans_timer table)\<rparr>"

definition session_rm :: "ptr rb_ops \<Rightarrow> session_table \<Rightarrow> ptr \<Rightarrow> ptr list \<Rightarrow> 'a sess_db_scheme \<Rightarrow>
    (session_table \<times> ptr list \<times> 'a sess_db_scheme) option" where
  "session_rm ops table session rms s =
     do { e \<leftarrow> sessions s session;
          tree6 \<leftarrow> (if se_tree6_hook e then rbtree_erase ops session (st_tree6 table) else Some (st_tree6 table));
          tree4 \<leftarrow> (if se_tree4_hook e then rbtree_erase ops session (st_tree4 table) else Some (st_tree4 table));
          Some ((list_del session table)\<lparr>st_tree6 := tree6, st_tree4 := tree4, st_count := st_count table - 1\<rparr>,
                session # rms,
                s\<lparr>sessions := (sessions s)(session \<mapsto> e\<lparr>se_expirer := None\<rparr>)\<rparr>) }"

fun delete_sessions :: "ptr rb_ops \<Rightarrow> ptr list \<Rightarrow> 'a sess_db_scheme \<Rightarrow> 'a sess_db_scheme option" where
  "delete_sessions ops [] s = Some s"
| "delete_sessions ops (session # rest) s =
     do { s1 \<leftarrow> session_return ops session s; delete_sessions ops rest s1 }"

definition force_reschedule :: "sess_env \<Rightarrow> 'a sess_db_scheme \<Rightarrow> expire_timer \<Rightarrow> expire_timer option" where
  "force_reschedule env s expirer =
     (let min_next_time = jiffies s + MIN_TIMER_SLEEP
      in case first_of (et_sessions expirer) of
           None \<Rightarrow> Some expirer
         | Some first \<Rightarrow>
             do { e \<leftarrow> sessions s first;
                  get_timeout \<leftarrow> et_get_timeout expirer;
                  let next_time = se_update_time e + get_timeout (ev_cfg env);
                      next_time = (if time_before next_time min_next_time then min_next_time else next_time)
                  in Some (expirer\<lparr>et_timer := Some next_time\<rparr>) })"

definition reschedule :: "sess_env \<Rightarrow> 'a sess_db_scheme \<Rightarrow> expire_timer \<Rightarrow> expire_timer option" where
  "reschedule env s expirer =
     (if et_timer expirer \<noteq> None then Some expirer else force_reschedule env s expirer)"

definition list_add_tail :: "ptr \<Rightarrow> expirer \<Rightarrow> session_table \<Rightarrow> session_table" where
  "list_add_tail p x table =
     put_expirer x ((get_expirer x table)\<lparr>et_sessions := et_sessions (get_expirer x table) @ [p]\<rparr>) table"

text \<open>The two branches of \<^verbatim>\<open>decide_fate\<close> that reset the session's timer.\<close>

definition reset_timer :: "sess_env \<Rightarrow> expirer \<Rightarrow> session_table \<Rightarrow> ptr \<Rightarrow> 'a sess_db_scheme \<Rightarrow>
    (session_table \<times> 'a sess_db_scheme) option" where
  "reset_timer env x table session s =
     do { e \<leftarrow> sessions s session;
          let s1 = s\<lparr>sessions := (sessions s)(session \<mapsto> e\<lparr>se_update_time := jiffies s, se_expirer := Some x\<rparr>)\<rparr>;
              table1 = list_add_tail session x (list_del session table)
          in do { timer \<leftarrow> reschedule env s1 (get_expirer x table1);
                  Some (put_expirer x timer table1, s1) } }"

definition decide_fate :: "sess_env \<Rightarrow> fate_cb \<Rightarrow> packet option \<Rightarrow> session_table \<Rightarrow> ptr \<Rightarrow> ptr list \<Rightarrow> ptr list \<Rightarrow>
    'a sess_db_scheme \<Rightarrow> (session_table \<times> ptr list \<times> ptr list \<times> 'a sess_db_scheme) option" where
  "decide_fate env cb pkt table session rms probes s =
     do { e \<leftarrow> sessions s session;
          (e1, fate) \<leftarrow> cb (jiffies s) pkt e;
          let s1 = s\<lparr>sessions := (sessions s)(session \<mapsto> e1)\<rparr>
          in case fate of
               FATE_TIMER_EST \<Rightarrow>
                 do { (table', s') \<leftarrow> reset_timer env Est_timer table session s1; Some (table', rms, probes, s') }
             | FATE_PROBE \<Rightarrow>
                 do { (tmp, s2) \<leftarrow> session_clone (ev_session_alloc env) e1 s1;
                      let probes = (case tmp of None \<Rightarrow> probes | Some t \<Rightarrow> t # probes)
                      in do { (table', s') \<leftarrow> reset_timer env Trans_timer table session s2;
                              Some (table', rms, probes, s') } }
             | FATE_TIMER_TRANS \<Rightarrow>
                 do { (table', s') \<leftarrow> reset_timer env Trans_timer table session s1; Some (table', rms, probes, s') }
             | FATE_RM \<Rightarrow>
                 do { (table', rms', s') \<leftarrow> session_rm (ev_rb env) table session rms s1; Some (table', rms', probes, s') }
             | FATE_PRESERVE \<Rightarrow> Some (table, rms, probes, s1) }"

text \<open>The probe: an IPv6 header and a TCP header with the ACK flag.\<close>

definition probe_iph :: "session_entry \<Rightarrow> ipv6hdr" where
  "probe_iph session =
     \<lparr>ip6_version = 6, ip6_priority = 0, ip6_flow_lbl0 = 0, ip6_flow_lbl1 = 0, ip6_flow_lbl2 = 0,
      ip6_payload_len = 20, ip6_nexthdr = 6, ip6_hop_limit = 255,
      ip6_saddr = ta6_l3 (se_local6 session), ip6_daddr = ta6_l3 (se_remote6 session)\<rparr>"

definition probe_th :: "session_entry \<Rightarrow> tcphdr" where
  "probe_th session =
     \<lparr>th_source = ta6_l4 (se_local6 session), th_dest = ta6_l4 (se_remote6 session), th_seq = 0, th_ack_seq = 0,
      th_doff = 5, th_res1 = 0, th_flags = 0x10, th_window = 8192, th_check = 0, th_urg_ptr = 0\<rparr>"

definition send_probe_packet :: "sess_env \<Rightarrow> session_entry \<Rightarrow> out_event list" where
  "send_probe_packet env session =
     (if \<not> ev_alloc_skb env then []
      else let iph = probe_iph session;
               th = (probe_th session)\<lparr>th_check := ev_tcp_csum env iph (probe_th session)\<rparr>
           in if \<not> ev_route6 env iph th then [] else [Probe iph th])"

fun post_probes :: "sess_env \<Rightarrow> ptr list \<Rightarrow> 'a sess_db_scheme \<Rightarrow> 'a sess_db_scheme option" where
  "post_probes env [] s = Some s"
| "post_probes env (session # probes) s =
     do { e \<leftarrow> sessions s session;
          s1 \<leftarrow> session_return (ev_rb env) session (emit (send_probe_packet env e) s);
          post_probes env probes s1 }"

definition post_fate :: "sess_env \<Rightarrow> ptr list \<Rightarrow> ptr list \<Rightarrow> 'a sess_db_scheme \<Rightarrow> 'a sess_db_scheme option" where
  "post_fate env rms probes s =
     do { s1 \<leftarrow> post_probes env probes s;
          (if rms \<noteq> [] then delete_sessions (ev_rb env) rms s1 else Some s1) }"

text \<open>The loop's state: the table, the two local lists and the rest of the state.\<close>

type_synonym 's fate_loop = "session_table \<times> ptr list \<times> ptr list \<times> 's"

definition session_cleaner_body :: "sess_env \<Rightarrow> expirer \<Rightarrow> u64 \<Rightarrow> ptr \<Rightarrow> 'a sess_db_scheme fate_loop \<Rightarrow>
    (bool \<times> 'a sess_db_scheme fate_loop) option" where
  "session_cleaner_body env x timeout session st =
     (case st of (table, rms, probes, s) \<Rightarrow>
        do { e \<leftarrow> sessions s session;
             (if time_before (jiffies s) (se_update_time e + timeout) then Some (True, st)
              else do { cb \<leftarrow> et_decide_fate_cb (get_expirer x table);
                        st' \<leftarrow> decide_fate env cb None table session rms probes s;
                        Some (False, st') }) })"

definition session_cleaner_timer :: "sess_env \<Rightarrow> expirer \<Rightarrow> session_table \<Rightarrow> 'a sess_db_scheme \<Rightarrow>
    (session_table \<times> 'a sess_db_scheme) option" where
  "session_cleaner_timer env x table s =
     do { get_timeout \<leftarrow> et_get_timeout (get_expirer x table);
          let timeout = get_timeout (ev_cfg env)
          in do { (table1, rms, probes, s1) \<leftarrow>
                    list_for_each_safe (\<lambda>(table, _). et_sessions (get_expirer x table))
                      (session_cleaner_body env x timeout) (first_of (et_sessions (get_expirer x table)))
                      (table, [], [], s);
                  table2 \<leftarrow> (if et_sessions (get_expirer x table1) \<noteq> []
                            then do { timer \<leftarrow> reschedule env s1 (get_expirer x table1); Some (put_expirer x timer table1) }
                            else Some table1);
                  s2 \<leftarrow> post_fate env rms probes s1;
                  Some (table2, s2) } }"

definition init_expirer :: "timeout_cb option \<Rightarrow> fate_cb option \<Rightarrow> expire_timer" where
  "init_expirer timeout_cb decide_fate_cb =
     \<lparr>et_timer = None, et_sessions = [], et_get_timeout = timeout_cb, et_decide_fate_cb = decide_fate_cb\<rparr>"

definition sessiontable_init :: "timeout_cb option \<Rightarrow> fate_cb option \<Rightarrow> timeout_cb option \<Rightarrow> fate_cb option \<Rightarrow> session_table" where
  "sessiontable_init est_timeout est_callback trans_timeout trans_callback =
     \<lparr>st_tree6 = Leaf, st_tree4 = Leaf, st_count = 0, est_timer = init_expirer est_timeout est_callback,
      trans_timer = init_expirer trans_timeout trans_callback\<rparr>"

text \<open>\<^verbatim>\<open>del_timer_sync\<close>, and the destructor \<^verbatim>\<open>__destroy_aux\<close> returns each session \<^verbatim>\<open>rbtree_clear\<close> visits.\<close>

definition sessiontable_destroy :: "ptr rb_ops \<Rightarrow> session_table \<Rightarrow> 'a sess_db_scheme \<Rightarrow>
    (session_table \<times> 'a sess_db_scheme) option" where
  "sessiontable_destroy ops table s =
     (let table1 = table\<lparr>est_timer := (est_timer table)\<lparr>et_timer := None\<rparr>,
                         trans_timer := (trans_timer table)\<lparr>et_timer := None\<rparr>\<rparr>
      in do { s1 \<leftarrow> delete_sessions ops (rbtree_clear (st_tree6 table)) s; Some (table1, s1) })"

section \<open>Searching\<close>

definition sess_compare_addr6 :: "ipv6_transport_addr \<Rightarrow> ipv6_transport_addr \<Rightarrow> int" where
  "sess_compare_addr6 a1 a2 =
     (let gap = ipv6_addr_cmp (ta6_l3 a1) (ta6_l3 a2)
      in if gap \<noteq> 0 then gap else uint (ta6_l4 a1) - uint (ta6_l4 a2))"

definition compare_session6 :: "session_heap \<Rightarrow> session_entry \<Rightarrow> ptr \<Rightarrow> int option" where
  "compare_session6 h s2 session =
     do { s1 \<leftarrow> h session;
          let gap = sess_compare_addr6 (se_local6 s1) (se_local6 s2)
          in Some (if gap \<noteq> 0 then gap else sess_compare_addr6 (se_remote6 s1) (se_remote6 s2)) }"

definition compare_full6 :: "session_heap \<Rightarrow> tuple \<Rightarrow> ptr \<Rightarrow> int option" where
  "compare_full6 h tuple6 session =
     do { e \<leftarrow> h session;
          let gap = sess_compare_addr6 (se_local6 e) (addr6 (t_dst tuple6))
          in Some (if gap \<noteq> 0 then gap else sess_compare_addr6 (se_remote6 e) (addr6 (t_src tuple6))) }"

definition sess_compare_addr4 :: "ipv4_transport_addr \<Rightarrow> ipv4_transport_addr \<Rightarrow> int" where
  "sess_compare_addr4 a1 a2 =
     (let gap = ipv4_addr_cmp (ta4_l3 a1) (ta4_l3 a2)
      in if gap \<noteq> 0 then gap else uint (ta4_l4 a1) - uint (ta4_l4 a2))"

definition compare_session4 :: "session_heap \<Rightarrow> session_entry \<Rightarrow> ptr \<Rightarrow> int option" where
  "compare_session4 h s2 session =
     do { s1 \<leftarrow> h session;
          let gap = sess_compare_addr4 (se_local4 s1) (se_local4 s2)
          in Some (if gap \<noteq> 0 then gap else sess_compare_addr4 (se_remote4 s1) (se_remote4 s2)) }"

definition compare_addrs4 :: "session_heap \<Rightarrow> tuple \<Rightarrow> ptr \<Rightarrow> int option" where
  "compare_addrs4 h tuple4 session =
     do { e \<leftarrow> h session;
          let gap = sess_compare_addr4 (se_local4 e) (addr4 (t_dst tuple4))
          in Some (if gap \<noteq> 0 then gap else ipv4_addr_cmp (ta4_l3 (se_remote4 e)) (ta4_l3 (addr4 (t_src tuple4)))) }"

definition compare_full4 :: "session_heap \<Rightarrow> tuple \<Rightarrow> ptr \<Rightarrow> int option" where
  "compare_full4 h tuple4 session =
     do { e \<leftarrow> h session;
          let gap = sess_compare_addr4 (se_local4 e) (addr4 (t_dst tuple4))
          in Some (if gap \<noteq> 0 then gap else sess_compare_addr4 (se_remote4 e) (addr4 (t_src tuple4))) }"

definition get_by_ipv6 :: "session_heap \<Rightarrow> session_table \<Rightarrow> tuple \<Rightarrow> ptr option option" where
  "get_by_ipv6 h table tuple = rbtree_find (compare_full6 h tuple) (st_tree6 table)"

definition get_by_ipv4 :: "session_heap \<Rightarrow> session_table \<Rightarrow> tuple \<Rightarrow> ptr option option" where
  "get_by_ipv4 h table tuple = rbtree_find (compare_full4 h tuple) (st_tree4 table)"

definition sessiontable_get :: "sess_env \<Rightarrow> session_table \<Rightarrow> tuple \<Rightarrow> fate_cb option \<Rightarrow> packet option \<Rightarrow>
    'a sess_db_scheme \<Rightarrow> ((errno + ptr) \<times> session_table \<times> 'a sess_db_scheme) option" where
  "sessiontable_get env table tuple cb pkt s =
     do { found \<leftarrow> (case t_l3_proto tuple of
                     L3PROTO_IPV6 \<Rightarrow> get_by_ipv6 (sessions s) table tuple
                   | L3PROTO_IPV4 \<Rightarrow> get_by_ipv4 (sessions s) table tuple);
          (case found of
             None \<Rightarrow> Some (Inl ESRCH, table, s)
           | Some session \<Rightarrow>
               do { s1 \<leftarrow> session_get session s;
                    (case cb of
                       None \<Rightarrow> Some (Inr session, table, s1)
                     | Some f \<Rightarrow>
                         do { (table', rms, probes, s2) \<leftarrow> decide_fate env f pkt table session [] [] s1;
                              s3 \<leftarrow> post_fate env rms probes s2;
                              Some (Inr session, table', s3) }) }) }"

definition sessiontable_allow :: "session_table \<Rightarrow> tuple \<Rightarrow> 'a sess_db_scheme \<Rightarrow> bool option" where
  "sessiontable_allow table tuple4 s =
     do { session \<leftarrow> rbtree_find (compare_addrs4 (sessions s) tuple4) (st_tree4 table); Some (session \<noteq> None) }"


section \<open>Adding\<close>

definition sess_add6 :: "ptr rb_ops \<Rightarrow> session_table \<Rightarrow> ptr \<Rightarrow> 'a sess_db_scheme \<Rightarrow>
    (status \<times> session_table \<times> 'a sess_db_scheme) option" where
  "sess_add6 ops table session s =
     do { e \<leftarrow> sessions s session;
          (error, tree6) \<leftarrow> rbtree_add ops session (compare_session6 (sessions s) e) (st_tree6 table);
          Some (if error = Ok
                then (Ok, table\<lparr>st_tree6 := tree6\<rparr>, s\<lparr>sessions := (sessions s)(session \<mapsto> e\<lparr>se_tree6_hook := True\<rparr>)\<rparr>)
                else (error, table, s)) }"

definition sess_add4 :: "ptr rb_ops \<Rightarrow> session_table \<Rightarrow> ptr \<Rightarrow> 'a sess_db_scheme \<Rightarrow>
    (status \<times> session_table \<times> 'a sess_db_scheme) option" where
  "sess_add4 ops table session s =
     do { e \<leftarrow> sessions s session;
          (error, tree4) \<leftarrow> rbtree_add ops session (compare_session4 (sessions s) e) (st_tree4 table);
          Some (if error = Ok
                then (Ok, table\<lparr>st_tree4 := tree4\<rparr>, s\<lparr>sessions := (sessions s)(session \<mapsto> e\<lparr>se_tree4_hook := True\<rparr>)\<rparr>)
                else (error, table, s)) }"

definition attach_timer :: "sess_env \<Rightarrow> session_table \<Rightarrow> ptr \<Rightarrow> expirer \<Rightarrow> 'a sess_db_scheme \<Rightarrow>
    (session_table \<times> 'a sess_db_scheme) option" where
  "attach_timer env table session x s =
     do { e \<leftarrow> sessions s session;
          let s1 = s\<lparr>sessions := (sessions s)(session \<mapsto> e\<lparr>se_update_time := jiffies s, se_expirer := Some x\<rparr>)\<rparr>;
              table1 = list_add_tail session x table
          in do { timer \<leftarrow> reschedule env s1 (get_expirer x table1);
                  Some (put_expirer x timer table1, s1) } }"

definition sessiontable_add :: "sess_env \<Rightarrow> session_table \<Rightarrow> ptr \<Rightarrow> bool \<Rightarrow> 'a pktq_db_scheme \<Rightarrow>
    (status \<times> session_table \<times> 'a pktq_db_scheme) option" where
  "sessiontable_add env table session is_established s =
     do { s0 \<leftarrow> pktqueue_remove env session s;
          let x = (if is_established then Est_timer else Trans_timer)
          in do { (error, table1, s1) \<leftarrow> sess_add6 (ev_rb env) table session s0;
                  (if error \<noteq> Ok then Some (error, table1, s1)
                   else
                     do { (error, table2, s2) \<leftarrow> sess_add4 (ev_rb env) table1 session s1;
                          (if error \<noteq> Ok
                           then do { tree6 \<leftarrow> rbtree_erase (ev_rb env) session (st_tree6 table2);
                                     Some (error, table2\<lparr>st_tree6 := tree6\<rparr>, s2) }
                           else do { (table3, s3) \<leftarrow> attach_timer env table2 session x s2;
                                     s4 \<leftarrow> session_get session s3;
                                     Some (Ok, table3\<lparr>st_count := st_count table3 + 1\<rparr>, s4) }) }) } }"

section \<open>Iterating and removing\<close>

definition offset_tuple4 :: "ipv4_transport_addr \<Rightarrow> ipv4_transport_addr \<Rightarrow> tuple" where
  "offset_tuple4 offset_remote offset_local =
     \<lparr>t_src = Addr4 offset_remote, t_dst = Addr4 offset_local, t_l3_proto = L3PROTO_IPV4, t_l4_proto = L4PROTO_OTHER\<rparr>"

definition sess_find_starting_point :: "ptr rb_ops \<Rightarrow> session_table \<Rightarrow> ipv4_transport_addr option \<Rightarrow>
    ipv4_transport_addr option \<Rightarrow> bool \<Rightarrow> session_heap \<Rightarrow> ptr option option" where
  "sess_find_starting_point ops table offset_remote offset_local include_offset h =
     (case (offset_remote, offset_local) of
        (Some remote, Some local) \<Rightarrow>
          rb_start ops (compare_full4 h (offset_tuple4 remote local)) include_offset (st_tree4 table)
      | _ \<Rightarrow> Some (rb_first ops (st_tree4 table)))"

text \<open>The third component of the loop's state is the callback's own argument.\<close>

type_synonym ('s, 'b) sess_loop = "session_table \<times> 's \<times> 'b"

definition sess_foreach :: "ptr rb_ops \<Rightarrow>
    (ptr \<Rightarrow> ('a sess_db_scheme, 'b) sess_loop \<Rightarrow> (status \<times> ('a sess_db_scheme, 'b) sess_loop) option) \<Rightarrow>
    ipv4_transport_addr option \<Rightarrow> ipv4_transport_addr option \<Rightarrow> bool \<Rightarrow> ('a sess_db_scheme, 'b) sess_loop \<Rightarrow>
    (status \<times> ('a sess_db_scheme, 'b) sess_loop) option" where
  "sess_foreach ops func offset_remote offset_local include_offset st =
     (case st of (table, s, _) \<Rightarrow>
        do { node \<leftarrow> sess_find_starting_point ops table offset_remote offset_local include_offset (sessions s);
             rb_iterate ops (\<lambda>(table, _). st_tree4 table) func node st })"

text \<open>The public iteration's callbacks copy entries out.\<close>

definition sessiontable_foreach :: "ptr rb_ops \<Rightarrow> session_table \<Rightarrow> (session_entry \<Rightarrow> 'b \<Rightarrow> status \<times> 'b) \<Rightarrow>
    ipv4_transport_addr option \<Rightarrow> ipv4_transport_addr option \<Rightarrow> 'a sess_db_scheme \<Rightarrow> 'b \<Rightarrow> (status \<times> 'b) option" where
  "sessiontable_foreach ops table func offset_remote offset_local s arg =
     do { (error, _, _, arg') \<leftarrow>
            sess_foreach ops (\<lambda>p (t, s, a). do { e \<leftarrow> sessions s p; case func e a of (r, a') \<Rightarrow> Some (r, t, s, a') })
              offset_remote offset_local False (table, s, arg);
          Some (error, arg') }"

definition sessiontable_count :: "session_table \<Rightarrow> u64" where
  "sessiontable_count table = st_count table"

text \<open>The removing callbacks' argument is the list \<^verbatim>\<open>removed\<close>.\<close>

type_synonym 's rm_loop = "('s, ptr list) sess_loop"

definition sess_flush_cb :: "ptr rb_ops \<Rightarrow> ptr \<Rightarrow> 'a sess_db_scheme rm_loop \<Rightarrow> (status \<times> 'a sess_db_scheme rm_loop) option" where
  "sess_flush_cb ops session st =
     (case st of (table, s, removed) \<Rightarrow>
        do { (table', removed', s') \<leftarrow> session_rm ops table session removed s; Some (Ok, table', s', removed') })"

definition rm_by_bib :: "ptr rb_ops \<Rightarrow> ipv4_transport_addr \<Rightarrow> ptr \<Rightarrow> 'a sess_db_scheme rm_loop \<Rightarrow>
    (status \<times> 'a sess_db_scheme rm_loop) option" where
  "rm_by_bib ops ad4 session st =
     (case st of (_, s, _) \<Rightarrow>
        do { e \<leftarrow> sessions s session;
             (if \<not> ipv4_transport_addr_equals (Some ad4) (Some (se_local4 e)) then Some (Stop, st)
              else sess_flush_cb ops session st) })"

definition rm_taddr4s :: "ptr rb_ops \<Rightarrow> ipv4_prefix \<Rightarrow> port_range \<Rightarrow> ptr \<Rightarrow> 'a sess_db_scheme rm_loop \<Rightarrow>
    (status \<times> 'a sess_db_scheme rm_loop) option" where
  "rm_taddr4s ops prefix ports session st =
     (case st of (_, s, _) \<Rightarrow>
        do { e \<leftarrow> sessions s session;
             (if \<not> prefix4_contains prefix (ta4_l3 (se_local4 e)) then Some (Stop, st)
              else if \<not> port_range_contains ports (ta4_l4 (se_local4 e)) then Some (Ok, st)
              else sess_flush_cb ops session st) })"

definition rm_taddr6s :: "ptr rb_ops \<Rightarrow> ipv6_prefix \<Rightarrow> ptr \<Rightarrow> 'a sess_db_scheme rm_loop \<Rightarrow>
    (status \<times> 'a sess_db_scheme rm_loop) option" where
  "rm_taddr6s ops prefix session st =
     (case st of (_, s, _) \<Rightarrow>
        do { e \<leftarrow> sessions s session;
             (if \<not> prefix6_contains prefix (ta6_l3 (se_local6 e)) then Some (Stop, st)
              else sess_flush_cb ops session st) })"

definition remove_loop :: "ptr rb_ops \<Rightarrow> (status \<times> 'a sess_db_scheme rm_loop) option \<Rightarrow>
    (session_table \<times> 'a sess_db_scheme) option" where
  "remove_loop ops r =
     do { (_, table, s, removed) \<leftarrow> r; s' \<leftarrow> delete_sessions ops removed s; Some (table, s') }"

definition sessiontable_delete_by_bib :: "ptr rb_ops \<Rightarrow> session_table \<Rightarrow> ptr \<Rightarrow> 'a sess_db_scheme \<Rightarrow>
    (session_table \<times> 'a sess_db_scheme) option" where
  "sessiontable_delete_by_bib ops table bib s =
     do { b \<leftarrow> bibs s bib;
          remove_loop ops
            (sess_foreach ops (rm_by_bib ops (b_ipv4 b)) (Some \<lparr>ta4_l3 = 0, ta4_l4 = 0\<rparr>) (Some (b_ipv4 b)) True
              (table, s, [])) }"

definition sessiontable_delete_taddr4s :: "ptr rb_ops \<Rightarrow> session_table \<Rightarrow> ipv4_prefix \<Rightarrow> port_range \<Rightarrow>
    'a sess_db_scheme \<Rightarrow> (session_table \<times> 'a sess_db_scheme) option" where
  "sessiontable_delete_taddr4s ops table prefix ports s =
     remove_loop ops
       (sess_foreach ops (rm_taddr4s ops prefix ports) (Some \<lparr>ta4_l3 = 0, ta4_l4 = 0\<rparr>)
         (Some \<lparr>ta4_l3 = p4_address prefix, ta4_l4 = pr_min ports\<rparr>) True (table, s, []))"

definition find_starting_point6 :: "ptr rb_ops \<Rightarrow> session_table \<Rightarrow> ipv6_transport_addr \<Rightarrow> session_heap \<Rightarrow> ptr option option" where
  "find_starting_point6 ops table local h =
     rb_start ops
       (compare_full6 h \<lparr>t_src = Addr6 \<lparr>ta6_l3 = 0, ta6_l4 = 0\<rparr>, t_dst = Addr6 local, t_l3_proto = L3PROTO_IPV6,
                         t_l4_proto = L4PROTO_OTHER\<rparr>) True (st_tree6 table)"

definition sessiontable_delete_taddr6s :: "ptr rb_ops \<Rightarrow> session_table \<Rightarrow> ipv6_prefix \<Rightarrow> 'a sess_db_scheme \<Rightarrow>
    (session_table \<times> 'a sess_db_scheme) option" where
  "sessiontable_delete_taddr6s ops table prefix s =
     do { node \<leftarrow> find_starting_point6 ops table \<lparr>ta6_l3 = p6_address prefix, ta6_l4 = 0\<rparr> (sessions s);
          remove_loop ops (rb_iterate ops (\<lambda>(table, _). st_tree6 table) (rm_taddr6s ops prefix) node (table, s, [])) }"

definition sessiontable_flush :: "ptr rb_ops \<Rightarrow> session_table \<Rightarrow> 'a sess_db_scheme \<Rightarrow>
    (session_table \<times> 'a sess_db_scheme) option" where
  "sessiontable_flush ops table s = remove_loop ops (sess_foreach ops (sess_flush_cb ops) None None False (table, s, []))"

definition sessiontable_update_timers :: "sess_env \<Rightarrow> session_table \<Rightarrow> 'a sess_db_scheme \<Rightarrow> session_table option" where
  "sessiontable_update_timers env table s =
     do { est \<leftarrow> force_reschedule env s (est_timer table);
          trans \<leftarrow> force_reschedule env s (trans_timer table);
          Some (table\<lparr>est_timer := est, trans_timer := trans\<rparr>) }"

section \<open>The trees are search trees\<close>

type_synonym key6 = "ipv6_transport_addr \<times> ipv6_transport_addr"
type_synonym key4 = "ipv4_transport_addr \<times> ipv4_transport_addr"

definition sess_key6 :: "session_heap \<Rightarrow> ptr \<Rightarrow> key6 option" where
  "sess_key6 h p = map_option (\<lambda>e. (se_local6 e, se_remote6 e)) (h p)"

definition sess_key4 :: "session_heap \<Rightarrow> ptr \<Rightarrow> key4 option" where
  "sess_key4 h p = map_option (\<lambda>e. (se_local4 e, se_remote4 e)) (h p)"

definition sess_cmp6 :: "session_heap \<Rightarrow> key6 \<Rightarrow> ptr \<Rightarrow> int option" where
  "sess_cmp6 h k p = compare_full6 h \<lparr>t_src = Addr6 (snd k), t_dst = Addr6 (fst k), t_l3_proto = L3PROTO_IPV6,
     t_l4_proto = L4PROTO_OTHER\<rparr> p"

definition sess_cmp4 :: "session_heap \<Rightarrow> key4 \<Rightarrow> ptr \<Rightarrow> int option" where
  "sess_cmp4 h k p = compare_full4 h (offset_tuple4 (snd k) (fst k)) p"

lemma sess_compare_sign:
  "sess_compare_addr6 a b < 0 \<longleftrightarrow> a < b" "sess_compare_addr6 a b > 0 \<longleftrightarrow> b < a"
  "sess_compare_addr6 a b = 0 \<longleftrightarrow> a = b" "sess_compare_addr4 c d < 0 \<longleftrightarrow> c < d" "sess_compare_addr4 c d > 0 \<longleftrightarrow> d < c"
  "sess_compare_addr4 c d = 0 \<longleftrightarrow> c = d"
  by (auto simp: sess_compare_addr6_def sess_compare_addr4_def ipv6_addr_cmp_def ipv4_addr_cmp_def taddr6_less_iff
      taddr4_less_iff taddr4_eq_iff taddr6_eq_iff word_less_def)

lemma pair_less_iff: "(a :: 'a::linorder, b :: 'b::linorder) < k \<longleftrightarrow> a < fst k \<or> a = fst k \<and> b < snd k"
  "k < (a, b) \<longleftrightarrow> fst k < a \<or> fst k = a \<and> snd k < b"
  by (cases k; auto)+

interpretation sess6: rb_order sess_key6 sess_cmp6
  by unfold_locales
    (auto simp: sess_key6_def sess_cmp6_def compare_full6_def addr6_def Let_def sess_compare_sign pair_less_iff dest: less_asym)

interpretation sess4: rb_order sess_key4 sess_cmp4
  by unfold_locales
    (auto simp: sess_key4_def sess_cmp4_def compare_full4_def offset_tuple4_def addr4_def Let_def sess_compare_sign
      pair_less_iff dest: less_asym)

end
