(* ===== verification/Session_Invariant.thy ===== *)
theory Session_Invariant
  imports Session_Table
begin

text \<open>
  What every operation of a session table keeps: the two trees index the same entries, each entry
  is in exactly one of the two expiration lists, the one that fits its state, and its reference
  count is accounted for.
\<close>

declare sview_None_iff [simp del]

section \<open>The invariant\<close>

text \<open>
  The list a session belongs in: the established TCP states are those in which data flows; UDP and
  ICMP tables only use the first list.
\<close>

definition est_states :: "tcp_state set" where
  "est_states = {ESTABLISHED, V4_FIN_RCV, V6_FIN_RCV}"

definition placed :: "expirer \<Rightarrow> session_entry \<Rightarrow> bool" where
  "placed x e \<longleftrightarrow> (if se_l4_proto e = L4PROTO_TCP then se_state e \<noteq> CLOSED \<and> (x = Est_timer \<longleftrightarrow> se_state e \<in> est_states)
     else x = Est_timer)"

lemma placed_upd [simp]:
  "placed x (e\<lparr>se_refcounter := n\<rparr>) = placed x e" "placed x (e\<lparr>se_update_time := u\<rparr>) = placed x e"
  "placed x (e\<lparr>se_expirer := y\<rparr>) = placed x e"
  by (simp_all add: placed_def)

definition stable_nodes :: "session_table \<Rightarrow> ptr set" where
  "stable_nodes t = set (inorder (st_tree4 t))"

definition timer_list :: "expirer \<Rightarrow> session_table \<Rightarrow> ptr list" where
  "timer_list x t = et_sessions (get_expirer x t)"

definition sess_entry_ok :: "l4_protocol \<Rightarrow> session_table \<Rightarrow> ptr \<Rightarrow> session_entry \<Rightarrow> bool" where
  "sess_entry_ok proto t p e \<longleftrightarrow> se_l4_proto e = proto \<and> se_tree6_hook e \<and> se_tree4_hook e \<and> se_bib e \<noteq> None \<and>
     (\<exists>x. se_expirer e = Some x \<and> p \<in> set (timer_list x t) \<and> placed x e)"

definition stable_ok :: "l4_protocol \<Rightarrow> session_heap \<Rightarrow> session_table \<Rightarrow> bool" where
  "stable_ok proto v t \<longleftrightarrow>
     sess6.keys_sorted v (inorder (st_tree6 t)) \<and> sess4.keys_sorted v (inorder (st_tree4 t)) \<and>
     set (inorder (st_tree6 t)) = stable_nodes t \<and> st_count t = of_nat (length (inorder (st_tree4 t))) \<and>
     distinct (timer_list Est_timer t @ timer_list Trans_timer t) \<and>
     set (timer_list Est_timer t) \<union> set (timer_list Trans_timer t) = stable_nodes t \<and>
     (\<forall>p \<in> stable_nodes t. \<exists>e. v p = Some e \<and> sess_entry_ok proto t p e)"

text \<open>
  The list a fate moves a session to, and what an expiration callback may do: it writes to the state
  and the update time only, and takes the session out of the list it is in, either to remove it or to
  move it to the list that fits its new state. Its decision does not depend on who holds the session.
\<close>

definition fate_target :: "session_fate \<Rightarrow> expirer option" where
  "fate_target f = (case f of FATE_TIMER_EST \<Rightarrow> Some Est_timer | FATE_TIMER_TRANS \<Rightarrow> Some Trans_timer
     | FATE_PROBE \<Rightarrow> Some Trans_timer | _ \<Rightarrow> None)"

definition expires_ok :: "l4_protocol \<Rightarrow> fate_cb \<Rightarrow> bool" where
  "expires_ok proto cb \<longleftrightarrow>
     (\<forall>now x e. placed x e \<longrightarrow> se_l4_proto e = proto \<longrightarrow>
        (\<exists>st u f. cb now None e = Some (e\<lparr>se_state := st, se_update_time := u\<rparr>, f) \<and> f \<noteq> FATE_PRESERVE \<and> fate_target f \<noteq> Some x \<and>
           (\<forall>y. fate_target f = Some y \<longrightarrow> placed y (e\<lparr>se_state := st\<rparr>)))) \<and>
     (\<forall>now e n. map_option snd (cb now None (e\<lparr>se_refcounter := n\<rparr>)) = map_option snd (cb now None e))"

text \<open>The function pointers of a table; the second timer of UDP and ICMP tables has none.\<close>

definition cbs_ok :: "l4_protocol \<Rightarrow> session_table \<Rightarrow> bool" where
  "cbs_ok proto t \<longleftrightarrow> (\<forall>x. x = Est_timer \<or> proto = L4PROTO_TCP \<longrightarrow>
     et_get_timeout (get_expirer x t) \<noteq> None \<and> (\<exists>cb. et_decide_fate_cb (get_expirer x t) = Some cb \<and> expires_ok proto cb))"

definition pending :: "expirer \<Rightarrow> session_table \<Rightarrow> bool" where
  "pending x t \<longleftrightarrow> (timer_list x t \<noteq> [] \<longrightarrow> et_timer (get_expirer x t) \<noteq> None)"

definition tab_refs :: "session_table \<Rightarrow> ptr multiset" where
  "tab_refs t = mset (inorder (st_tree4 t))"

definition tab_ok :: "l4_protocol \<Rightarrow> ptr multiset \<Rightarrow> ptr multiset \<Rightarrow> session_table \<Rightarrow> 'a pktq_db_scheme \<Rightarrow> bool" where
  "tab_ok proto B K t s \<longleftrightarrow> stable_ok proto (sview s) t \<and> cbs_ok proto t \<and> pktq_ok [] B (tab_refs t + K) s"

text \<open>
  What a table operation may do to the rest: write to sessions in \<open>A\<close>, and let go of sessions
  elsewhere.
\<close>

definition touches :: "ptr set \<Rightarrow> 'a pktq_db_scheme \<Rightarrow> 'a pktq_db_scheme \<Rightarrow> bool" where
  "touches A s s' \<longleftrightarrow> pktq_frame s s' \<and> (pktq_timer_ok s \<longrightarrow> pktq_timer_ok s') \<and>
     (\<forall>p. p \<notin> A \<longrightarrow> sview s' p = sview s p \<or> sview s' p = None)"

lemma touches_refl [simp]: "touches A s s"
  by (simp add: touches_def)

lemma touchesD:
  assumes "touches A s s'"
  shows "pktq_frame s s'" "pktq_timer_ok s \<Longrightarrow> pktq_timer_ok s'" "p \<notin> A \<Longrightarrow> sview s' p = sview s p \<or> sview s' p = None"
  using assms by (simp_all add: touches_def)

lemma touchesI:
  assumes "pktq_frame s s'" "pktq_timer_ok s \<Longrightarrow> pktq_timer_ok s'" "\<And>p. p \<notin> A \<Longrightarrow> sview s' p = sview s p \<or> sview s' p = None"
  shows "touches A s s'"
  using assms by (simp add: touches_def)

lemma touches_trans:
  assumes "touches A s s'" "touches A s' s''"
  shows "touches A s s''"
proof (rule touchesI)
  show "pktq_frame s s''" using touchesD(1) [OF assms(1)] touchesD(1) [OF assms(2)] by (rule pktq_frame_trans)
  show "pktq_timer_ok s''" if "pktq_timer_ok s" using touchesD(2) [OF assms(2) touchesD(2) [OF assms(1) that]] .
  show "sview s'' p = sview s p \<or> sview s'' p = None" if "p \<notin> A" for p
    using touchesD(3) [OF assms(1) that] touchesD(3) [OF assms(2) that] by (elim disjE) simp_all
qed

lemma touches_mono:
  assumes "touches A s s'" "A \<subseteq> A'"
  shows "touches A' s s'"
proof (rule touchesI)
  show "sview s' p = sview s p \<or> sview s' p = None" if "p \<notin> A'" for p
    by (rule touchesD(3) [OF assms(1)]) (use assms(2) that in blast)
qed (rule touchesD(1,2) [OF assms(1)], assumption?)+

lemma map_le_cases: "m' \<subseteq>\<^sub>m m \<Longrightarrow> m' p = m p \<or> m' p = None"
  by (cases "m' p") (auto simp: map_le_def dom_def)

lemma touches_ref:
  assumes "ref_only s s'" "sview s' \<subseteq>\<^sub>m sview s"
  shows "touches A s s'"
  using ref_only_frame [OF assms(1)] queue_same_timer [OF ref_only_queue [OF assms(1)]] map_le_cases [OF assms(2)]
  by (intro touchesI) simp_all

lemma touches_emit [simp]: "touches A s (emit ev s') = touches A s s'"
  by (simp add: touches_def pktq_timer_ok_def)

lemma sess_key_sview [simp]:
  "sess_key6 (sview s) p = sess_key6 (sessions s) p" "sess_key4 (sview s) p = sess_key4 (sessions s) p"
  by (cases "sessions s p"; simp add: sess_key6_def sess_key4_def sview_def)+

lemma sess_sorted_sview:
  "sess6.keys_sorted (sview s) es = sess6.keys_sorted (sessions s) es"
  "sess4.keys_sorted (sview s) es = sess4.keys_sorted (sessions s) es"
  by (rule sess6.keys_sorted_cong, simp) (rule sess4.keys_sorted_cong, simp)

section \<open>Timers and lists\<close>

lemma get_put_expirer [simp]:
  "get_expirer x (put_expirer y timer t) = (if x = y then timer else get_expirer x t)"
  by (cases x; cases y) (simp_all add: get_expirer_def put_expirer_def)

lemma put_expirer_trees [simp]:
  "st_tree6 (put_expirer x timer t) = st_tree6 t" "st_tree4 (put_expirer x timer t) = st_tree4 t"
  "st_count (put_expirer x timer t) = st_count t" "stable_nodes (put_expirer x timer t) = stable_nodes t"
  by (cases x; simp add: put_expirer_def stable_nodes_def)+

lemma get_expirer_upd [simp]:
  "get_expirer x (t\<lparr>st_tree6 := t6\<rparr>) = get_expirer x t" "get_expirer x (t\<lparr>st_tree4 := t4\<rparr>) = get_expirer x t"
  "get_expirer x (t\<lparr>st_count := c\<rparr>) = get_expirer x t"
  by (cases x; simp add: get_expirer_def)+

lemma timer_list_upd [simp]:
  "timer_list x (t\<lparr>st_tree6 := t6\<rparr>) = timer_list x t" "timer_list x (t\<lparr>st_tree4 := t4\<rparr>) = timer_list x t"
  "timer_list x (t\<lparr>st_count := c\<rparr>) = timer_list x t"
  "timer_list x (put_expirer y timer t) = (if x = y then et_sessions timer else timer_list x t)"
  by (simp_all add: timer_list_def)

lemma list_del_simps [simp]:
  "st_tree6 (list_del p t) = st_tree6 t" "st_tree4 (list_del p t) = st_tree4 t" "st_count (list_del p t) = st_count t"
  "timer_list x (list_del p t) = remove1 p (timer_list x t)"
  "et_timer (get_expirer x (list_del p t)) = et_timer (get_expirer x t)"
  "et_get_timeout (get_expirer x (list_del p t)) = et_get_timeout (get_expirer x t)"
  "et_decide_fate_cb (get_expirer x (list_del p t)) = et_decide_fate_cb (get_expirer x t)"
  by (cases x; simp add: list_del_def get_expirer_def timer_unlink_def timer_list_def)+

lemma list_add_tail_simps [simp]:
  "st_tree6 (list_add_tail p y t) = st_tree6 t" "st_tree4 (list_add_tail p y t) = st_tree4 t"
  "st_count (list_add_tail p y t) = st_count t"
  "timer_list x (list_add_tail p y t) = (if x = y then timer_list x t @ [p] else timer_list x t)"
  "et_timer (get_expirer x (list_add_tail p y t)) = et_timer (get_expirer x t)"
  "et_get_timeout (get_expirer x (list_add_tail p y t)) = et_get_timeout (get_expirer x t)"
  "et_decide_fate_cb (get_expirer x (list_add_tail p y t)) = et_decide_fate_cb (get_expirer x t)"
  by (simp_all add: list_add_tail_def timer_list_def)

lemma stable_okD:
  assumes "stable_ok proto v t" "p \<in> stable_nodes t"
  obtains e x where "v p = Some e" "se_l4_proto e = proto" "se_tree6_hook e" "se_tree4_hook e" "se_bib e \<noteq> None"
    "se_expirer e = Some x" "p \<in> set (timer_list x t)" "placed x e"
  using assms unfolding stable_ok_def sess_entry_ok_def by blast

lemma stable_ok_entry:
  assumes "stable_ok proto v t" "p \<in> stable_nodes t" "v p = Some e"
  shows "sess_entry_ok proto t p e"
proof -
  have "\<exists>e. v p = Some e \<and> sess_entry_ok proto t p e" using assms(1,2) unfolding stable_ok_def by blast
  then show ?thesis using assms(3) by simp
qed

lemma stable_ok_list:
  assumes "stable_ok proto v t" "p \<in> set (timer_list x t)"
  shows "p \<in> stable_nodes t" "\<exists>e. v p = Some e \<and> se_expirer e = Some x \<and> placed x e"
proof -
  show n: "p \<in> stable_nodes t" using assms unfolding stable_ok_def by (cases x) auto
  obtain e y where e: "v p = Some e" "se_expirer e = Some y" "p \<in> set (timer_list y t)" "placed y e"
    using stable_okD [OF assms(1) n] by blast
  moreover have "x = y" using assms e(3) unfolding stable_ok_def by (cases x; cases y) auto
  ultimately show "\<exists>e. v p = Some e \<and> se_expirer e = Some x \<and> placed x e" by blast
qed

text \<open>Entries outside of the table do not matter to it.\<close>

lemma stable_ok_cong:
  assumes "stable_ok proto v t" "\<And>p. p \<in> stable_nodes t \<Longrightarrow> v' p = v p"
  shows "stable_ok proto v' t"
proof -
  have n: "set (inorder (st_tree6 t)) = stable_nodes t" using assms(1) by (simp add: stable_ok_def)
  have "sess6.keys_sorted v' (inorder (st_tree6 t)) = sess6.keys_sorted v (inorder (st_tree6 t))"
    using assms(2) n by (intro sess6.keys_sorted_cong) (simp add: sess_key6_def)
  moreover have "sess4.keys_sorted v' (inorder (st_tree4 t)) = sess4.keys_sorted v (inorder (st_tree4 t))"
    using assms(2) by (intro sess4.keys_sorted_cong) (simp add: sess_key4_def stable_nodes_def)
  ultimately show ?thesis using assms unfolding stable_ok_def by simp
qed

lemma tab_ok_live:
  assumes "tab_ok proto B K t s" "p \<in> stable_nodes t"
  obtains e where "sessions s p = Some e"
  using assms pktq_ok_token [of "[]" B "tab_refs t + K" s p] by (auto simp: tab_ok_def tab_refs_def stable_nodes_def)


lemma tab_ok_live_pos: "tab_ok proto B K t s \<Longrightarrow> p \<in> stable_nodes t \<Longrightarrow> sessions s p \<noteq> None"
  by (rule tab_ok_live [of proto B K t s p]) simp_all

section \<open>Removing\<close>

lemma stable_ok_distinct:
  assumes "stable_ok proto v t"
  shows "distinct (inorder (st_tree6 t))" "distinct (inorder (st_tree4 t))" "distinct (timer_list x t)"
  using assms sess6.keys_sorted_distinct sess4.keys_sorted_distinct unfolding stable_ok_def by (blast, blast, cases x, auto)

lemma stable_ok_remove:
  assumes ok: "stable_ok proto v t" and p: "p \<in> stable_nodes t"
    and t': "inorder (st_tree6 t') = remove1 p (inorder (st_tree6 t))" "inorder (st_tree4 t') = remove1 p (inorder (st_tree4 t))"
      "st_count t' = st_count t - 1" "\<And>x. timer_list x t' = remove1 p (timer_list x t)"
    and v': "\<And>q. q \<in> stable_nodes t \<Longrightarrow> q \<noteq> p \<Longrightarrow> v' q = v q"
  shows "stable_ok proto v' t'" "stable_nodes t' = stable_nodes t - {p}"
proof -
  note d = stable_ok_distinct [OF ok]
  have n6: "set (inorder (st_tree6 t)) = stable_nodes t"
    and cov: "set (timer_list Est_timer t) \<union> set (timer_list Trans_timer t) = stable_nodes t"
    and dl: "distinct (timer_list Est_timer t @ timer_list Trans_timer t)"
    using ok by (simp_all add: stable_ok_def)
  show n: "stable_nodes t' = stable_nodes t - {p}"
    using d(2) t'(2) unfolding stable_nodes_def by (simp del: set_inorder)
  have "stable_ok proto v t'"
    unfolding stable_ok_def
  proof (intro conjI)
    show "sess6.keys_sorted v (inorder (st_tree6 t'))" "sess4.keys_sorted v (inorder (st_tree4 t'))"
      unfolding t'(1,2) using ok unfolding stable_ok_def
      by (blast intro: sess6.keys_sorted_remove1, blast intro: sess4.keys_sorted_remove1)
    show "set (inorder (st_tree6 t')) = stable_nodes t'" unfolding n t'(1) using d(1) n6 by (simp del: set_inorder)
    have "p \<in> set (inorder (st_tree4 t))" using p by (simp only: stable_nodes_def)
    then show "st_count t' = of_nat (length (inorder (st_tree4 t')))"
      unfolding t'(2,3) using ok length_Suc_remove1 [of p "inorder (st_tree4 t)"] by (simp add: stable_ok_def del: set_inorder length_inorder)
    show "distinct (timer_list Est_timer t' @ timer_list Trans_timer t')"
      using dl unfolding t'(4) by (auto dest: notin_set_remove1)
    show "set (timer_list Est_timer t') \<union> set (timer_list Trans_timer t') = stable_nodes t'"
      unfolding n t'(4) using dl cov by auto
    show "\<forall>q \<in> stable_nodes t'. \<exists>e. v q = Some e \<and> sess_entry_ok proto t' q e"
    proof
      fix q assume "q \<in> stable_nodes t'"
      then have q: "q \<in> stable_nodes t" "q \<noteq> p" using n by auto
      obtain e x where e: "v q = Some e" "se_l4_proto e = proto" "se_tree6_hook e" "se_tree4_hook e" "se_bib e \<noteq> None"
        "se_expirer e = Some x" "q \<in> set (timer_list x t)" "placed x e"
        using stable_okD [OF ok q(1)] by blast
      then have "q \<in> set (timer_list x t')" using q(2) t'(4) by simp
      then show "\<exists>e. v q = Some e \<and> sess_entry_ok proto t' q e" using e unfolding sess_entry_ok_def by blast
    qed
  qed
  then show "stable_ok proto v' t'" by (rule stable_ok_cong) (use n v' in auto)
qed

lemma cbs_ok_cong:
  "(\<And>x. et_get_timeout (get_expirer x t') = et_get_timeout (get_expirer x t)) \<Longrightarrow>
   (\<And>x. et_decide_fate_cb (get_expirer x t') = et_decide_fate_cb (get_expirer x t)) \<Longrightarrow> cbs_ok proto t' = cbs_ok proto t"
  by (simp add: cbs_ok_def)

lemma session_rm_step:
  assumes laws: "rb_laws ops" and pq: "pktq_ok [] B (tab_refs t + K) s" and e: "sessions s p = Some e"
    and hooks: "se_tree6_hook e" "se_tree4_hook e"
    and st: "stable_ok proto v t" "p \<in> stable_nodes t" "cbs_ok proto t"
    and v: "\<And>q. q \<in> stable_nodes t \<Longrightarrow> q \<noteq> p \<Longrightarrow> sview s q = v q"
  obtains t' s' where "session_rm ops t p rms s = Some (t', p # rms, s')" "tab_ok proto B (add_mset p K) t' s'"
    "stable_nodes t' = stable_nodes t - {p}" "\<And>x. timer_list x t' = remove1 p (timer_list x t)"
    "inorder (st_tree4 t') = remove1 p (inorder (st_tree4 t))" "inorder (st_tree6 t') = remove1 p (inorder (st_tree6 t))"
    "\<And>x. et_timer (get_expirer x t') = et_timer (get_expirer x t)" "\<And>x. et_get_timeout (get_expirer x t') = et_get_timeout (get_expirer x t)"
    "\<And>x. et_decide_fate_cb (get_expirer x t') = et_decide_fate_cb (get_expirer x t)"
    "sview s' = (sview s)(p \<mapsto> e\<lparr>se_expirer := None, se_refcounter := 0\<rparr>)" "ref_only s s'" "bibs s' = bibs s"
proof -
  define t' where "t' = (list_del p t)\<lparr>st_tree6 := rb_erase ops p (st_tree6 t), st_tree4 := rb_erase ops p (st_tree4 t),
    st_count := st_count t - 1\<rparr>"
  define s' where "s' = s\<lparr>sessions := (sessions s)(p \<mapsto> e\<lparr>se_expirer := None\<rparr>)\<rparr>"
  have n6: "set (inorder (st_tree6 t)) = stable_nodes t" using st(1) by (simp add: stable_ok_def)
  have pt: "p \<in> set (inorder (st_tree6 t))" "p \<in> set (inorder (st_tree4 t))" using st(2) n6 by (simp_all add: stable_nodes_def)
  then have r: "session_rm ops t p rms s = Some (t', p # rms, s')"
    using e hooks unfolding session_rm_def rbtree_erase_def t'_def s'_def by (simp del: set_inorder)
  have in4: "inorder (st_tree4 t') = remove1 p (inorder (st_tree4 t))" "inorder (st_tree6 t') = remove1 p (inorder (st_tree6 t))"
    using laws by (simp_all add: t'_def)
  have tl: "timer_list x t' = remove1 p (timer_list x t)" "et_timer (get_expirer x t') = et_timer (get_expirer x t)"
    "et_get_timeout (get_expirer x t') = et_get_timeout (get_expirer x t)"
    "et_decide_fate_cb (get_expirer x t') = et_decide_fate_cb (get_expirer x t)" for x
    by (simp_all add: t'_def)
  have w: "pktq_ok [] B (tab_refs t + K) s'" "sview s' = (sview s)(p \<mapsto> (e\<lparr>se_expirer := None\<rparr>)\<lparr>se_refcounter := 0\<rparr>)"
    unfolding s'_def by (rule session_write [OF pq e]; simp)+
  have stn: "stable_ok proto (sview s') t'" "stable_nodes t' = stable_nodes t - {p}"
    by (rule stable_ok_remove [OF st(1,2) in4(2,1) _ tl(1)]; simp add: t'_def w(2) v)+
  have "tab_refs t = add_mset p (tab_refs t')" using pt(2) in4(1) by (simp add: tab_refs_def del: set_inorder)
  then have "pktq_ok [] B (tab_refs t' + add_mset p K) s'" using w(1) by simp
  moreover have "cbs_ok proto t'" using cbs_ok_cong [of t' t proto] tl st(3) by simp
  ultimately have tab: "tab_ok proto B (add_mset p K) t' s'" using stn(1) by (simp add: tab_ok_def)
  show ?thesis by (rule that [OF r tab stn(2) tl(1) in4 tl(2-4) w(2)]) (simp_all add: s'_def)
qed

lemma session_rm_ok:
  assumes laws: "rb_laws ops" and ok: "tab_ok proto B K t s" and p: "p \<in> stable_nodes t"
  obtains t' s' e where "session_rm ops t p rms s = Some (t', p # rms, s')" "tab_ok proto B (add_mset p K) t' s'"
    "stable_nodes t' = stable_nodes t - {p}" "\<And>x. timer_list x t' = remove1 p (timer_list x t)"
    "inorder (st_tree4 t') = remove1 p (inorder (st_tree4 t))" "inorder (st_tree6 t') = remove1 p (inorder (st_tree6 t))"
    "\<And>x. et_timer (get_expirer x t') = et_timer (get_expirer x t)" "\<And>x. et_get_timeout (get_expirer x t') = et_get_timeout (get_expirer x t)"
    "\<And>x. et_decide_fate_cb (get_expirer x t') = et_decide_fate_cb (get_expirer x t)" "sessions s p = Some e"
    "sview s' = (sview s)(p \<mapsto> e\<lparr>se_expirer := None, se_refcounter := 0\<rparr>)" "ref_only s s'" "bibs s' = bibs s"
proof -
  have sok: "stable_ok proto (sview s) t" "cbs_ok proto t" and pq: "pktq_ok [] B (tab_refs t + K) s"
    using ok by (simp_all add: tab_ok_def)
  obtain e where e: "sessions s p = Some e" using tab_ok_live [OF ok p] by blast
  have hooks: "se_tree6_hook e" "se_tree4_hook e"
    using stable_ok_entry [OF sok(1) p sview_Some [OF e]] by (simp_all add: sess_entry_ok_def)
  show ?thesis
    by (rule session_rm_step [OF laws pq e hooks sok(1) p sok(2) refl]) (rule that [OF _ _ _ _ _ _ _ _ _ e])
qed

lemma delete_sessions_ok:
  assumes laws: "rb_laws ops"
  shows "pktq_ok X B (mset rms + K) s \<Longrightarrow>
    \<exists>s'. delete_sessions ops rms s = Some s' \<and> pktq_ok X B K s' \<and> sview s' \<subseteq>\<^sub>m sview s \<and> ref_only s s'"
proof (induction rms arbitrary: s)
  case Nil
  then show ?case by simp
next
  case (Cons q rms)
  obtain s1 where s1: "session_return ops q s = Some s1" "pktq_ok X B (mset rms + K) s1" "ref_only s s1"
    "sview s1 = (if q \<in># node_refs X s + (mset rms + K) then sview s else (sview s)(q := None))"
    using session_return_token [OF laws, of X B q "mset rms + K" s] Cons.prems by auto
  obtain s2 where s2: "delete_sessions ops rms s1 = Some s2" "pktq_ok X B K s2" "sview s2 \<subseteq>\<^sub>m sview s1" "ref_only s1 s2"
    using Cons.IH [OF s1(2)] by blast
  have "sview s1 \<subseteq>\<^sub>m sview s" using s1(4) by (auto simp: map_le_def)
  then show ?case using s1(1) s2 map_le_trans [OF s2(3)] ref_only_trans [OF s1(3) s2(4)] by simp
qed


section \<open>Rescheduling\<close>

lemma force_reschedule_ok:
  assumes "\<And>p. p \<in> set (et_sessions ex) \<Longrightarrow> \<exists>e. sessions s p = Some e" "et_sessions ex \<noteq> [] \<Longrightarrow> et_get_timeout ex \<noteq> None"
  obtains time where "force_reschedule env s ex = Some (if et_sessions ex = [] then ex else ex\<lparr>et_timer := Some time\<rparr>)"
proof (cases "et_sessions ex")
  case Nil
  then show ?thesis using that by (simp add: force_reschedule_def)
next
  case (Cons p ps)
  then obtain e where "sessions s p = Some e" using assms(1) [of p] by auto
  moreover obtain f where "et_get_timeout ex = Some f" using assms(2) Cons by auto
  ultimately show ?thesis using that Cons by (auto simp: force_reschedule_def Let_def)
qed

lemma reschedule_ok:
  assumes "\<And>p. p \<in> set (et_sessions ex) \<Longrightarrow> \<exists>e. sessions s p = Some e" "et_sessions ex \<noteq> [] \<Longrightarrow> et_get_timeout ex \<noteq> None"
  obtains ex' where "reschedule env s ex = Some ex'" "et_sessions ex' = et_sessions ex" "et_get_timeout ex' = et_get_timeout ex"
    "et_decide_fate_cb ex' = et_decide_fate_cb ex" "et_sessions ex \<noteq> [] \<Longrightarrow> et_timer ex' \<noteq> None"
    "et_timer ex \<noteq> None \<Longrightarrow> ex' = ex"
proof (cases "et_timer ex = None")
  case True
  obtain time where "force_reschedule env s ex = Some (if et_sessions ex = [] then ex else ex\<lparr>et_timer := Some time\<rparr>)"
    using force_reschedule_ok [OF assms] by blast
  then show ?thesis using that True by (simp add: reschedule_def)
next
  case False
  then show ?thesis using that [of ex] by (simp add: reschedule_def)
qed

definition same_const :: "session_entry \<Rightarrow> session_entry \<Rightarrow> bool" where
  "same_const e e' \<longleftrightarrow> se_remote6 e' = se_remote6 e \<and> se_local6 e' = se_local6 e \<and> se_local4 e' = se_local4 e \<and>
     se_remote4 e' = se_remote4 e \<and> se_bib e' = se_bib e \<and> se_l4_proto e' = se_l4_proto e \<and>
     se_tree6_hook e' = se_tree6_hook e \<and> se_tree4_hook e' = se_tree4_hook e"

text \<open>Writing to an entry of the table, and moving it between the lists.\<close>

lemma stable_ok_move:
  assumes ok: "stable_ok proto v t" and p: "p \<in> stable_nodes t" and e: "v p = Some e" "same_const e e'"
    and v': "\<And>q. q \<in> stable_nodes t \<Longrightarrow> q \<noteq> p \<Longrightarrow> v' q = v q" "v' p = Some e'"
    and t': "st_tree6 t' = st_tree6 t" "st_tree4 t' = st_tree4 t" "st_count t' = st_count t"
      "\<And>y. set (timer_list y t') - {p} = set (timer_list y t) - {p}" "distinct (timer_list Est_timer t' @ timer_list Trans_timer t')"
      "p \<in> set (timer_list x t')"
    and x: "se_expirer e' = Some x" "placed x e'"
  shows "stable_ok proto v' t'" "stable_nodes t' = stable_nodes t"
proof -
  show n: "stable_nodes t' = stable_nodes t" using t'(2) by (simp add: stable_nodes_def)
  have n6: "set (inorder (st_tree6 t)) = stable_nodes t"
    and cov: "set (timer_list Est_timer t) \<union> set (timer_list Trans_timer t) = stable_nodes t"
    using ok by (simp_all add: stable_ok_def)
  have keys: "sess_key6 v' q = sess_key6 v q" "sess_key4 v' q = sess_key4 v q" if "q \<in> stable_nodes t" for q
    using v'(1) [OF that] v'(2) e by (cases "q = p"; simp add: sess_key6_def sess_key4_def same_const_def)+
  have "sess6.keys_sorted v' (inorder (st_tree6 t)) = sess6.keys_sorted v (inorder (st_tree6 t))"
    by (rule sess6.keys_sorted_cong) (use keys n6 in blast)
  moreover have "sess4.keys_sorted v' (inorder (st_tree4 t)) = sess4.keys_sorted v (inorder (st_tree4 t))"
    by (rule sess4.keys_sorted_cong) (use keys in \<open>simp add: stable_nodes_def\<close>)
  moreover have "set (timer_list Est_timer t') \<union> set (timer_list Trans_timer t') = stable_nodes t"
  proof -
    have "q \<in> set (timer_list Est_timer t') \<union> set (timer_list Trans_timer t') \<longleftrightarrow>
        q \<in> set (timer_list Est_timer t) \<union> set (timer_list Trans_timer t)" for q
    proof (cases "q = p")
      case True
      then show ?thesis using t'(6) p cov by (cases x) auto
    next
      case False
      then show ?thesis using t'(4) by blast
    qed
    then show ?thesis using cov by blast
  qed
  moreover have "\<exists>e. v' q = Some e \<and> sess_entry_ok proto t' q e" if q: "q \<in> stable_nodes t" for q
  proof (cases "q = p")
    case True
    have "sess_entry_ok proto t p e" using stable_ok_entry [OF ok p e(1)] .
    then have "sess_entry_ok proto t' p e'"
      using e(2) x t'(6) by (auto simp: sess_entry_ok_def same_const_def)
    then show ?thesis using True v'(2) by simp
  next
    case False
    obtain e2 where e2: "v q = Some e2" using stable_okD [OF ok q] by blast
    have "sess_entry_ok proto t q e2" using stable_ok_entry [OF ok q e2] .
    moreover have "q \<in> set (timer_list y t') \<longleftrightarrow> q \<in> set (timer_list y t)" for y using t'(4) [of y] False by blast
    ultimately have "sess_entry_ok proto t' q e2" by (simp add: sess_entry_ok_def)
    then show ?thesis using e2 v'(1) [OF q False] by simp
  qed
  ultimately show "stable_ok proto v' t'"
    using ok t' n n6 unfolding stable_ok_def by simp
qed

lemma reset_timer_ok:
  assumes pq: "pktq_ok [] B (tab_refs t + K) s" and e: "sessions s p = Some e"
    and st: "stable_ok proto v t" "p \<in> stable_nodes t" "cbs_ok proto t"
    and v: "\<And>q. q \<in> stable_nodes t \<Longrightarrow> q \<noteq> p \<Longrightarrow> sview s q = v q" "v p = Some e0" "same_const e0 e"
    and x: "placed x e" "x = Est_timer \<or> proto = L4PROTO_TCP"
  obtains t' s' where "reset_timer env x t p s = Some (t', s')" "tab_ok proto B K t' s'"
    "st_tree4 t' = st_tree4 t" "st_tree6 t' = st_tree6 t"
    "\<And>y. timer_list y t' = (if y = x then remove1 p (timer_list y t) @ [p] else remove1 p (timer_list y t))" "pending x t'"
    "\<And>y. y \<noteq> x \<or> et_timer (get_expirer y t) \<noteq> None \<Longrightarrow> et_timer (get_expirer y t') = et_timer (get_expirer y t)"
    "\<And>y. et_get_timeout (get_expirer y t') = et_get_timeout (get_expirer y t)"
    "\<And>y. et_decide_fate_cb (get_expirer y t') = et_decide_fate_cb (get_expirer y t)"
    "sview s' = (sview s)(p \<mapsto> e\<lparr>se_update_time := jiffies s, se_expirer := Some x, se_refcounter := 0\<rparr>)"
    "ref_only s s'" "bibs s' = bibs s"
proof -
  define e2 where "e2 = e\<lparr>se_update_time := jiffies s, se_expirer := Some x\<rparr>"
  define s' where "s' = s\<lparr>sessions := (sessions s)(p \<mapsto> e2)\<rparr>"
  define t1 where "t1 = list_add_tail p x (list_del p t)"
  have w: "pktq_ok [] B (tab_refs t + K) s'" "sview s' = (sview s)(p \<mapsto> e2\<lparr>se_refcounter := 0\<rparr>)"
    unfolding s'_def by (rule session_write [OF pq e]; simp add: e2_def)+
  have tl: "timer_list y t1 = (if y = x then remove1 p (timer_list y t) @ [p] else remove1 p (timer_list y t))" for y
    by (simp add: t1_def)
  have dl: "distinct (timer_list Est_timer t @ timer_list Trans_timer t)"
    and cov: "set (timer_list Est_timer t) \<union> set (timer_list Trans_timer t) = stable_nodes t"
    using st(1) by (simp_all add: stable_ok_def)
  have live: "\<exists>e. sessions s' q = Some e" if "q \<in> stable_nodes t" for q
    using pktq_ok_token [OF w(1), of q] that by (auto simp: tab_refs_def stable_nodes_def)
  have sub: "set (timer_list y t1) \<subseteq> stable_nodes t" for y
  proof -
    have "set (timer_list y t) \<subseteq> stable_nodes t" using cov by (cases y) auto
    then show ?thesis using tl [of y] set_remove1_subset [of p "timer_list y t"] st(2) by auto
  qed
  have gt: "et_get_timeout (get_expirer x t1) \<noteq> None" using st(3) x(2) by (auto simp: cbs_ok_def t1_def)
  have mem: "\<exists>e. sessions s' q = Some e" if "q \<in> set (et_sessions (get_expirer x t1))" for q
    using live [of q] sub [of x] that unfolding timer_list_def by blast
  obtain ex where ex: "reschedule env s' (get_expirer x t1) = Some ex" "et_sessions ex = timer_list x t1"
    "et_get_timeout ex = et_get_timeout (get_expirer x t1)" "et_decide_fate_cb ex = et_decide_fate_cb (get_expirer x t1)"
    "timer_list x t1 \<noteq> [] \<Longrightarrow> et_timer ex \<noteq> None" "et_timer (get_expirer x t1) \<noteq> None \<Longrightarrow> ex = get_expirer x t1"
    using reschedule_ok [OF mem gt, of env] unfolding timer_list_def by blast
  define t' where "t' = put_expirer x ex t1"
  have r: "reset_timer env x t p s = Some (t', s')"
    using e ex(1) by (simp add: reset_timer_def Let_def t1_def s'_def e2_def t'_def)
  have trees: "st_tree4 t' = st_tree4 t" "st_tree6 t' = st_tree6 t" "st_count t' = st_count t" by (simp_all add: t'_def t1_def)
  have tl': "timer_list y t' = (if y = x then remove1 p (timer_list y t) @ [p] else remove1 p (timer_list y t))" for y
    using tl ex(2) by (simp add: t'_def)
  have tm: "et_timer (get_expirer y t') = et_timer (get_expirer y t)" if "y \<noteq> x \<or> et_timer (get_expirer y t) \<noteq> None" for y
    using that ex(6) by (auto simp: t'_def t1_def)
  have cb: "et_get_timeout (get_expirer y t') = et_get_timeout (get_expirer y t)"
    "et_decide_fate_cb (get_expirer y t') = et_decide_fate_cb (get_expirer y t)" for y
    using ex(3,4) by (simp_all add: t'_def t1_def)
  have pend: "pending x t'" using ex(2,5) tl [of x] by (simp add: pending_def t'_def)
  have "stable_ok proto (sview s') t'"
  proof (rule stable_ok_move [OF st(1,2) v(2), where x = x])
    show "same_const e0 (e2\<lparr>se_refcounter := 0\<rparr>)" using v(3) by (simp add: same_const_def e2_def)
    show "sview s' q = v q" if "q \<in> stable_nodes t" "q \<noteq> p" for q using w(2) v(1) that by simp
    show "set (timer_list y t') - {p} = set (timer_list y t) - {p}" for y
      using tl' [of y] dl by (cases y) (auto dest: notin_set_remove1)
    show "distinct (timer_list Est_timer t' @ timer_list Trans_timer t')" using dl unfolding tl' by (cases x) (auto dest: notin_set_remove1)
    show "p \<in> set (timer_list x t')" by (simp add: tl')
    show "placed x (e2\<lparr>se_refcounter := 0\<rparr>)" using x(1) by (simp add: placed_def e2_def)
  qed (use w(2) trees in \<open>simp_all add: e2_def\<close>)
  moreover have "tab_refs t' = tab_refs t" using trees by (simp add: tab_refs_def)
  moreover have "cbs_ok proto t'" using cbs_ok_cong [of t' t proto] cb st(3) by simp
  ultimately have "tab_ok proto B K t' s'" using w(1) by (simp add: tab_ok_def)
  moreover have "sview s' = (sview s)(p \<mapsto> e\<lparr>se_update_time := jiffies s, se_expirer := Some x, se_refcounter := 0\<rparr>)"
    using w(2) by (simp only: e2_def)
  moreover have "ref_only s s'" "bibs s' = bibs s" by (simp_all add: s'_def)
  ultimately show ?thesis using that [OF r _ trees(1,2) tl' pend tm cb] by blast
qed


section \<open>Fates\<close>

text \<open>The sessions of a table survive whatever leaves its references alone.\<close>

lemma tab_ok_shrink:
  assumes "tab_ok proto B K t s" "pktq_ok [] B' (tab_refs t + K') s'" "\<And>p. p \<in> stable_nodes t \<Longrightarrow> sview s' p = sview s p \<or> sview s' p = None"
  shows "tab_ok proto B' K' t s'"
proof -
  have "sview s' p = sview s p" if p: "p \<in> stable_nodes t" for p
  proof -
    obtain e where "sessions s' p = Some e"
      using pktq_ok_token [OF assms(2), of p] p by (auto simp: tab_refs_def stable_nodes_def)
    then show ?thesis using assms(3) [OF p] sview_Some by fastforce
  qed
  then have "stable_ok proto (sview s') t" using assms(1) stable_ok_cong [of proto "sview s" t "sview s'"] by (simp add: tab_ok_def)
  then show ?thesis using assms(1,2) by (simp add: tab_ok_def)
qed

lemma post_probes_ok:
  assumes env: "sess_env_ok env"
  shows "pktq_ok [] B (mset probes + K) s \<Longrightarrow> \<exists>s'. post_probes env probes s = Some s' \<and> pktq_ok [] B K s' \<and>
    sview s' \<subseteq>\<^sub>m sview s \<and> pktq_frame s s' \<and> queue_same s s'"
proof (induction probes arbitrary: s)
  case Nil
  then show ?case by (simp add: queue_same_def)
next
  case (Cons q probes)
  have laws: "rb_laws (ev_rb env)" using env by (simp add: sess_env_ok_def)
  obtain e where e: "sessions s q = Some e" using pktq_ok_token [OF Cons.prems, of q] by auto
  let ?s0 = "emit (send_probe_packet env e) s"
  have "pktq_ok [] B (add_mset q (mset probes + K)) ?s0" using Cons.prems by simp
  then obtain s1 where s1: "session_return (ev_rb env) q ?s0 = Some s1" "pktq_ok [] B (mset probes + K) s1" "ref_only ?s0 s1"
    "sview s1 = (if q \<in># node_refs [] ?s0 + (mset probes + K) then sview ?s0 else (sview ?s0)(q := None))"
    using session_return_token [OF laws] by blast
  obtain s2 where s2: "post_probes env probes s1 = Some s2" "pktq_ok [] B K s2" "sview s2 \<subseteq>\<^sub>m sview s1" "pktq_frame s1 s2" "queue_same s1 s2"
    using Cons.IH [OF s1(2)] by blast
  have "sview s1 \<subseteq>\<^sub>m sview s" using s1(4) by (auto simp: map_le_def)
  moreover have "pktq_frame s s1" using ref_only_frame [OF s1(3)] by (simp add: pktq_frame_def emit_def)
  moreover have "queue_same s s2" using ref_only_queue [OF s1(3)] s2(5) by (simp add: queue_same_def)
  ultimately show ?case
    using e s1(1) s2(1,2) map_le_trans [OF s2(3)] pktq_frame_trans [OF _ s2(4)] by simp
qed

lemma post_fate_ok:
  assumes env: "sess_env_ok env" and ok: "pktq_ok [] B (mset rms + mset probes + K) s"
  obtains s' where "post_fate env rms probes s = Some s'" "pktq_ok [] B K s'" "sview s' \<subseteq>\<^sub>m sview s" "pktq_frame s s'"
    "queue_same s s'"
proof -
  have laws: "rb_laws (ev_rb env)" using env by (simp add: sess_env_ok_def)
  have "pktq_ok [] B (mset probes + (mset rms + K)) s" using ok by (simp add: ac_simps)
  then obtain s1 where s1: "post_probes env probes s = Some s1" "pktq_ok [] B (mset rms + K) s1" "sview s1 \<subseteq>\<^sub>m sview s"
    "pktq_frame s s1" "queue_same s s1"
    using post_probes_ok [OF env] by blast
  obtain s2 where s2: "delete_sessions (ev_rb env) rms s1 = Some s2" "pktq_ok [] B K s2" "sview s2 \<subseteq>\<^sub>m sview s1" "ref_only s1 s2"
    using delete_sessions_ok [OF laws s1(2)] by blast
  have le: "sview s2 \<subseteq>\<^sub>m sview s" using map_le_trans [OF s2(3) s1(3)] .
  have "pktq_frame s s2" using pktq_frame_trans [OF s1(4) ref_only_frame [OF s2(4)]] .
  moreover have "queue_same s s2" using s1(5) ref_only_queue [OF s2(4)] by (simp add: queue_same_def)
  ultimately show ?thesis using that [of s2] s1(1) s2(1,2) le by (cases rms) (simp_all add: post_fate_def)
qed

text \<open>What the session is like after that: a fate that puts it into a list also refreshes it.\<close>

definition fated :: "session_fate \<Rightarrow> u64 \<Rightarrow> session_entry \<Rightarrow> session_entry" where
  "fated f now e1 = e1\<lparr>se_update_time := (if fate_target f = None then se_update_time e1 else now),
     se_expirer := (if f = FATE_PRESERVE then se_expirer e1 else fate_target f), se_refcounter := 0\<rparr>"

text \<open>What deciding on a fate does to the table, given what the callback answers.\<close>

definition fate_effect :: "l4_protocol \<Rightarrow> ptr multiset \<Rightarrow> ptr multiset \<Rightarrow> session_table \<Rightarrow> 'a pktq_db_scheme \<Rightarrow> ptr \<Rightarrow>
    session_entry \<Rightarrow> session_fate \<Rightarrow> ptr list \<Rightarrow> session_table \<Rightarrow> 'a pktq_db_scheme \<Rightarrow> bool" where
  "fate_effect proto B K t s p e1 f new t' s' \<longleftrightarrow>
     tab_ok proto B (mset (if f = FATE_RM then [p] else []) + mset new + K) t' s' \<and>
     stable_nodes t' = stable_nodes t - (if f = FATE_RM then {p} else {}) \<and>
     (\<forall>y. timer_list y t' = (if f = FATE_PRESERVE then timer_list y t
        else remove1 p (timer_list y t) @ (if fate_target f = Some y then [p] else []))) \<and>
     (\<forall>y. fate_target f = Some y \<longrightarrow> pending y t') \<and>
     (\<forall>y. fate_target f \<noteq> Some y \<or> et_timer (get_expirer y t) \<noteq> None \<longrightarrow> et_timer (get_expirer y t') = et_timer (get_expirer y t)) \<and>
     (\<forall>y. et_get_timeout (get_expirer y t') = et_get_timeout (get_expirer y t) \<and>
        et_decide_fate_cb (get_expirer y t') = et_decide_fate_cb (get_expirer y t)) \<and>
     (\<forall>q. q \<noteq> p \<longrightarrow> q \<notin> set new \<longrightarrow> sview s' q = sview s q) \<and> (\<forall>q \<in> set new. sessions s q = None) \<and>
     (sview s' p = Some (fated f (jiffies s) e1)) \<and> ref_only s s'"

lemma decide_fate_reset:
  assumes ok: "tab_ok proto B K t s" and p: "p \<in> stable_nodes t"
    and e: "sessions s p = Some e" "same_const e e1" "se_refcounter e1 = se_refcounter e"
    and s1: "s1 = s\<lparr>sessions := (sessions s)(p \<mapsto> e1)\<rparr>"
    and s2: "ref_only s1 s2" "pktq_ok [] B (tab_refs t + (mset new + K)) s2" "sessions s2 p = Some e1"
      "\<And>q. q \<notin> set new \<Longrightarrow> sview s2 q = sview s1 q" "\<And>q. q \<in> set new \<Longrightarrow> sessions s1 q = None"
    and f: "fate_target f = Some x" "placed x e1" "f \<noteq> FATE_RM" "f \<noteq> FATE_PRESERVE"
  obtains t' s' where "reset_timer env x t p s2 = Some (t', s')" "fate_effect proto B K t s p e1 f new t' s'"
proof -
  have sok: "stable_ok proto (sview s) t" "cbs_ok proto t" and pq: "pktq_ok [] B (tab_refs t + K) s"
    using ok by (simp_all add: tab_ok_def)
  have v1: "sview s1 = (sview s)(p \<mapsto> e1\<lparr>se_refcounter := 0\<rparr>)" unfolding s1 using sview_upd [of "s\<lparr>sessions := (sessions s)(p \<mapsto> e1)\<rparr>" s p] by simp
  have new: "sessions s q = None" "q \<noteq> p" "q \<notin> stable_nodes t" if "q \<in> set new" for q
  proof -
    show n: "q \<noteq> p" using s2(5) [OF that] by (auto simp: s1)
    then show "sessions s q = None" using s2(5) [OF that] by (simp add: s1)
    then show "q \<notin> stable_nodes t" using tab_ok_live_pos [OF ok, of q] by blast
  qed
  have proto: "se_l4_proto e = proto" using stable_ok_entry [OF sok(1) p sview_Some [OF e(1)]] by (simp add: sess_entry_ok_def)
  have x: "x = Est_timer \<or> proto = L4PROTO_TCP"
    using f(2) e(2) proto by (cases x) (auto simp: placed_def same_const_def split: if_splits)
  have v: "sview s2 q = sview s q" if "q \<in> stable_nodes t" "q \<noteq> p" for q
    using s2(4) [of q] new(3) [of q] that v1 by auto
  have sc: "same_const (e\<lparr>se_refcounter := 0\<rparr>) e1" using e(2) by (simp add: same_const_def)
  show ?thesis
  proof (rule reset_timer_ok [OF s2(2,3) sok(1) p sok(2) v sview_Some [OF e(1)] sc f(2) x, where env = env])
    fix t' s' assume r: "reset_timer env x t p s2 = Some (t', s')" "tab_ok proto B (mset new + K) t' s'"
    "st_tree4 t' = st_tree4 t" "st_tree6 t' = st_tree6 t"
    "\<And>y. timer_list y t' = (if y = x then remove1 p (timer_list y t) @ [p] else remove1 p (timer_list y t))" "pending x t'"
    "\<And>y. y \<noteq> x \<or> et_timer (get_expirer y t) \<noteq> None \<Longrightarrow> et_timer (get_expirer y t') = et_timer (get_expirer y t)"
    "\<And>y. et_get_timeout (get_expirer y t') = et_get_timeout (get_expirer y t)"
    "\<And>y. et_decide_fate_cb (get_expirer y t') = et_decide_fate_cb (get_expirer y t)"
    "sview s' = (sview s2)(p \<mapsto> e1\<lparr>se_update_time := jiffies s2, se_expirer := Some x, se_refcounter := 0\<rparr>)"
    "ref_only s2 s'"
    have "ref_only s s'" using ref_only_trans [OF _ ref_only_trans [OF s2(1) r(11)], of s] by (simp add: s1)
    moreover have "sview s' q = sview s q" if "q \<noteq> p" "q \<notin> set new" for q
      using that s2(4) [of q] v1 r(10) by simp
    moreover have "stable_nodes t' = stable_nodes t" using r(3) by (simp add: stable_nodes_def)
    moreover have "sview s' p = Some (fated f (jiffies s) e1)"
      using r(10) s2(1) f by (simp add: fated_def ref_only_def s1)
    moreover have "et_timer (get_expirer y t') = et_timer (get_expirer y t)"
      if "fate_target f \<noteq> Some y \<or> et_timer (get_expirer y t) \<noteq> None" for y
      by (rule r(7)) (use that f(1) in auto)
    ultimately have "fate_effect proto B K t s p e1 f new t' s'"
      unfolding fate_effect_def using f r(2,5,6,8,9) new(1) by simp
    then show thesis using that r(1) by blast
  qed
qed

lemma decide_fate_step:
  assumes env: "sess_env_ok env" and ok: "tab_ok proto B K t s" and p: "p \<in> stable_nodes t"
    and e: "sessions s p = Some e" and cb: "cb (jiffies s) pkt e = Some (e1, f)"
    and e1: "e1 = e\<lparr>se_state := st, se_update_time := u\<rparr>"
    and tgt: "\<And>y. fate_target f = Some y \<Longrightarrow> placed y e1"
    and pres: "\<And>x. f = FATE_PRESERVE \<Longrightarrow> se_expirer e = Some x \<Longrightarrow> placed x e1"
  obtains t' s' new where
    "decide_fate env cb pkt t p rms probes s = Some (t', (if f = FATE_RM then [p] else []) @ rms, new @ probes, s')"
    "fate_effect proto B K t s p e1 f new t' s'"
proof -
  note ret = that
  have laws: "rb_laws (ev_rb env)" and alloc: "session_alloc_ok (ev_session_alloc env)" using env by (simp_all add: sess_env_ok_def)
  have sok: "stable_ok proto (sview s) t" "cbs_ok proto t" and pq: "pktq_ok [] B (tab_refs t + K) s"
    using ok by (simp_all add: tab_ok_def)
  define s1 where "s1 = s\<lparr>sessions := (sessions s)(p \<mapsto> e1)\<rparr>"
  have sc: "same_const e e1" "se_refcounter e1 = se_refcounter e" by (simp_all add: e1 same_const_def)
  have w: "pktq_ok [] B (tab_refs t + K) s1" "sview s1 = (sview s)(p \<mapsto> e1\<lparr>se_refcounter := 0\<rparr>)"
    unfolding s1_def by (rule session_write [OF pq e]; simp add: e1)+
  have p1: "sessions s1 p = Some e1" and r1: "ref_only s s1" by (simp_all add: s1_def)
  have ent: "sess_entry_ok proto t p (e\<lparr>se_refcounter := 0\<rparr>)" using stable_ok_entry [OF sok(1) p sview_Some [OF e]] .
  have reset: ?thesis if f: "fate_target f = Some x" "f \<noteq> FATE_PROBE" "f \<noteq> FATE_RM" "f \<noteq> FATE_PRESERVE" for x
  proof -
    have pq1: "pktq_ok [] B (tab_refs t + (mset [] + K)) s1" using w(1) by simp
    obtain t' s' where "reset_timer env x t p s1 = Some (t', s')" "fate_effect proto B K t s p e1 f [] t' s'"
      by (rule decide_fate_reset [OF ok p e sc s1_def ref_only_refl pq1 p1 refl _ f(1) tgt [OF f(1)] f(3,4), where env = env]) auto
    then show ?thesis
      using ret [of t' "[]" s'] e cb f by (cases f) (simp_all add: decide_fate_def Let_def s1_def fate_target_def)
  qed
  show ?thesis
  proof (cases f)
    case FATE_TIMER_EST
    then show ?thesis using reset by (simp add: fate_target_def)
  next
    case FATE_TIMER_TRANS
    then show ?thesis using reset by (simp add: fate_target_def)
  next
    case FATE_PRESERVE
    obtain x where x: "se_expirer e = Some x" "p \<in> set (timer_list x t)" using ent by (auto simp: sess_entry_ok_def)
    have "stable_ok proto (sview s1) t"
      by (rule stable_ok_move [OF sok(1) p sview_Some [OF e], where e' = "e1\<lparr>se_refcounter := 0\<rparr>" and x = x])
        (use w(2) x sc(1) pres [OF FATE_PRESERVE x(1)] sok(1) e1 in \<open>simp_all add: same_const_def stable_ok_def\<close>)
    then have "tab_ok proto B K t s1" using w(1) sok(2) by (simp add: tab_ok_def)
    moreover have "sview s1 p = Some (fated f (jiffies s) e1)"
      using w(2) FATE_PRESERVE by (simp add: fated_def fate_target_def)
    ultimately have "fate_effect proto B K t s p e1 f [] t s1"
      using w(2) FATE_PRESERVE r1 by (simp add: fate_effect_def fate_target_def)
    moreover have "decide_fate env cb pkt t p rms probes s = Some (t, (if f = FATE_RM then [p] else []) @ rms, [] @ probes, s1)"
      using FATE_PRESERVE e cb by (simp add: decide_fate_def Let_def s1_def)
    ultimately show ?thesis using that by blast
  next
    case FATE_RM
    have v: "sview s1 q = sview s q" if "q \<in> stable_nodes t" "q \<noteq> p" for q using w(2) that(2) by simp
    have hooks: "se_tree6_hook e1" "se_tree4_hook e1" using ent by (simp_all add: sess_entry_ok_def e1)
    show ?thesis
    proof (rule session_rm_step [OF laws w(1) p1 hooks sok(1) p sok(2) v, where rms = rms])
      fix t' s' assume r: "session_rm (ev_rb env) t p rms s1 = Some (t', p # rms, s')" "tab_ok proto B (add_mset p K) t' s'"
        "stable_nodes t' = stable_nodes t - {p}" "\<And>x. timer_list x t' = remove1 p (timer_list x t)"
        "\<And>x. et_timer (get_expirer x t') = et_timer (get_expirer x t)" "\<And>x. et_get_timeout (get_expirer x t') = et_get_timeout (get_expirer x t)"
        "\<And>x. et_decide_fate_cb (get_expirer x t') = et_decide_fate_cb (get_expirer x t)"
        "sview s' = (sview s1)(p \<mapsto> e1\<lparr>se_expirer := None, se_refcounter := 0\<rparr>)" "ref_only s1 s'"
      have "sview s' p = Some (fated f (jiffies s) e1)"
        using r(8) FATE_RM by (simp add: fated_def fate_target_def)
      then have "fate_effect proto B K t s p e1 f [] t' s'"
        using r(2-9) w(2) FATE_RM ref_only_trans [OF r1 r(9)] by (simp add: fate_effect_def fate_target_def)
      moreover have "decide_fate env cb pkt t p rms probes s = Some (t', (if f = FATE_RM then [p] else []) @ rms, [] @ probes, s')"
        using FATE_RM e cb r(1) by (simp add: decide_fate_def Let_def s1_def)
      ultimately show ?thesis using ret by blast
    qed
  next
    case FATE_PROBE
    have f: "fate_target f = Some Trans_timer" using FATE_PROBE by (simp add: fate_target_def)
    note reset2 = decide_fate_reset [OF ok p e sc s1_def _ _ _ _ _ f tgt [OF f], where env = env]
    show ?thesis
    proof (rule session_clone_token [OF alloc w(1), of e1])
      show "\<exists>b. bibs s1 pb = Some b \<and> sess_agrees e1 b" if "se_bib e1 = Some pb" for pb
        using refs_ok_bib [OF pktq_ok_D(1) [OF w(1)] p1 that] by blast
    next
      assume 1: "session_clone (ev_session_alloc env) e1 s1 = Some (None, s1)"
      have pq1: "pktq_ok [] B (tab_refs t + (mset [] + K)) s1" using w(1) by simp
      obtain t' s' where "reset_timer env Trans_timer t p s1 = Some (t', s')" "fate_effect proto B K t s p e1 f [] t' s'"
        by (rule reset2 [OF ref_only_refl pq1 p1 refl]) (use FATE_PROBE in auto)
      then show ?thesis
        using ret [of t' "[]" s'] e cb FATE_PROBE 1 by (simp add: decide_fate_def Let_def s1_def)
    next
      fix n s2 assume 2: "session_clone (ev_session_alloc env) e1 s1 = Some (Some n, s2)"
        "pktq_ok [] B (add_mset n (tab_refs t + K)) s2" "ref_only s1 s2" "sessions s1 n = None"
        "sessions s2 = (sessions s1)(n \<mapsto> e1\<lparr>se_refcounter := 1, se_tree6_hook := False, se_tree4_hook := False\<rparr>)"
        "sview s2 = (sview s1)(n \<mapsto> e1\<lparr>se_tree6_hook := False, se_tree4_hook := False, se_refcounter := 0\<rparr>)"
      have pq2: "pktq_ok [] B (tab_refs t + (mset [n] + K)) s2" using 2(2) by simp
      have np: "n \<noteq> p" using 2(4) p1 by auto
      have p2: "sessions s2 p = Some e1" using 2(5) np p1 by simp
      obtain t' s' where "reset_timer env Trans_timer t p s2 = Some (t', s')" "fate_effect proto B K t s p e1 f [n] t' s'"
        by (rule reset2 [OF 2(3) pq2 p2]) (use FATE_PROBE 2(4,6) in auto)
      then show ?thesis
        using ret [of t' "[n]" s'] e cb FATE_PROBE 2(1) by (simp add: decide_fate_def Let_def s1_def)
    qed
  qed
qed

text \<open>
  What the table expects of a callback: on a session that is in the right list it does not fault,
  writes to the state and the update time only, and decides on a fate that puts the session into the
  list its new state belongs in.
\<close>

locale fate_contract =
  fixes cb :: fate_cb and proto :: l4_protocol and pkt :: "packet option"
  assumes decides: "placed x e \<Longrightarrow> se_l4_proto e = proto \<Longrightarrow>
    \<exists>st u f. cb now pkt e = Some (e\<lparr>se_state := st, se_update_time := u\<rparr>, f) \<and>
      (\<forall>y. fate_target f = Some y \<longrightarrow> placed y (e\<lparr>se_state := st\<rparr>)) \<and>
      (f = FATE_PRESERVE \<longrightarrow> placed x (e\<lparr>se_state := st\<rparr>))"
begin

lemma decide_ok:
  assumes env: "sess_env_ok env" and ok: "tab_ok proto B K t s" and p: "p \<in> stable_nodes t"
  obtains e st u f t' s' new where "sessions s p = Some e"
    "cb (jiffies s) pkt e = Some (e\<lparr>se_state := st, se_update_time := u\<rparr>, f)"
    "decide_fate env cb pkt t p rms probes s = Some (t', (if f = FATE_RM then [p] else []) @ rms, new @ probes, s')"
    "fate_effect proto B K t s p (e\<lparr>se_state := st, se_update_time := u\<rparr>) f new t' s'"
proof -
  have sok: "stable_ok proto (sview s) t" using ok by (simp add: tab_ok_def)
  obtain e where e: "sessions s p = Some e" using tab_ok_live [OF ok p] by blast
  obtain x where x: "se_l4_proto e = proto" "se_expirer e = Some x" "placed x e"
    using stable_ok_entry [OF sok p sview_Some [OF e]] by (auto simp: sess_entry_ok_def)
  obtain st u f where d: "cb (jiffies s) pkt e = Some (e\<lparr>se_state := st, se_update_time := u\<rparr>, f)"
    "\<forall>y. fate_target f = Some y \<longrightarrow> placed y (e\<lparr>se_state := st\<rparr>)" "f = FATE_PRESERVE \<longrightarrow> placed x (e\<lparr>se_state := st\<rparr>)"
    using decides [OF x(3,1), of "jiffies s"] by blast
  obtain t' s' new where
    "decide_fate env cb pkt t p rms probes s = Some (t', (if f = FATE_RM then [p] else []) @ rms, new @ probes, s')"
    "fate_effect proto B K t s p (e\<lparr>se_state := st, se_update_time := u\<rparr>) f new t' s'"
    by (rule decide_fate_step [OF env ok p e, where cb = cb and pkt = pkt and rms = rms and probes = probes, OF d(1)])
      (use d(2,3) x(2) in auto)
  then show ?thesis using that e d(1) by blast
qed

end

section \<open>Looking up\<close>

definition sess_matches :: "session_heap \<Rightarrow> tuple \<Rightarrow> ptr \<Rightarrow> bool" where
  "sess_matches v tuple p =
     (case t_l3_proto tuple of
        L3PROTO_IPV6 \<Rightarrow> sess_key6 v p = Some (addr6 (t_dst tuple), addr6 (t_src tuple))
      | L3PROTO_IPV4 \<Rightarrow> sess_key4 v p = Some (addr4 (t_dst tuple), addr4 (t_src tuple)))"

lemma addr_simps [simp]: "addr6 (Addr6 a) = a" "addr4 (Addr4 b) = b"
  by (simp_all add: addr6_def addr4_def)

lemma compare_full_cmp:
  "compare_full6 h tuple = sess_cmp6 h (addr6 (t_dst tuple), addr6 (t_src tuple))"
  "compare_full4 h tuple = sess_cmp4 h (addr4 (t_dst tuple), addr4 (t_src tuple))"
  by (simp_all add: fun_eq_iff sess_cmp6_def sess_cmp4_def compare_full6_def compare_full4_def offset_tuple4_def Let_def cong: if_cong)

lemma session_search:
  assumes "stable_ok proto (sview s) t"
  obtains r where "(case t_l3_proto tuple of
      L3PROTO_IPV6 \<Rightarrow> get_by_ipv6 (sessions s) t tuple
    | L3PROTO_IPV4 \<Rightarrow> get_by_ipv4 (sessions s) t tuple) = Some r"
    "\<And>p. r = Some p \<longleftrightarrow> p \<in> stable_nodes t \<and> sess_matches (sview s) tuple p"
proof -
  have srt: "sess6.keys_sorted (sessions s) (inorder (st_tree6 t))" "sess4.keys_sorted (sessions s) (inorder (st_tree4 t))"
    and n6: "set (inorder (st_tree6 t)) = stable_nodes t"
    using assms by (simp_all add: stable_ok_def sess_sorted_sview)
  show ?thesis
  proof (cases "t_l3_proto tuple")
    case L3PROTO_IPV6
    obtain r where "rbtree_find (sess_cmp6 (sessions s) (addr6 (t_dst tuple), addr6 (t_src tuple))) (st_tree6 t) = Some r"
      "\<forall>p. r = Some p \<longleftrightarrow> p \<in> set (inorder (st_tree6 t)) \<and> sess_key6 (sessions s) p = Some (addr6 (t_dst tuple), addr6 (t_src tuple))"
      using sess6.find_ok [OF srt(1)] by blast
    then show ?thesis
      using that [of r] L3PROTO_IPV6 n6 by (simp add: get_by_ipv6_def compare_full_cmp sess_matches_def)
  next
    case L3PROTO_IPV4
    obtain r where "rbtree_find (sess_cmp4 (sessions s) (addr4 (t_dst tuple), addr4 (t_src tuple))) (st_tree4 t) = Some r"
      "\<forall>p. r = Some p \<longleftrightarrow> p \<in> set (inorder (st_tree4 t)) \<and> sess_key4 (sessions s) p = Some (addr4 (t_dst tuple), addr4 (t_src tuple))"
      using sess4.find_ok [OF srt(2)] by blast
    then show ?thesis
      using that [of r] L3PROTO_IPV4 by (simp add: get_by_ipv4_def compare_full_cmp sess_matches_def stable_nodes_def)
  qed
qed

lemma fate_effect_pending:
  assumes "fate_effect proto B K t s p e1 f new t' s'" "pending y t"
  shows "pending y t'"
proof (cases "fate_target f = Some y")
  case True
  then show ?thesis using assms(1) by (simp add: fate_effect_def)
next
  case False
  then have "et_timer (get_expirer y t') = et_timer (get_expirer y t)"
    "timer_list y t' = timer_list y t \<or> timer_list y t' = remove1 p (timer_list y t)"
    using assms(1) by (simp_all add: fate_effect_def)
  then show ?thesis using assms(2) by (cases "timer_list y t") (auto simp: pending_def)
qed

text \<open>
  Closing up: after the callback's decision was carried out and the local lists were disposed of,
  only the session in question may have changed.
\<close>

definition get_effect :: "l4_protocol \<Rightarrow> ptr multiset \<Rightarrow> ptr multiset \<Rightarrow> session_table \<Rightarrow> 'a pktq_db_scheme \<Rightarrow> ptr \<Rightarrow>
    session_entry \<Rightarrow> session_fate \<Rightarrow> session_table \<Rightarrow> 'a pktq_db_scheme \<Rightarrow> bool" where
  "get_effect proto B K t s p e1 f t' s' \<longleftrightarrow> tab_ok proto B K t' s' \<and>
     stable_nodes t' = stable_nodes t - (if f = FATE_RM then {p} else {}) \<and> (\<forall>y. pending y t \<longrightarrow> pending y t') \<and>
     touches {p} s s' \<and>
     (p \<in># K \<or> f \<noteq> FATE_RM \<longrightarrow> (sview s' p = Some (fated f (jiffies s) e1)))"

lemma fate_effect_close:
  assumes env: "sess_env_ok env" and ok: "tab_ok proto B K t s" and p: "p \<in> stable_nodes t"
    and eff: "fate_effect proto B K t s p e1 f new t' s2"
  obtains s' where "post_fate env (if f = FATE_RM then [p] else []) new s2 = Some s'" "get_effect proto B K t s p e1 f t' s'"
proof -
  define rms where "rms = (if f = FATE_RM then [p] else [])"
  have tab2: "tab_ok proto B (mset rms + mset new + K) t' s2" and nodes: "stable_nodes t' = stable_nodes t - (if f = FATE_RM then {p} else {})"
    and v2: "\<And>q. q \<noteq> p \<Longrightarrow> q \<notin> set new \<Longrightarrow> sview s2 q = sview s q" and fresh: "\<And>q. q \<in> set new \<Longrightarrow> sessions s q = None"
    and e1: "sview s2 p = Some (fated f (jiffies s) e1)" and ref: "ref_only s s2"
    using eff by (simp_all add: fate_effect_def rms_def)
  have pq2: "pktq_ok [] B (mset rms + mset new + (tab_refs t' + K)) s2" using tab2 by (simp add: tab_ok_def ac_simps)
  obtain s3 where s3: "post_fate env rms new s2 = Some s3" "pktq_ok [] B (tab_refs t' + K) s3" "sview s3 \<subseteq>\<^sub>m sview s2" "pktq_frame s2 s3"
    "queue_same s2 s3"
    using post_fate_ok [OF env pq2] by blast
  note le = map_le_cases [OF s3(3)]
  have tab3: "tab_ok proto B K t' s3" by (rule tab_ok_shrink [OF tab2 s3(2)]) (rule le)
  have qs: "queue_same s s3" using ref_only_queue [OF ref] s3(5) by (simp add: queue_same_def)
  have gone: "sview s3 q = None" if q: "q \<in> set new" "q \<noteq> p" for q
  proof -
    have "q \<notin># node_refs [] s + (tab_refs t + K)"
      using pktq_ok_live [of "[]" B "tab_refs t + K" s q] ok fresh [OF q(1)] by (simp add: tab_ok_def)
    moreover have "set_mset (tab_refs t') \<subseteq> set_mset (tab_refs t)" using nodes by (auto simp: tab_refs_def stable_nodes_def)
    ultimately have "q \<notin># node_refs [] s3 + (tab_refs t' + K)" unfolding queue_same_refs [OF qs] by auto
    then show ?thesis using pktq_ok_live [OF s3(2), of q] by (simp add: sview_None_iff)
  qed
  have "touches {p} s s3"
  proof (rule touchesI)
    show "pktq_frame s s3" using pktq_frame_trans [OF ref_only_frame [OF ref] s3(4)] .
    show "pktq_timer_ok s \<Longrightarrow> pktq_timer_ok s3" using queue_same_timer [OF qs] by simp
    show "sview s3 q = sview s q \<or> sview s3 q = None" if "q \<notin> {p}" for q
    proof (cases "q \<in> set new")
      case True
      then show ?thesis using gone that by simp
    next
      case False
      then have "sview s2 q = sview s q" using v2 that by simp
      then show ?thesis using le [of q] by (elim disjE) simp_all
    qed
  qed
  moreover have "sview s3 p = Some (fated f (jiffies s) e1)" if "p \<in># K \<or> f \<noteq> FATE_RM"
  proof -
    have "sview s3 p \<noteq> None"
    proof (cases "p \<in># K")
      case True
      then show ?thesis using pktq_ok_live [OF s3(2), of p] by (simp add: sview_None_iff)
    next
      case False
      then have "f \<noteq> FATE_RM" using that by blast
      then have "p \<in># tab_refs t'" using nodes p by (simp add: tab_refs_def stable_nodes_def)
      then show ?thesis using pktq_ok_live [OF s3(2), of p] by (simp add: sview_None_iff)
    qed
    then have "sview s3 p = sview s2 p" using le [of p] by (elim disjE) simp_all
    then show ?thesis using e1 by simp
  qed
  ultimately have "get_effect proto B K t s p e1 f t' s3"
    using tab3 nodes fate_effect_pending [OF eff] by (simp add: get_effect_def)
  then show ?thesis using that s3(1) by (simp add: rms_def)
qed

context fate_contract
begin

lemma get_ok:
  assumes env: "sess_env_ok env" and ok: "tab_ok proto B K t s"
  obtains (missing) "sessiontable_get env t tuple (Some cb) pkt s = Some (Inl ESRCH, t, s)"
      "\<And>p. p \<in> stable_nodes t \<Longrightarrow> \<not> sess_matches (sview s) tuple p"
    | (found) p e e1 f t' s' where "p \<in> stable_nodes t" "sess_matches (sview s) tuple p" "sessions s p = Some e"
      "cb (jiffies s) pkt (e\<lparr>se_refcounter := se_refcounter e + 1\<rparr>) = Some (e1, f)"
      "sessiontable_get env t tuple (Some cb) pkt s = Some (Inr p, t', s')"
      "get_effect proto B (add_mset p K) t s p e1 f t' s'"
proof -
  have sok: "stable_ok proto (sview s) t" and pq: "pktq_ok [] B (tab_refs t + K) s" using ok by (simp_all add: tab_ok_def)
  obtain r where r: "(case t_l3_proto tuple of
      L3PROTO_IPV6 \<Rightarrow> get_by_ipv6 (sessions s) t tuple
    | L3PROTO_IPV4 \<Rightarrow> get_by_ipv4 (sessions s) t tuple) = Some r"
    "\<And>p. r = Some p \<longleftrightarrow> p \<in> stable_nodes t \<and> sess_matches (sview s) tuple p"
    using session_search [OF sok] by blast
  show ?thesis
  proof (cases r)
    case None
    then have "\<And>p. p \<in> stable_nodes t \<Longrightarrow> \<not> sess_matches (sview s) tuple p" using r(2) by auto
    moreover have "sessiontable_get env t tuple (Some cb) pkt s = Some (Inl ESRCH, t, s)"
      using r(1) None by (simp add: sessiontable_get_def)
    ultimately show ?thesis by (rule missing [rotated])
  next
    case (Some p)
    then have p: "p \<in> stable_nodes t" "sess_matches (sview s) tuple p" using r(2) by auto
    obtain e where e: "sessions s p = Some e" using tab_ok_live [OF ok p(1)] by blast
    obtain s1 where s1: "session_get p s = Some s1" "pktq_ok [] B (add_mset p (tab_refs t + K)) s1" "ref_only s s1"
      "sview s1 = sview s" "bibs s1 = bibs s" by (rule session_get_token [OF pq e])
    have tab1: "tab_ok proto B (add_mset p K) t s1" using ok s1(2,4) by (simp add: tab_ok_def)
    have e1: "sessions s1 p = Some (e\<lparr>se_refcounter := se_refcounter e + 1\<rparr>)" "jiffies s1 = jiffies s"
      using s1(1,3) e by (auto simp: session_get_def ref_only_def)
    obtain e' st u f t' s2 new where d: "sessions s1 p = Some e'"
      "cb (jiffies s1) pkt e' = Some (e'\<lparr>se_state := st, se_update_time := u\<rparr>, f)"
      "decide_fate env cb pkt t p [] [] s1 = Some (t', (if f = FATE_RM then [p] else []) @ [], new @ [], s2)"
      "fate_effect proto B (add_mset p K) t s1 p (e'\<lparr>se_state := st, se_update_time := u\<rparr>) f new t' s2"
      by (rule decide_ok [OF env tab1 p(1), of "[]" "[]"])
    obtain s3 where s3: "post_fate env (if f = FATE_RM then [p] else []) new s2 = Some s3"
      "get_effect proto B (add_mset p K) t s1 p (e'\<lparr>se_state := st, se_update_time := u\<rparr>) f t' s3"
      by (rule fate_effect_close [OF env tab1 p(1) d(4)])
    have ee: "e' = e\<lparr>se_refcounter := se_refcounter e + 1\<rparr>" using d(1) e1(1) by simp
    have "touches {p} s s3"
      using touches_trans [OF touches_ref [OF s1(3)], of "{p}" s3] s1(4) s3(2) by (simp add: get_effect_def)
    then have "get_effect proto B (add_mset p K) t s p (e'\<lparr>se_state := st, se_update_time := u\<rparr>) f t' s3"
      using s3(2) e1(2) by (simp add: get_effect_def)
    moreover have "sessiontable_get env t tuple (Some cb) pkt s = Some (Inr p, t', s3)"
      using r(1) Some s1(1) d(3) s3(1) by (simp add: sessiontable_get_def)
    ultimately show ?thesis using found [OF p e] d(2) e1(2) ee by simp
  qed
qed

end

section \<open>Adding\<close>

lemma stable_ok_insert:
  assumes ok: "stable_ok proto v t" and p: "p \<notin> stable_nodes t"
    and v': "\<And>q. q \<in> stable_nodes t \<Longrightarrow> v' q = v q" "v' p = Some e"
    and t6: "inorder (st_tree6 t) = xs6 @ ys6" "inorder (st_tree6 t') = xs6 @ p # ys6" "sess6.keys_sorted v' (inorder (st_tree6 t'))"
    and t4: "inorder (st_tree4 t) = xs4 @ ys4" "inorder (st_tree4 t') = xs4 @ p # ys4" "sess4.keys_sorted v' (inorder (st_tree4 t'))"
    and t': "st_count t' = st_count t + 1" "\<And>y. timer_list y t' = (if y = x then timer_list y t @ [p] else timer_list y t)"
    and e: "se_l4_proto e = proto" "se_tree6_hook e" "se_tree4_hook e" "se_bib e \<noteq> None" "se_expirer e = Some x" "placed x e"
  shows "stable_ok proto v' t'" "stable_nodes t' = insert p (stable_nodes t)"
proof -
  show n: "stable_nodes t' = insert p (stable_nodes t)"
    unfolding stable_nodes_def t4(1,2) by auto
  have n6: "set (inorder (st_tree6 t)) = stable_nodes t"
    and cov: "set (timer_list Est_timer t) \<union> set (timer_list Trans_timer t) = stable_nodes t"
    and dl: "distinct (timer_list Est_timer t @ timer_list Trans_timer t)"
    using ok by (simp_all add: stable_ok_def)
  show "stable_ok proto v' t'"
    unfolding stable_ok_def
  proof (intro conjI)
    show "set (inorder (st_tree6 t')) = stable_nodes t'" using n6 unfolding n t6(1,2) by auto
    show "st_count t' = of_nat (length (inorder (st_tree4 t')))"
      using ok unfolding stable_ok_def t'(1) t4(1,2) by (simp del: length_inorder)
    show "distinct (timer_list Est_timer t' @ timer_list Trans_timer t')" using dl cov p unfolding t'(2) by (cases x) auto
    show "set (timer_list Est_timer t') \<union> set (timer_list Trans_timer t') = stable_nodes t'"
      using cov unfolding t'(2) n by (cases x) auto
    show "\<forall>q \<in> stable_nodes t'. \<exists>e. v' q = Some e \<and> sess_entry_ok proto t' q e"
    proof
      fix q assume q: "q \<in> stable_nodes t'"
      show "\<exists>e. v' q = Some e \<and> sess_entry_ok proto t' q e"
      proof (cases "q = p")
        case True
        have "p \<in> set (timer_list x t')" by (simp add: t'(2))
        then show ?thesis using True v'(2) e by (auto simp: sess_entry_ok_def)
      next
        case False
        then have qn: "q \<in> stable_nodes t" using q n by simp
        obtain e2 where e2: "v q = Some e2" using stable_okD [OF ok qn] by blast
        have "sess_entry_ok proto t q e2" using stable_ok_entry [OF ok qn e2] .
        moreover have "q \<in> set (timer_list y t') \<longleftrightarrow> q \<in> set (timer_list y t)" for y using False by (simp add: t'(2))
        ultimately show ?thesis using e2 v'(1) [OF qn] by (simp add: sess_entry_ok_def)
      qed
    qed
  qed (use t6(3) t4(3) in simp_all)
qed

lemma compare_session_cmp:
  "compare_session6 h e = sess_cmp6 h (se_local6 e, se_remote6 e)"
  "compare_session4 h e = sess_cmp4 h (se_local4 e, se_remote4 e)"
  by (simp_all add: fun_eq_iff sess_cmp6_def sess_cmp4_def compare_full6_def compare_full4_def offset_tuple4_def
      compare_session6_def compare_session4_def Let_def cong: if_cong)

lemma stable_ok_trees:
  assumes "stable_ok proto v t" "inorder (st_tree6 t') = inorder (st_tree6 t)" "inorder (st_tree4 t') = inorder (st_tree4 t)"
    "st_count t' = st_count t" "\<And>y. timer_list y t' = timer_list y t"
  shows "stable_ok proto v t'"
proof -
  have "stable_nodes t' = stable_nodes t" using assms(3) by (simp only: stable_nodes_def)
  then show ?thesis using assms unfolding stable_ok_def sess_entry_ok_def by simp
qed

text \<open>Attaching a session that is in both trees to its timer, and the table's own reference.\<close>

lemma attach_timer_ok:
  assumes pq: "pktq_ok [] B (tab_refs t + K) s" and e: "sessions s p = Some e"
    and live: "\<And>q. q \<in> set (timer_list x t) \<Longrightarrow> sessions s q \<noteq> None" and gt: "et_get_timeout (get_expirer x t) \<noteq> None"
  obtains t' s' where "attach_timer env t p x s = Some (t', s')" "pktq_ok [] B (tab_refs t + K) s'"
    "st_tree4 t' = st_tree4 t" "st_tree6 t' = st_tree6 t" "st_count t' = st_count t"
    "\<And>y. timer_list y t' = (if y = x then timer_list y t @ [p] else timer_list y t)" "pending x t'"
    "\<And>y. y \<noteq> x \<Longrightarrow> et_timer (get_expirer y t') = et_timer (get_expirer y t)"
    "\<And>y. et_get_timeout (get_expirer y t') = et_get_timeout (get_expirer y t)"
    "\<And>y. et_decide_fate_cb (get_expirer y t') = et_decide_fate_cb (get_expirer y t)"
    "sview s' = (sview s)(p \<mapsto> e\<lparr>se_update_time := jiffies s, se_expirer := Some x, se_refcounter := 0\<rparr>)" "ref_only s s'"
proof -
  define e2 where "e2 = e\<lparr>se_update_time := jiffies s, se_expirer := Some x\<rparr>"
  define s' where "s' = s\<lparr>sessions := (sessions s)(p \<mapsto> e2)\<rparr>"
  define t1 where "t1 = list_add_tail p x t"
  have w: "pktq_ok [] B (tab_refs t + K) s'" "sview s' = (sview s)(p \<mapsto> e2\<lparr>se_refcounter := 0\<rparr>)"
    unfolding s'_def by (rule session_write [OF pq e]; simp add: e2_def)+
  have mem: "\<exists>e. sessions s' q = Some e" if "q \<in> set (et_sessions (get_expirer x t1))" for q
    using live [of q] that by (cases "q = p") (auto simp: s'_def t1_def timer_list_def list_add_tail_def)
  have gt1: "et_get_timeout (get_expirer x t1) \<noteq> None" using gt by (simp add: t1_def)
  obtain ex where ex: "reschedule env s' (get_expirer x t1) = Some ex" "et_sessions ex = timer_list x t1"
    "et_get_timeout ex = et_get_timeout (get_expirer x t1)" "et_decide_fate_cb ex = et_decide_fate_cb (get_expirer x t1)"
    "timer_list x t1 \<noteq> [] \<Longrightarrow> et_timer ex \<noteq> None" "et_timer (get_expirer x t1) \<noteq> None \<Longrightarrow> ex = get_expirer x t1"
    using reschedule_ok [OF mem gt1, of env] unfolding timer_list_def by blast
  define t' where "t' = put_expirer x ex t1"
  have r: "attach_timer env t p x s = Some (t', s')"
    using e ex(1) by (simp add: attach_timer_def Let_def t1_def s'_def e2_def t'_def)
  have tl: "timer_list y t' = (if y = x then timer_list y t @ [p] else timer_list y t)" for y
    using ex(2) by (simp add: t'_def t1_def)
  have v': "sview s' = (sview s)(p \<mapsto> e\<lparr>se_update_time := jiffies s, se_expirer := Some x, se_refcounter := 0\<rparr>)"
    using w(2) by (simp only: e2_def)
  show ?thesis
    by (rule that [OF r w(1) _ _ _ tl _ _ _ _ v'])
      (use ex(2-5) in \<open>simp_all add: t'_def t1_def s'_def pending_def\<close>)
qed

lemma sess_add6_cases:
  assumes laws: "rb_laws ops" and srt: "sess6.keys_sorted (sessions s) (inorder (st_tree6 t))" and e: "sessions s p = Some e"
  obtains (exists) q where "q \<in> set (inorder (st_tree6 t))" "sess_key6 (sessions s) q = Some (se_local6 e, se_remote6 e)"
      "sess_add6 ops t p s = Some (Err EEXIST, t, s)"
    | (added) t6 xs ys where "\<forall>q \<in> set (inorder (st_tree6 t)). sess_key6 (sessions s) q \<noteq> Some (se_local6 e, se_remote6 e)"
      "sess_add6 ops t p s = Some (Ok, t\<lparr>st_tree6 := t6\<rparr>, s\<lparr>sessions := (sessions s)(p \<mapsto> e\<lparr>se_tree6_hook := True\<rparr>)\<rparr>)"
      "inorder (st_tree6 t) = xs @ ys" "inorder t6 = xs @ p # ys" "sess6.keys_sorted (sessions s) (inorder t6)"
proof -
  have k: "sess_key6 (sessions s) p = Some (se_local6 e, se_remote6 e)" using e by (simp add: sess_key6_def)
  show ?thesis
  proof (cases rule: sess6.add_Ok_iff [OF laws srt k])
    case (1 q)
    then show ?thesis using exists [OF 1(1,2)] e by (simp add: sess_add6_def compare_session_cmp)
  next
    case (2 t' xs ys)
    then show ?thesis using added [OF 2(1) _ 2(3-5)] e by (simp add: sess_add6_def compare_session_cmp)
  qed
qed

lemma sess_add4_cases:
  assumes laws: "rb_laws ops" and srt: "sess4.keys_sorted (sessions s) (inorder (st_tree4 t))" and e: "sessions s p = Some e"
  obtains (exists) q where "q \<in> set (inorder (st_tree4 t))" "sess_key4 (sessions s) q = Some (se_local4 e, se_remote4 e)"
      "sess_add4 ops t p s = Some (Err EEXIST, t, s)"
    | (added) t4 xs ys where "\<forall>q \<in> set (inorder (st_tree4 t)). sess_key4 (sessions s) q \<noteq> Some (se_local4 e, se_remote4 e)"
      "sess_add4 ops t p s = Some (Ok, t\<lparr>st_tree4 := t4\<rparr>, s\<lparr>sessions := (sessions s)(p \<mapsto> e\<lparr>se_tree4_hook := True\<rparr>)\<rparr>)"
      "inorder (st_tree4 t) = xs @ ys" "inorder t4 = xs @ p # ys" "sess4.keys_sorted (sessions s) (inorder t4)"
proof -
  have k: "sess_key4 (sessions s) p = Some (se_local4 e, se_remote4 e)" using e by (simp add: sess_key4_def)
  show ?thesis
  proof (cases rule: sess4.add_Ok_iff [OF laws srt k])
    case (1 q)
    then show ?thesis using exists [OF 1(1,2)] e by (simp add: sess_add4_def compare_session_cmp)
  next
    case (2 t' xs ys)
    then show ?thesis using added [OF 2(1) _ 2(3-5)] e by (simp add: sess_add4_def compare_session_cmp)
  qed
qed

text \<open>The session is in the table, or the table already has its IPv6 or its IPv4 identifiers.\<close>

definition add_effect :: "l4_protocol \<Rightarrow> ptr multiset \<Rightarrow> ptr multiset \<Rightarrow> session_table \<Rightarrow> 'a pktq_db_scheme \<Rightarrow> ptr \<Rightarrow>
    session_entry \<Rightarrow> expirer \<Rightarrow> session_table \<Rightarrow> 'a pktq_db_scheme \<Rightarrow> bool" where
  "add_effect proto B K t s p e x t' s' \<longleftrightarrow> tab_ok proto B K t' s' \<and> stable_nodes t' = insert p (stable_nodes t) \<and>
     (\<forall>y. pending y t \<longrightarrow> pending y t') \<and> touches {p} s s' \<and>
     sview s' p = Some (e\<lparr>se_tree6_hook := True, se_tree4_hook := True, se_update_time := jiffies s, se_expirer := Some x,
       se_refcounter := 0\<rparr>)"

definition dup_effect :: "l4_protocol \<Rightarrow> ptr multiset \<Rightarrow> ptr multiset \<Rightarrow> session_table \<Rightarrow> 'a pktq_db_scheme \<Rightarrow> ptr \<Rightarrow>
    session_table \<Rightarrow> 'a pktq_db_scheme \<Rightarrow> bool" where
  "dup_effect proto B K t s p t' s' \<longleftrightarrow> tab_ok proto B K t' s' \<and> stable_nodes t' = stable_nodes t \<and>
     (\<forall>y. pending y t \<longrightarrow> pending y t') \<and> touches {p} s s' \<and>
     (\<exists>q \<in> stable_nodes t. sess_key6 (sview s) q = sess_key6 (sview s) p \<or> sess_key4 (sview s) q = sess_key4 (sview s) p)"

lemma sess_trees_added:
  assumes env: "sess_env_ok env" and ok: "tab_ok proto B K t s" and p: "p \<in># K" "p \<notin> stable_nodes t" and e: "sessions s p = Some e"
    and e': "se_l4_proto e = proto" "se_bib e \<noteq> None" "placed x e"
    and a6: "inorder (st_tree6 t) = xs6 @ ys6" "inorder t6 = xs6 @ p # ys6" "sess6.keys_sorted (sview s) (inorder t6)"
    and a4: "inorder (st_tree4 t) = xs4 @ ys4" "inorder t4 = xs4 @ p # ys4" "sess4.keys_sorted (sview s) (inorder t4)"
    and s2: "s2 = s\<lparr>sessions := (sessions s)(p \<mapsto> e\<lparr>se_tree6_hook := True, se_tree4_hook := True\<rparr>)\<rparr>"
  obtains t3 s3 s4 where "attach_timer env (t\<lparr>st_tree6 := t6, st_tree4 := t4\<rparr>) p x s2 = Some (t3, s3)" "session_get p s3 = Some s4"
    "add_effect proto B K t s p e x (t3\<lparr>st_count := st_count t3 + 1\<rparr>) s4"
proof -
  have sok: "stable_ok proto (sview s) t" "cbs_ok proto t" and pq: "pktq_ok [] B (tab_refs t + K) s"
    using ok by (simp_all add: tab_ok_def)
  define e1 where "e1 = e\<lparr>se_tree6_hook := True, se_tree4_hook := True\<rparr>"
  have w: "pktq_ok [] B (tab_refs t + K) s2" "sview s2 = (sview s)(p \<mapsto> e1\<lparr>se_refcounter := 0\<rparr>)"
    unfolding s2 e1_def by (rule session_write [OF pq e]; simp)+
  have p2: "sessions s2 p = Some e1" and j2: "jiffies s2 = jiffies s" by (simp_all add: s2 e1_def)
  define t2 where "t2 = t\<lparr>st_tree6 := t6, st_tree4 := t4\<rparr>"
  have refs: "tab_refs t2 = add_mset p (tab_refs t)" using a4(1,2) by (simp add: tab_refs_def t2_def)
  obtain K' where K: "K = add_mset p K'" using p(1) by (meson mset_add)
  have pq2: "pktq_ok [] B (tab_refs t2 + K') s2" using w(1) refs K by simp
  have tl2: "timer_list y t2 = timer_list y t" for y by (simp add: t2_def)
  have live: "sessions s2 q \<noteq> None" if "q \<in> set (timer_list x t2)" for q
  proof -
    have "q \<in> stable_nodes t" using stable_ok_list(1) [OF sok(1)] that tl2 by simp
    then have "q \<in># tab_refs t" by (simp add: tab_refs_def stable_nodes_def)
    then show ?thesis using pktq_ok_live [OF w(1), of q] by simp
  qed
  have x: "x = Est_timer \<or> proto = L4PROTO_TCP"
    using e'(1,3) by (cases x) (auto simp: placed_def split: if_splits)
  then have gt: "et_get_timeout (get_expirer x t2) \<noteq> None" using sok(2) by (auto simp: cbs_ok_def t2_def)
  show ?thesis
  proof (rule attach_timer_ok [OF pq2 p2 live gt, of env])
    fix t3 s3 assume r: "attach_timer env t2 p x s2 = Some (t3, s3)" "pktq_ok [] B (tab_refs t2 + K') s3"
      "st_tree4 t3 = st_tree4 t2" "st_tree6 t3 = st_tree6 t2" "st_count t3 = st_count t2"
      "\<And>y. timer_list y t3 = (if y = x then timer_list y t2 @ [p] else timer_list y t2)" "pending x t3"
      "\<And>y. y \<noteq> x \<Longrightarrow> et_timer (get_expirer y t3) = et_timer (get_expirer y t2)"
      "\<And>y. et_get_timeout (get_expirer y t3) = et_get_timeout (get_expirer y t2)"
      "\<And>y. et_decide_fate_cb (get_expirer y t3) = et_decide_fate_cb (get_expirer y t2)"
      "sview s3 = (sview s2)(p \<mapsto> e1\<lparr>se_update_time := jiffies s2, se_expirer := Some x, se_refcounter := 0\<rparr>)" "ref_only s2 s3"
    obtain e3 where e3: "sessions s3 p = Some e3"
      using pktq_ok_live [OF r(2), of p] refs by auto
    obtain s4 where s4: "session_get p s3 = Some s4" "pktq_ok [] B (add_mset p (tab_refs t2 + K')) s4" "ref_only s3 s4"
      "sview s4 = sview s3" "bibs s4 = bibs s3" by (rule session_get_token [OF r(2) e3])
    define t4' where "t4' = t3\<lparr>st_count := st_count t3 + 1\<rparr>"
    define v where "v = sview s4"
    have vp: "v p = Some (e\<lparr>se_tree6_hook := True, se_tree4_hook := True, se_update_time := jiffies s, se_expirer := Some x,
       se_refcounter := 0\<rparr>)" and vq: "q \<noteq> p \<Longrightarrow> v q = sview s q" for q
      unfolding v_def s4(4) r(11) w(2) by (simp_all add: e1_def j2)
    have keys: "sess_key6 v q = sess_key6 (sview s) q" "sess_key4 v q = sess_key4 (sview s) q" for q
    proof (atomize (full), cases "q = p")
      case True
      then show "sess_key6 v q = sess_key6 (sview s) q \<and> sess_key4 v q = sess_key4 (sview s) q"
        using vp sview_Some [OF e] by (simp add: sess_key6_def sess_key4_def)
    next
      case False
      then show "sess_key6 v q = sess_key6 (sview s) q \<and> sess_key4 v q = sess_key4 (sview s) q"
        unfolding sess_key6_def sess_key4_def vq [OF False] by simp
    qed
    have st: "stable_ok proto v t4'" "stable_nodes t4' = insert p (stable_nodes t)"
    proof -
      have k6: "sess6.keys_sorted v (inorder (st_tree6 t4'))"
        using a6(3) r(4) keys(1) sess6.keys_sorted_cong [of "inorder t6" v "sview s"] by (simp add: t4'_def t2_def)
      have k4: "sess4.keys_sorted v (inorder (st_tree4 t4'))"
        using a4(3) r(3) keys(2) sess4.keys_sorted_cong [of "inorder t4" v "sview s"] by (simp add: t4'_def t2_def)
      have i: "inorder (st_tree6 t4') = xs6 @ p # ys6" "inorder (st_tree4 t4') = xs4 @ p # ys4" "st_count t4' = st_count t + 1"
        using a6(2) a4(2) r(3-5) by (simp_all add: t4'_def t2_def)
      have l: "timer_list y t4' = (if y = x then timer_list y t @ [p] else timer_list y t)" for y
        using r(6) [of y] by (simp add: t4'_def tl2)
      have vn: "v q = sview s q" if "q \<in> stable_nodes t" for q by (rule vq) (use that p(2) in auto)
      note ins = stable_ok_insert [OF sok(1) p(2) vn vp a6(1) i(1) k6 a4(1) i(2) k4 i(3) l]
      show "stable_ok proto v t4'" by (rule ins(1)) (use e' in \<open>simp_all add: placed_def\<close>)
      show "stable_nodes t4' = insert p (stable_nodes t)" by (rule ins(2)) (use e' in \<open>simp_all add: placed_def\<close>)
    qed
    have "pktq_ok [] B (tab_refs t4' + K) s4" using s4(2) r(3) K by (simp add: tab_refs_def t4'_def)
    moreover have "cbs_ok proto t4'" using cbs_ok_cong [of t4' t proto] r(9,10) sok(2) by (simp add: t4'_def t2_def)
    ultimately have "tab_ok proto B K t4' s4" using st(1) by (simp add: tab_ok_def v_def)
    moreover have "pending y t4'" if "pending y t" for y
      using that r(6) [of y] r(7) r(8) [of y] tl2 [of y] by (cases "y = x") (simp_all add: pending_def t4'_def t2_def)
    moreover have "touches {p} s s4"
    proof (rule touchesI)
      have ro: "ref_only s s4" using ref_only_trans [OF ref_only_trans [OF _ r(12)] s4(3), of s] by (simp add: s2)
      show "pktq_frame s s4" "pktq_timer_ok s \<Longrightarrow> pktq_timer_ok s4"
        using ref_only_frame [OF ro] queue_same_timer [OF ref_only_queue [OF ro]] by simp_all
    qed (use vq in \<open>simp add: v_def\<close>)
    ultimately have "add_effect proto B K t s p e x t4' s4" using st(2) vp by (simp add: add_effect_def v_def)
    then show ?thesis using that [of t3 s3 s4] r(1) s4(1) by (simp add: t4'_def t2_def)
  qed
qed

text \<open>The IPv4 identifiers are taken: the session leaves the IPv6 tree again.\<close>

lemma sess_tree6_undone:
  assumes laws: "rb_laws ops" and ok: "tab_ok proto B K t s" and p: "p \<notin> stable_nodes t" and e: "sessions s p = Some e"
    and a6: "inorder (st_tree6 t) = xs @ ys" "inorder t6 = xs @ p # ys"
    and s1: "s1 = s\<lparr>sessions := (sessions s)(p \<mapsto> e\<lparr>se_tree6_hook := True\<rparr>)\<rparr>"
  obtains t6' where "rbtree_erase ops p t6 = Some t6'" "tab_ok proto B K (t\<lparr>st_tree6 := t6'\<rparr>) s1" "touches {p} s s1"
proof -
  have sok: "stable_ok proto (sview s) t" "cbs_ok proto t" and pq: "pktq_ok [] B (tab_refs t + K) s"
    using ok by (simp_all add: tab_ok_def)
  have w: "pktq_ok [] B (tab_refs t + K) s1" "sview s1 = (sview s)(p \<mapsto> e\<lparr>se_tree6_hook := True\<rparr>\<lparr>se_refcounter := 0\<rparr>)"
    unfolding s1 by (rule session_write [OF pq e]; simp)+
  define t' where "t' = t\<lparr>st_tree6 := rb_erase ops p t6\<rparr>"
  have pt: "p \<in> set (inorder t6)" by (simp add: a6(2) del: set_inorder)
  have "set (inorder (st_tree6 t)) = stable_nodes t" using sok(1) by (simp add: stable_ok_def)
  then have "p \<notin> set xs" using p a6(1) by (auto simp del: set_inorder)
  then have i: "inorder (st_tree6 t') = inorder (st_tree6 t)" using laws a6 by (simp add: t'_def remove1_append)
  have st: "stable_ok proto (sview s) t'" by (rule stable_ok_trees [OF sok(1) i]) (simp_all add: t'_def)
  have n: "stable_nodes t' = stable_nodes t" by (simp add: stable_nodes_def t'_def)
  have "stable_ok proto (sview s1) t'" by (rule stable_ok_cong [OF st]) (use p n in \<open>auto simp: w(2)\<close>)
  moreover have "cbs_ok proto t'" using cbs_ok_cong [of t' t proto] sok(2) by (simp add: t'_def)
  ultimately have "tab_ok proto B K t' s1" using w(1) by (simp add: tab_ok_def tab_refs_def t'_def)
  moreover have "touches {p} s s1"
  proof (rule touchesI)
    have ro: "ref_only s s1" by (simp add: s1)
    show "pktq_frame s s1" "pktq_timer_ok s \<Longrightarrow> pktq_timer_ok s1"
      using ref_only_frame [OF ro] queue_same_timer [OF ref_only_queue [OF ro]] by simp_all
  qed (simp add: w(2))
  ultimately show ?thesis using that pt by (simp add: t'_def rbtree_erase_def del: set_inorder)
qed

lemma sess_add_trees:
  assumes env: "sess_env_ok env" and ok: "tab_ok proto B K t s" and p: "p \<in># K" "p \<notin> stable_nodes t" and e: "sessions s p = Some e"
    and e': "se_l4_proto e = proto" "se_bib e \<noteq> None" "placed x e" and x: "x = (if est then Est_timer else Trans_timer)"
    and rm: "pktqueue_remove env p s0 = Some s"
  obtains (added) t' s' where "sessiontable_add env t p est s0 = Some (Ok, t', s')" "add_effect proto B K t s p e x t' s'"
    | (dup) t' s' where "sessiontable_add env t p est s0 = Some (Err EEXIST, t', s')" "dup_effect proto B K t s p t' s'"
proof -
  have laws: "rb_laws (ev_rb env)" using env by (simp add: sess_env_ok_def)
  have sok: "stable_ok proto (sview s) t" using ok by (simp add: tab_ok_def)
  have srt: "sess6.keys_sorted (sessions s) (inorder (st_tree6 t))" "sess4.keys_sorted (sessions s) (inorder (st_tree4 t))"
    and n6: "set (inorder (st_tree6 t)) = stable_nodes t"
    using sok by (simp_all add: stable_ok_def sess_sorted_sview)
  have k: "sess_key6 (sview s) p = Some (se_local6 e, se_remote6 e)" "sess_key4 (sview s) p = Some (se_local4 e, se_remote4 e)"
    using sview_Some [OF e] by (simp_all add: sess_key6_def sess_key4_def)
  show ?thesis
  proof (rule sess_add6_cases [OF laws srt(1) e])
    fix q assume q: "q \<in> set (inorder (st_tree6 t))" "sess_key6 (sessions s) q = Some (se_local6 e, se_remote6 e)"
      "sess_add6 (ev_rb env) t p s = Some (Err EEXIST, t, s)"
    have "dup_effect proto B K t s p t s" using ok q(1,2) k n6 by (auto simp: dup_effect_def simp del: set_inorder)
    then show ?thesis using dup [of t s] q(3) rm by (simp add: sessiontable_add_def Let_def)
  next
    fix t6 xs6 ys6
    assume a6: "sess_add6 (ev_rb env) t p s = Some (Ok, t\<lparr>st_tree6 := t6\<rparr>, s\<lparr>sessions := (sessions s)(p \<mapsto> e\<lparr>se_tree6_hook := True\<rparr>)\<rparr>)"
      "inorder (st_tree6 t) = xs6 @ ys6" "inorder t6 = xs6 @ p # ys6" "sess6.keys_sorted (sessions s) (inorder t6)"
    define s1 where "s1 = s\<lparr>sessions := (sessions s)(p \<mapsto> e\<lparr>se_tree6_hook := True\<rparr>)\<rparr>"
    have e1: "sessions s1 p = Some (e\<lparr>se_tree6_hook := True\<rparr>)" by (simp add: s1_def)
    have ks: "sess_key4 (sessions s1) q = sess_key4 (sessions s) q" for q
      using e by (cases "q = p") (simp_all add: sess_key4_def s1_def)
    have ss: "sess4.keys_sorted (sessions s1) es = sess4.keys_sorted (sessions s) es" for es
      by (rule sess4.keys_sorted_cong) (simp add: ks)
    have srt1: "sess4.keys_sorted (sessions s1) (inorder (st_tree4 (t\<lparr>st_tree6 := t6\<rparr>)))" using srt(2) by (simp add: ss)
    show ?thesis
    proof (rule sess_add4_cases [OF laws srt1 e1])
      fix q assume q: "q \<in> set (inorder (st_tree4 (t\<lparr>st_tree6 := t6\<rparr>)))"
        "sess_key4 (sessions s1) q = Some (se_local4 (e\<lparr>se_tree6_hook := True\<rparr>), se_remote4 (e\<lparr>se_tree6_hook := True\<rparr>))"
        "sess_add4 (ev_rb env) (t\<lparr>st_tree6 := t6\<rparr>) p s1 = Some (Err EEXIST, t\<lparr>st_tree6 := t6\<rparr>, s1)"
      have qn: "q \<in> stable_nodes t" "sess_key4 (sview s) q = sess_key4 (sview s) p" using q(1,2) k(2) ks by (simp_all add: stable_nodes_def)
      obtain t6' where r: "rbtree_erase (ev_rb env) p t6 = Some t6'" "tab_ok proto B K (t\<lparr>st_tree6 := t6'\<rparr>) s1" "touches {p} s s1"
        by (rule sess_tree6_undone [OF laws ok p(2) e a6(2,3) s1_def])
      have "dup_effect proto B K t s p (t\<lparr>st_tree6 := t6'\<rparr>) s1"
        unfolding dup_effect_def using r(2,3) qn by (auto simp: stable_nodes_def pending_def)
      then show ?thesis using dup [of "t\<lparr>st_tree6 := t6'\<rparr>" s1] q(3) r(1) rm a6(1) by (simp add: sessiontable_add_def Let_def s1_def)
    next
      fix t4 xs4 ys4
      assume a4: "sess_add4 (ev_rb env) (t\<lparr>st_tree6 := t6\<rparr>) p s1 = Some (Ok, t\<lparr>st_tree6 := t6, st_tree4 := t4\<rparr>,
          s1\<lparr>sessions := (sessions s1)(p \<mapsto> e\<lparr>se_tree6_hook := True, se_tree4_hook := True\<rparr>)\<rparr>)"
        "inorder (st_tree4 (t\<lparr>st_tree6 := t6\<rparr>)) = xs4 @ ys4" "inorder t4 = xs4 @ p # ys4" "sess4.keys_sorted (sessions s1) (inorder t4)"
      define s2 where "s2 = s\<lparr>sessions := (sessions s)(p \<mapsto> e\<lparr>se_tree6_hook := True, se_tree4_hook := True\<rparr>)\<rparr>"
      have s12: "s1\<lparr>sessions := (sessions s1)(p \<mapsto> e\<lparr>se_tree6_hook := True, se_tree4_hook := True\<rparr>)\<rparr> = s2"
        by (simp add: s1_def s2_def)
      have i4: "inorder (st_tree4 t) = xs4 @ ys4" using a4(2) by simp
      have k6: "sess6.keys_sorted (sview s) (inorder t6)" "sess4.keys_sorted (sview s) (inorder t4)"
        using a6(4) a4(4) by (simp_all add: sess_sorted_sview ss)
      show ?thesis
      proof (rule sess_trees_added [OF env ok p e e' a6(2,3) k6(1) i4 a4(3) k6(2) s2_def])
        fix t3 s3 s4 assume r: "attach_timer env (t\<lparr>st_tree6 := t6, st_tree4 := t4\<rparr>) p x s2 = Some (t3, s3)"
          "session_get p s3 = Some s4" "add_effect proto B K t s p e x (t3\<lparr>st_count := st_count t3 + 1\<rparr>) s4"
        have "sessiontable_add env t p est s0 = Some (Ok, t3\<lparr>st_count := st_count t3 + 1\<rparr>, s4)"
          using rm a6(1) a4(1) r(1,2) unfolding s12 sessiontable_add_def Let_def s1_def [symmetric] x by simp
        then show ?thesis using added r(3) by blast
      qed
    qed
  qed
qed

text \<open>A state in which the table's sessions and \<open>p\<close> are as before will do.\<close>

lemma tab_ok_sview:
  assumes "tab_ok proto B K t s" "pktq_ok [] B (tab_refs t + K) s0" "sview s0 \<subseteq>\<^sub>m sview s"
  shows "tab_ok proto B K t s0"
proof -
  have "sview s0 q = sview s q" if "q \<in> stable_nodes t" for q
  proof -
    have "q \<in># tab_refs t + K" using that by (simp add: tab_refs_def stable_nodes_def)
    then have "sessions s0 q \<noteq> None" using pktq_ok_live [OF assms(2), of q] by auto
    then show ?thesis using map_le_cases [OF assms(3), of q] by (auto simp: sview_None_iff)
  qed
  then show ?thesis using assms(1,2) stable_ok_cong [of proto "sview s" t "sview s0"] by (simp add: tab_ok_def)
qed

lemma sessiontable_add_ok:
  assumes env: "sess_env_ok env" and ok: "tab_ok proto B K t s" and p: "p \<in># K" "p \<notin> stable_nodes t" and e: "sessions s p = Some e"
    and e': "se_l4_proto e = proto" "se_bib e \<noteq> None" "placed x e" and x: "x = (if est then Est_timer else Trans_timer)"
  obtains (added) t' s' where "sessiontable_add env t p est s = Some (Ok, t', s')" "add_effect proto B K t s p e x t' s'"
    | (dup) t' s' where "sessiontable_add env t p est s = Some (Err EEXIST, t', s')" "dup_effect proto B K t s p t' s'"
proof -
  have pq: "pktq_ok [] B (tab_refs t + K) s" using ok by (simp add: tab_ok_def)
  obtain s0 where s0: "pktqueue_remove env p s = Some s0" "pktq_ok [] B (tab_refs t + K) s0" "sview s0 \<subseteq>\<^sub>m sview s" "pktq_frame s s0"
    "pktq_timer_ok s \<Longrightarrow> pktq_timer_ok s0" by (rule pktqueue_remove_ok [OF env pq e]) blast
  have ok0: "tab_ok proto B K t s0" by (rule tab_ok_sview [OF ok s0(2,3)])
  have tch: "touches {p} s s0" by (rule touchesI [OF s0(4,5)]) (use map_le_cases [OF s0(3)] in simp_all)
  have same: "sview s0 q = sview s q" if q: "q = p \<or> q \<in> stable_nodes t" for q
  proof -
    have "q \<in># tab_refs t + K" using q p(1) by (auto simp: tab_refs_def stable_nodes_def)
    then have "sessions s0 q \<noteq> None" using pktq_ok_live [OF s0(2), of q] by auto
    then show ?thesis using map_le_cases [OF s0(3), of q] by (auto simp: sview_None_iff)
  qed
  obtain e0 where e0: "sessions s0 p = Some e0" "e0\<lparr>se_refcounter := 0\<rparr> = e\<lparr>se_refcounter := 0\<rparr>"
    using same [of p] sview_Some [OF e] sview_SomeD [of s0 p] by auto
  have "e0 = e\<lparr>se_refcounter := se_refcounter e0\<rparr>" using e0(2) by (cases e; cases e0) simp
  then obtain n where n: "e0 = e\<lparr>se_refcounter := n\<rparr>" by blast
  have e0': "se_l4_proto e0 = proto" "se_bib e0 \<noteq> None" "placed x e0" using e' by (simp_all add: n)
  have j: "jiffies s0 = jiffies s" using s0(4) by (simp add: pktq_frame_def)
  have keys: "sess_key6 (sview s0) q = sess_key6 (sview s) q" "sess_key4 (sview s0) q = sess_key4 (sview s) q"
    if "q = p \<or> q \<in> stable_nodes t" for q
    using same [OF that] unfolding sess_key6_def sess_key4_def by simp_all
  show ?thesis
  proof (rule sess_add_trees [OF env ok0 p e0(1) e0' x s0(1)])
    fix t' s' assume r: "sessiontable_add env t p est s = Some (Ok, t', s')" "add_effect proto B K t s0 p e0 x t' s'"
    have "add_effect proto B K t s p e x t' s'"
      using r(2) touches_trans [OF tch, of s'] unfolding add_effect_def j n by simp
    then show thesis by (rule added [OF r(1)])
  next
    fix t' s' assume r: "sessiontable_add env t p est s = Some (Err EEXIST, t', s')" "dup_effect proto B K t s0 p t' s'"
    have "dup_effect proto B K t s p t' s'"
      using r(2) touches_trans [OF tch, of s'] keys unfolding dup_effect_def by (simp del: sess_key_sview)
    then show thesis by (rule dup [OF r(1)])
  qed
qed

end
