(* ===== verification/Session_Remove.thy ===== *)
theory Session_Remove
  imports Session_Invariant
begin

text \<open>
  The operations that remove many sessions at once: which sessions they remove, and that they keep
  the invariant of the table.
\<close>

section \<open>Removal loops\<close>

text \<open>
  The result of removing the sessions in \<open>D\<close> and giving back the table's references to them.
\<close>

definition remove_effect :: "l4_protocol \<Rightarrow> ptr multiset \<Rightarrow> ptr multiset \<Rightarrow> session_table \<Rightarrow> 'a pktq_db_scheme \<Rightarrow> ptr set \<Rightarrow>
    session_table \<Rightarrow> 'a pktq_db_scheme \<Rightarrow> bool" where
  "remove_effect proto B K t s D t' s' \<longleftrightarrow> tab_ok proto B K t' s' \<and> stable_nodes t' = stable_nodes t - D \<and>
     (\<forall>y. pending y t \<longrightarrow> pending y t') \<and> touches D s s' \<and> queue_same s s' \<and>
     (\<forall>q. q \<in> D \<longrightarrow> q \<notin># K + node_refs [] s \<longrightarrow> sessions s' q = None)"

definition doomed :: "(session_entry \<Rightarrow> bool) \<Rightarrow> (session_entry \<Rightarrow> bool) \<Rightarrow> session_heap \<Rightarrow> ptr list \<Rightarrow> ptr list" where
  "doomed stops skips v es = filter (\<lambda>p. \<not> skips (the (v p))) (takeWhile (\<lambda>p. \<not> stops (the (v p))) es)"

lemma doomed_simps [simp]:
  "doomed stops skips v [] = []"
  "doomed stops skips v (p # es) = (if stops (the (v p)) then [] else (if skips (the (v p)) then [] else [p]) @ doomed stops skips v es)"
  by (simp_all add: doomed_def)

lemma doomed_cong: "\<forall>p \<in> set es. v' p = v p \<Longrightarrow> doomed stops skips v' es = doomed stops skips v es"
  by (induction es) auto

lemma set_doomed: "p \<in> set (doomed stops skips v es) \<Longrightarrow> p \<in> set es"
  unfolding doomed_def by (auto dest: set_takeWhileD)

text \<open>
  The removing callbacks stop at a session, skip it or remove it, depending on its addresses.
\<close>

locale rm_callback =
  fixes ops :: "ptr rb_ops" and cb :: "ptr \<Rightarrow> 'a pktq_db_scheme rm_loop \<Rightarrow> (status \<times> 'a pktq_db_scheme rm_loop) option"
    and stops skips :: "session_entry \<Rightarrow> bool"
  assumes cb_eq: "cb p (t, s, rms) = do { e \<leftarrow> sessions s p; (if stops e then Some (Stop, t, s, rms)
      else if skips e then Some (Ok, t, s, rms) else sess_flush_cb ops p (t, s, rms)) }"
    and stops_ref: "stops (e\<lparr>se_refcounter := n\<rparr>) = stops e" and skips_ref: "skips (e\<lparr>se_refcounter := n\<rparr>) = skips e"
begin

lemma trees:
  assumes laws: "rb_laws ops" and cb: "cb p st = Some (r, st')"
  shows "inorder (st_tree4 (fst st')) = inorder (st_tree4 (fst st)) \<or> inorder (st_tree4 (fst st')) = remove1 p (inorder (st_tree4 (fst st)))"
    "inorder (st_tree6 (fst st')) = inorder (st_tree6 (fst st)) \<or> inorder (st_tree6 (fst st')) = remove1 p (inorder (st_tree6 (fst st)))"
  using cb laws by (cases st; auto simp: cb_eq sess_flush_cb_def session_rm_def rbtree_erase_def bind_eq_Some_conv Let_def split: if_splits prod.splits)+

lemma removes:
  assumes laws: "rb_laws ops"
  shows "tab_ok proto B (mset rms + K) t s \<Longrightarrow> distinct es \<Longrightarrow> set es \<subseteq> stable_nodes t \<Longrightarrow> D = doomed stops skips (sview s) es \<Longrightarrow>
    \<exists>r t' s'. list_iterate cb es (t, s, rms) = Some (r, t', s', rev D @ rms) \<and> tab_ok proto B (mset (rev D @ rms) + K) t' s' \<and>
      stable_nodes t' = stable_nodes t - set D \<and> (\<forall>y. pending y t \<longrightarrow> pending y t') \<and>
      (\<forall>q. q \<notin> set D \<longrightarrow> sview s' q = sview s q) \<and> ref_only s s'"
proof (induction es arbitrary: t s rms D)
  case Nil
  then show ?case by simp
next
  case (Cons p es)
  have p: "p \<in> stable_nodes t" using Cons.prems(3) by simp
  obtain e where e: "sessions s p = Some e" using tab_ok_live [OF Cons.prems(1) p] by blast
  have v: "stops (the (sview s p)) = stops e" "skips (the (sview s p)) = skips e"
    using sview_Some [OF e] by (simp_all add: stops_ref skips_ref)
  consider (stop) "stops e" | (skip) "\<not> stops e" "skips e" | (hit) "\<not> stops e" "\<not> skips e" by blast
  then show ?case
  proof cases
    case stop
    then show ?thesis using Cons.prems e v by (simp add: cb_eq)
  next
    case skip
    have "cb p (t, s, rms) = Some (Ok, t, s, rms)" using skip e by (simp add: cb_eq)
    then show ?thesis using Cons.IH [OF Cons.prems(1), of D] Cons.prems(2-4) skip v by simp
  next
    case hit
    define D' where "D' = doomed stops skips (sview s) es"
    have D: "D = p # D'" using Cons.prems(4) hit v by (simp add: D'_def)
    obtain t1 s1 e1 where r: "session_rm ops t p rms s = Some (t1, p # rms, s1)" "tab_ok proto B (add_mset p (mset rms + K)) t1 s1"
      "stable_nodes t1 = stable_nodes t - {p}" "\<And>x. timer_list x t1 = remove1 p (timer_list x t)"
      "inorder (st_tree4 t1) = remove1 p (inorder (st_tree4 t))" "inorder (st_tree6 t1) = remove1 p (inorder (st_tree6 t))"
      "\<And>x. et_timer (get_expirer x t1) = et_timer (get_expirer x t)" "\<And>x. et_get_timeout (get_expirer x t1) = et_get_timeout (get_expirer x t)"
      "\<And>x. et_decide_fate_cb (get_expirer x t1) = et_decide_fate_cb (get_expirer x t)" "sessions s p = Some e1"
      "sview s1 = (sview s)(p \<mapsto> e1\<lparr>se_expirer := None, se_refcounter := 0\<rparr>)" "ref_only s s1" "bibs s1 = bibs s"
      by (rule session_rm_ok [OF laws Cons.prems(1) p, where rms = rms]) (rule that)
    have c: "cb p (t, s, rms) = Some (Ok, t1, s1, p # rms)" using hit e r(1) by (simp add: cb_eq sess_flush_cb_def)
    have ok1: "tab_ok proto B (mset (p # rms) + K) t1 s1" using r(2) by simp
    have es: "distinct es" "set es \<subseteq> stable_nodes t1" "p \<notin> set es" using Cons.prems(2,3) r(3) by auto
    have "D' = doomed stops skips (sview s1) es"
      unfolding D'_def by (rule doomed_cong [symmetric]) (use es(3) in \<open>auto simp: r(11)\<close>)
    from Cons.IH [OF ok1 es(1,2) this] obtain r' t' s' where i: "list_iterate cb es (t1, s1, p # rms) = Some (r', t', s', rev D' @ p # rms)"
      "tab_ok proto B (mset (rev D' @ p # rms) + K) t' s'" "stable_nodes t' = stable_nodes t1 - set D'"
      "\<forall>y. pending y t1 \<longrightarrow> pending y t'" "\<forall>q. q \<notin> set D' \<longrightarrow> sview s' q = sview s1 q" "ref_only s1 s'" by blast
    have pend: "pending y t'" if "pending y t" for y
      using that i(4) r(4,7) by (auto simp: pending_def dest: arg_cong [where f = set])
    have "sview s' q = sview s q" if "q \<notin> set D" for q using i(5) that by (simp add: D r(11))
    then show ?thesis
      using c i(1-3) r(3) pend ref_only_trans [OF r(12) i(6)] by (simp add: D) blast
  qed
qed

lemma iterate4:
  assumes laws: "rb_laws ops" and es: "inorder (st_tree4 t) = pre @ es" and dist: "distinct (inorder (st_tree4 t))"
  shows "rb_iterate ops (\<lambda>(table, _). st_tree4 table) cb (first_of es) (t, s, rms) = list_iterate cb es (t, s, rms)"
proof (rule rb_iterate_list [OF laws, where pre = pre])
  fix p st pre rest st'
  assume a: "inorder ((\<lambda>(t, _). st_tree4 t) st) = pre @ p # rest" "distinct (inorder ((\<lambda>(t, _). st_tree4 t) st))"
    "cb p st = Some (Ok, st')"
  then show "(\<exists>pre'. inorder ((\<lambda>(t, _). st_tree4 t) st') = pre' @ rest) \<and> distinct (inorder ((\<lambda>(t, _). st_tree4 t) st'))"
    using trees(1) [OF laws a(3)] remove1_split [of pre p rest] by (auto simp: split_def intro: exI [of _ "pre @ [p]"])
qed (use es dist in simp_all)

lemma iterate6:
  assumes laws: "rb_laws ops" and es: "inorder (st_tree6 t) = pre @ es" and dist: "distinct (inorder (st_tree6 t))"
  shows "rb_iterate ops (\<lambda>(table, _). st_tree6 table) cb (first_of es) (t, s, rms) = list_iterate cb es (t, s, rms)"
proof (rule rb_iterate_list [OF laws, where pre = pre])
  fix p st pre rest st'
  assume a: "inorder ((\<lambda>(t, _). st_tree6 t) st) = pre @ p # rest" "distinct (inorder ((\<lambda>(t, _). st_tree6 t) st))"
    "cb p st = Some (Ok, st')"
  then show "(\<exists>pre'. inorder ((\<lambda>(t, _). st_tree6 t) st') = pre' @ rest) \<and> distinct (inorder ((\<lambda>(t, _). st_tree6 t) st'))"
    using trees(2) [OF laws a(3)] remove1_split [of pre p rest] by (auto simp: split_def intro: exI [of _ "pre @ [p]"])
qed (use es dist in simp_all)

lemma remove_ok:
  assumes laws: "rb_laws ops" and ok: "tab_ok proto B K t s" and es: "distinct es" "set es \<subseteq> stable_nodes t"
    and D: "set (doomed stops skips (sview s) es) = D"
  obtains t' s' where "remove_loop ops (list_iterate cb es (t, s, [])) = Some (t', s')" "remove_effect proto B K t s D t' s'"
proof -
  define ds where "ds = doomed stops skips (sview s) es"
  have ok0: "tab_ok proto B (mset [] + K) t s" using ok by simp
  obtain r t' s1 where i: "list_iterate cb es (t, s, []) = Some (r, t', s1, rev ds @ [])" "tab_ok proto B (mset (rev ds @ []) + K) t' s1"
    "stable_nodes t' = stable_nodes t - set ds" "\<forall>y. pending y t \<longrightarrow> pending y t'" "\<forall>q. q \<notin> set ds \<longrightarrow> sview s1 q = sview s q"
    "ref_only s s1" using removes [OF laws ok0 es ds_def] by blast
  have "pktq_ok [] B (mset (rev ds) + (tab_refs t' + K)) s1" using i(2) by (simp add: tab_ok_def ac_simps)
  from delete_sessions_ok [OF laws this] obtain s' where s': "delete_sessions ops (rev ds) s1 = Some s'"
    "pktq_ok [] B (tab_refs t' + K) s'" "sview s' \<subseteq>\<^sub>m sview s1" "ref_only s1 s'" by blast
  have ok': "tab_ok proto B K t' s'"
    by (rule tab_ok_shrink [OF i(2) s'(2)]) (rule map_le_cases [OF s'(3)])
  have ro: "ref_only s s'" using ref_only_trans [OF i(6) s'(4)] .
  have touch: "touches D s s'"
  proof (rule touchesI)
    show "pktq_frame s s'" "pktq_timer_ok s \<Longrightarrow> pktq_timer_ok s'"
      using ref_only_frame [OF ro] queue_same_timer [OF ref_only_queue [OF ro]] by simp_all
    show "sview s' q = sview s q \<or> sview s' q = None" if "q \<notin> D" for q
      using map_le_cases [OF s'(3), of q] i(5) that D by (simp add: ds_def)
  qed
  have "sessions s' q = None" if "q \<in> D" "q \<notin># K + node_refs [] s" for q
  proof -
    have "q \<notin># tab_refs t'" using that(1) D i(3) by (auto simp: tab_refs_def stable_nodes_def ds_def)
    then have "sess_count s' q = 0"
      using pktq_ok_D(3) [OF s'(2), of q] that(2) queue_same_refs [OF ref_only_queue [OF ro], of "[]"] by (simp add: not_in_iff)
    moreover have "se_refcounter e \<ge> 1" if "sessions s' q = Some e" for e
      using pktq_ok_D(1) [OF s'(2)] that unfolding refs_ok_def by blast
    ultimately show ?thesis by (cases "sessions s' q") (auto simp: sess_count_def)
  qed
  then have "remove_effect proto B K t s D t' s'"
    using ok' i(3,4) touch D ref_only_queue [OF ro] by (simp add: remove_effect_def ds_def)
  moreover have "remove_loop ops (list_iterate cb es (t, s, [])) = Some (t', s')"
    using i(1) s'(1) by (simp add: remove_loop_def)
  ultimately show ?thesis using that by blast
qed

end

text \<open>The four callbacks.\<close>

interpretation flush_cb: rm_callback ops "sess_flush_cb ops" "\<lambda>e. False" "\<lambda>e. False" for ops
proof
  fix p t s rms
  show "sess_flush_cb ops p (t, s, rms) = do { e \<leftarrow> sessions s p; (if False then Some (Stop, t, s, rms)
      else if False then Some (Ok, t, s, rms) else sess_flush_cb ops p (t, s, rms)) }"
    by (cases "sessions s p") (simp_all add: sess_flush_cb_def session_rm_def)
qed simp_all

interpretation by_bib_cb: rm_callback ops "rm_by_bib ops a" "\<lambda>e. a \<noteq> se_local4 e" "\<lambda>e. False" for ops a
  by unfold_locales (simp_all add: rm_by_bib_def)

interpretation taddr4s_cb: rm_callback ops "rm_taddr4s ops prefix ports" "\<lambda>e. \<not> prefix4_contains prefix (ta4_l3 (se_local4 e))"
    "\<lambda>e. \<not> port_range_contains ports (ta4_l4 (se_local4 e))" for ops prefix ports
  by unfold_locales (auto simp: rm_taddr4s_def)

interpretation taddr6s_cb: rm_callback ops "rm_taddr6s ops prefix" "\<lambda>e. \<not> prefix6_contains prefix (ta6_l3 (se_local6 e))"
    "\<lambda>e. False" for ops prefix
  by unfold_locales (auto simp: rm_taddr6s_def)

section \<open>Which sessions are removed\<close>

lemma doomed_from:
  fixes k :: "ptr \<Rightarrow> 'k::linorder"
  assumes "sorted_wrt (\<lambda>a b. k a < k b) xs"
    and convex: "\<And>x y. x \<in> set xs \<Longrightarrow> y \<in> set xs \<Longrightarrow> low \<le> k x \<Longrightarrow> k x < k y \<Longrightarrow> \<not> stops (the (v y)) \<Longrightarrow> \<not> stops (the (v x))"
    and covers: "\<And>x. x \<in> set xs \<Longrightarrow> \<not> stops (the (v x)) \<Longrightarrow> \<not> skips (the (v x)) \<Longrightarrow> low \<le> k x"
  shows "set (doomed stops skips v (dropWhile (\<lambda>x. k x < low) xs)) = {x \<in> set xs. \<not> stops (the (v x)) \<and> \<not> skips (the (v x))}"
proof -
  have "set (takeWhile (\<lambda>x. \<not> stops (the (v x))) (dropWhile (\<lambda>x. k x < low) xs)) = {x \<in> set xs. low \<le> k x \<and> \<not> stops (the (v x))}"
    by (rule set_takeWhile_dropWhile_sorted [OF assms(1)]) (rule convex)
  then show ?thesis using covers unfolding doomed_def set_filter by blast
qed

lemma stable_key:
  assumes "stable_ok proto (sview s) t" "p \<in> stable_nodes t" "sview s p = Some e"
  shows "sess_key4 (sview s) p = Some (se_local4 e, se_remote4 e)" "sess_key6 (sview s) p = Some (se_local6 e, se_remote6 e)"
  using assms by (simp_all add: sess_key4_def sess_key6_def del: sess_key_sview)

lemma taddr_zero_le [simp]: "\<lparr>ta4_l3 = 0, ta4_l4 = 0\<rparr> \<le> (a :: ipv4_transport_addr)" "\<lparr>ta6_l3 = 0, ta6_l4 = 0\<rparr> \<le> (b :: ipv6_transport_addr)"
  by (simp_all add: not_less [symmetric] taddr4_less_iff taddr6_less_iff)

lemma stable_doomed4:
  fixes v :: session_heap
  assumes st: "stable_ok proto v t"
    and convex: "\<And>a b. low \<le> a \<Longrightarrow> a \<le> b \<Longrightarrow> Q b \<Longrightarrow> Q a" and covers: "\<And>a. Q a \<Longrightarrow> R a \<Longrightarrow> low \<le> a"
  shows "set (doomed (\<lambda>e. \<not> Q (se_local4 e)) (\<lambda>e. \<not> R (se_local4 e)) v
      (dropWhile (\<lambda>p. the (sess_key4 v p) < (low, \<lparr>ta4_l3 = 0, ta4_l4 = 0\<rparr>)) (inorder (st_tree4 t)))) =
    {p \<in> stable_nodes t. \<exists>e. v p = Some e \<and> Q (se_local4 e) \<and> R (se_local4 e)}"
proof -
  have srt: "sorted_wrt (\<lambda>a b. the (sess_key4 v a) < the (sess_key4 v b)) (inorder (st_tree4 t))"
    using st by (simp add: stable_ok_def sess4.keys_sorted_def)
  have k: "\<exists>e. v p = Some e \<and> the (sess_key4 v p) = (se_local4 e, se_remote4 e)" if "p \<in> stable_nodes t" for p
    using st that by (auto simp: stable_ok_def sess_key4_def)
  have n: "set (inorder (st_tree4 t)) = stable_nodes t" by (simp add: stable_nodes_def)
  show ?thesis
    unfolding n [symmetric]
  proof (subst doomed_from [OF srt])
    fix x y assume a: "x \<in> set (inorder (st_tree4 t))" "y \<in> set (inorder (st_tree4 t))"
      "(low, \<lparr>ta4_l3 = 0, ta4_l4 = 0\<rparr>) \<le> the (sess_key4 v x)" "the (sess_key4 v x) < the (sess_key4 v y)"
      "\<not> \<not> Q (se_local4 (the (v y)))"
    have "low \<le> se_local4 (the (v x))" "se_local4 (the (v x)) \<le> se_local4 (the (v y))"
      using a k [of x] k [of y] n by auto
    then show "\<not> \<not> Q (se_local4 (the (v x)))" using convex a(5) by blast
  next
    fix x assume a: "x \<in> set (inorder (st_tree4 t))" "\<not> \<not> Q (se_local4 (the (v x)))" "\<not> \<not> R (se_local4 (the (v x)))"
    then show "(low, \<lparr>ta4_l3 = 0, ta4_l4 = 0\<rparr>) \<le> the (sess_key4 v x)"
      using k [of x] covers [of "se_local4 (the (v x))"] n by auto
  next
    show "{x \<in> set (inorder (st_tree4 t)). \<not> \<not> Q (se_local4 (the (v x))) \<and> \<not> \<not> R (se_local4 (the (v x)))} =
      {p \<in> set (inorder (st_tree4 t)). \<exists>e. v p = Some e \<and> Q (se_local4 e) \<and> R (se_local4 e)}"
      using k unfolding n by fastforce
  qed
qed

lemma stable_doomed6:
  fixes v :: session_heap
  assumes st: "stable_ok proto v t"
    and convex: "\<And>a b. low \<le> a \<Longrightarrow> a \<le> b \<Longrightarrow> Q b \<Longrightarrow> Q a" and covers: "\<And>a. Q a \<Longrightarrow> R a \<Longrightarrow> low \<le> a"
  shows "set (doomed (\<lambda>e. \<not> Q (se_local6 e)) (\<lambda>e. \<not> R (se_local6 e)) v
      (dropWhile (\<lambda>p. the (sess_key6 v p) < (low, \<lparr>ta6_l3 = 0, ta6_l4 = 0\<rparr>)) (inorder (st_tree6 t)))) =
    {p \<in> stable_nodes t. \<exists>e. v p = Some e \<and> Q (se_local6 e) \<and> R (se_local6 e)}"
proof -
  have srt: "sorted_wrt (\<lambda>a b. the (sess_key6 v a) < the (sess_key6 v b)) (inorder (st_tree6 t))"
    using st by (simp add: stable_ok_def sess6.keys_sorted_def)
  have k: "\<exists>e. v p = Some e \<and> the (sess_key6 v p) = (se_local6 e, se_remote6 e)" if "p \<in> stable_nodes t" for p
    using st that by (auto simp: stable_ok_def sess_key6_def)
  have n: "set (inorder (st_tree6 t)) = stable_nodes t" using st by (simp add: stable_ok_def)
  show ?thesis
    unfolding n [symmetric]
  proof (subst doomed_from [OF srt])
    fix x y assume a: "x \<in> set (inorder (st_tree6 t))" "y \<in> set (inorder (st_tree6 t))"
      "(low, \<lparr>ta6_l3 = 0, ta6_l4 = 0\<rparr>) \<le> the (sess_key6 v x)" "the (sess_key6 v x) < the (sess_key6 v y)"
      "\<not> \<not> Q (se_local6 (the (v y)))"
    have "low \<le> se_local6 (the (v x))" "se_local6 (the (v x)) \<le> se_local6 (the (v y))"
      using a k [of x] k [of y] n by auto
    then show "\<not> \<not> Q (se_local6 (the (v x)))" using convex a(5) by blast
  next
    fix x assume a: "x \<in> set (inorder (st_tree6 t))" "\<not> \<not> Q (se_local6 (the (v x)))" "\<not> \<not> R (se_local6 (the (v x)))"
    then show "(low, \<lparr>ta6_l3 = 0, ta6_l4 = 0\<rparr>) \<le> the (sess_key6 v x)"
      using k [of x] covers [of "se_local6 (the (v x))"] n by auto
  next
    show "{x \<in> set (inorder (st_tree6 t)). \<not> \<not> Q (se_local6 (the (v x))) \<and> \<not> \<not> R (se_local6 (the (v x)))} =
      {p \<in> set (inorder (st_tree6 t)). \<exists>e. v p = Some e \<and> Q (se_local6 e) \<and> R (se_local6 e)}"
      using k unfolding n by fastforce
  qed
qed

lemma prefix6_convex:
  assumes "p6_address p \<le> a" "a \<le> b" "prefix6_contains p b"
  shows "prefix6_contains p a"
proof -
  let ?n = "128 - unat (p6_len p)"
  have d: "unat (p6_address p) div 2 ^ ?n = unat b div 2 ^ ?n"
    using assms(3) by (simp add: prefix6_contains_def ipv6_prefix_equal_def word_unat_eq_iff unat_drop_bit_div)
  have "unat (p6_address p) div 2 ^ ?n \<le> unat a div 2 ^ ?n" "unat a div 2 ^ ?n \<le> unat b div 2 ^ ?n"
    using assms(1,2) by (simp_all add: div_le_mono word_le_nat_alt)
  then show ?thesis
    using d by (simp add: prefix6_contains_def ipv6_prefix_equal_def word_unat_eq_iff unat_drop_bit_div)
qed

lemma prefix6_lowest:
  assumes "prefix6_wf p" "prefix6_contains p a"
  shows "p6_address p \<le> a"
proof -
  let ?n = "128 - unat (p6_len p)"
  have "unat (p6_address p) div 2 ^ ?n = unat a div 2 ^ ?n"
    using assms(2) by (simp add: prefix6_contains_def ipv6_prefix_equal_def word_unat_eq_iff unat_drop_bit_div)
  moreover have "unat (p6_address p) mod 2 ^ ?n = 0"
    using assms(1) unat_take_bit_mod [of ?n "p6_address p"] by (simp add: prefix6_wf_def)
  ultimately show ?thesis unfolding word_le_nat_alt by (metis add.right_neutral div_mult_mod_eq div_times_less_eq_dividend)
qed

section \<open>The operations\<close>

lemma sess_foreach_from:
  assumes laws: "rb_laws ops" and st: "stable_ok proto (sview s) t"
    and it: "\<And>pre es. inorder (st_tree4 t) = pre @ es \<Longrightarrow>
      rb_iterate ops (\<lambda>(table, _). st_tree4 table) cb (first_of es) (t, s, rms) = list_iterate cb es (t, s, rms)"
  shows "sess_foreach ops cb (Some r) (Some l) True (t, s, rms) =
    list_iterate cb (dropWhile (\<lambda>p. the (sess_key4 (sview s) p) < (l, r)) (inorder (st_tree4 t))) (t, s, rms)"
    "sess_foreach ops cb None None inc (t, s, rms) = list_iterate cb (inorder (st_tree4 t)) (t, s, rms)"
proof -
  have srt: "sess4.keys_sorted (sessions s) (inorder (st_tree4 t))" using st by (simp add: stable_ok_def sess_sorted_sview)
  let ?P = "\<lambda>p. the (sess_key4 (sessions s) p) < (l, r)"
  have "sess_find_starting_point ops t (Some r) (Some l) True (sessions s) = Some (first_of (dropWhile ?P (inorder (st_tree4 t))))"
    using sess4.start_ok [OF laws srt, of "(l, r)" True]
    by (simp add: sess_find_starting_point_def compare_full_cmp offset_tuple4_def)
  then show "sess_foreach ops cb (Some r) (Some l) True (t, s, rms) =
    list_iterate cb (dropWhile (\<lambda>p. the (sess_key4 (sview s) p) < (l, r)) (inorder (st_tree4 t))) (t, s, rms)"
    using it [of "takeWhile ?P (inorder (st_tree4 t))" "dropWhile ?P (inorder (st_tree4 t))"] by (simp add: sess_foreach_def)
  show "sess_foreach ops cb None None inc (t, s, rms) = list_iterate cb (inorder (st_tree4 t)) (t, s, rms)"
    using it [of "[]" "inorder (st_tree4 t)"] rb_laws_first [OF laws]
    by (simp add: sess_foreach_def sess_find_starting_point_def)
qed

lemma sessiontable_flush_ok:
  assumes laws: "rb_laws ops" and ok: "tab_ok proto B K t s"
  obtains t' s' where "sessiontable_flush ops t s = Some (t', s')" "remove_effect proto B K t s (stable_nodes t) t' s'"
proof -
  have st: "stable_ok proto (sview s) t" using ok by (simp add: tab_ok_def)
  have d: "distinct (inorder (st_tree4 t))" by (rule stable_ok_distinct [OF st])
  have D: "set (doomed (\<lambda>e. False) (\<lambda>e. False) (sview s) (inorder (st_tree4 t))) = stable_nodes t"
    by (simp add: doomed_def stable_nodes_def takeWhile_eq_all_conv [THEN iffD2])
  obtain t' s' where r: "remove_loop ops (list_iterate (sess_flush_cb ops) (inorder (st_tree4 t)) (t, s, [])) = Some (t', s')"
    "remove_effect proto B K t s (stable_nodes t) t' s'"
    by (rule flush_cb.remove_ok [OF laws ok d _ D]) (simp add: stable_nodes_def)
  then show ?thesis
    using that sess_foreach_from(2) [OF laws st flush_cb.iterate4 [OF laws _ d], where inc = False] by (simp add: sessiontable_flush_def)
qed

lemma sess_delete_from4:
  assumes ok: "tab_ok proto B K t s" and low: "\<And>a b. low \<le> a \<Longrightarrow> a \<le> b \<Longrightarrow> Q b \<Longrightarrow> Q a" "\<And>a. Q a \<Longrightarrow> R a \<Longrightarrow> low \<le> a"
  shows "distinct (dropWhile P (inorder (st_tree4 t)))" "set (dropWhile P (inorder (st_tree4 t))) \<subseteq> stable_nodes t"
    "set (doomed (\<lambda>e. \<not> Q (se_local4 e)) (\<lambda>e. \<not> R (se_local4 e)) (sview s)
      (dropWhile (\<lambda>p. the (sess_key4 (sview s) p) < (low, \<lparr>ta4_l3 = 0, ta4_l4 = 0\<rparr>)) (inorder (st_tree4 t)))) =
    {p \<in> stable_nodes t. \<exists>e. sview s p = Some e \<and> Q (se_local4 e) \<and> R (se_local4 e)}"
proof -
  have st: "stable_ok proto (sview s) t" using ok by (simp add: tab_ok_def)
  show "distinct (dropWhile P (inorder (st_tree4 t)))" by (rule distinct_dropWhile [OF stable_ok_distinct(2) [OF st]])
  show "set (dropWhile P (inorder (st_tree4 t))) \<subseteq> stable_nodes t" by (auto simp: stable_nodes_def simp flip: set_inorder dest: set_dropWhileD)
  show "set (doomed (\<lambda>e. \<not> Q (se_local4 e)) (\<lambda>e. \<not> R (se_local4 e)) (sview s)
      (dropWhile (\<lambda>p. the (sess_key4 (sview s) p) < (low, \<lparr>ta4_l3 = 0, ta4_l4 = 0\<rparr>)) (inorder (st_tree4 t)))) =
    {p \<in> stable_nodes t. \<exists>e. sview s p = Some e \<and> Q (se_local4 e) \<and> R (se_local4 e)}"
    by (rule stable_doomed4 [OF st]) (rule low; assumption)+
qed

lemma sessiontable_delete_by_bib_ok:
  assumes laws: "rb_laws ops" and ok: "tab_ok proto B K t s" and b: "bibs s bib = Some b"
  obtains t' s' where "sessiontable_delete_by_bib ops t bib s = Some (t', s')"
    "remove_effect proto B K t s {p \<in> stable_nodes t. \<exists>e. sview s p = Some e \<and> se_local4 e = b_ipv4 b} t' s'"
proof -
  have st: "stable_ok proto (sview s) t" using ok by (simp add: tab_ok_def)
  note d = stable_ok_distinct(2) [OF st]
  let ?cb = "rm_by_bib ops (b_ipv4 b)" and ?zero = "\<lparr>ta4_l3 = 0, ta4_l4 = 0\<rparr>"
  note low = sess_delete_from4 [OF ok, of "b_ipv4 b" "\<lambda>a. b_ipv4 b = a" "\<lambda>a. True", simplified]
  obtain t' s' where r: "remove_loop ops (list_iterate ?cb
      (dropWhile (\<lambda>p. the (sess_key4 (sview s) p) < (b_ipv4 b, ?zero)) (inorder (st_tree4 t))) (t, s, [])) = Some (t', s')"
    "remove_effect proto B K t s {p \<in> stable_nodes t. \<exists>e. sview s p = Some e \<and> b_ipv4 b = se_local4 e} t' s'"
    by (rule by_bib_cb.remove_ok [OF laws ok low(1,2) low(3)]) simp_all
  then show ?thesis
    using that b sess_foreach_from(1) [OF laws st by_bib_cb.iterate4 [OF laws _ d], where r = ?zero and l = "b_ipv4 b"]
    by (simp add: sessiontable_delete_by_bib_def eq_commute)
qed

lemma block4_convex:
  fixes prefix :: ipv4_prefix and ports :: port_range
  assumes prefix: "prefix4_wf prefix" and low: "low = \<lparr>ta4_l3 = p4_address prefix, ta4_l4 = pr_min ports\<rparr>"
  shows "low \<le> a \<Longrightarrow> a \<le> b \<Longrightarrow> prefix4_contains prefix (ta4_l3 b) \<Longrightarrow> prefix4_contains prefix (ta4_l3 a)"
    "prefix4_contains prefix (ta4_l3 a) \<Longrightarrow> port_range_contains ports (ta4_l4 a) \<Longrightarrow> low \<le> a"
  using prefix4_contains_interval [OF prefix] unfolding low
  by (fastforce simp: not_less [symmetric] taddr4_less_iff word_less_nat_alt port_range_contains_def)+

lemma sessiontable_delete_taddr4s_ok:
  assumes laws: "rb_laws ops" and ok: "tab_ok proto B K t s" and prefix: "prefix4_wf prefix"
  obtains t' s' where "sessiontable_delete_taddr4s ops t prefix ports s = Some (t', s')"
    "remove_effect proto B K t s {p \<in> stable_nodes t. \<exists>e. sview s p = Some e \<and> in_block prefix ports (se_local4 e)} t' s'"
proof -
  have st: "stable_ok proto (sview s) t" using ok by (simp add: tab_ok_def)
  note d = stable_ok_distinct(2) [OF st]
  let ?cb = "rm_taddr4s ops prefix ports" and ?zero = "\<lparr>ta4_l3 = 0, ta4_l4 = 0\<rparr>"
  let ?low = "\<lparr>ta4_l3 = p4_address prefix, ta4_l4 = pr_min ports\<rparr>"
  note low = sess_delete_from4 [OF ok block4_convex [OF prefix, where ports = ports, OF refl]]
  obtain t' s' where r: "remove_loop ops (list_iterate ?cb
      (dropWhile (\<lambda>p. the (sess_key4 (sview s) p) < (?low, ?zero)) (inorder (st_tree4 t))) (t, s, [])) = Some (t', s')"
    "remove_effect proto B K t s {p \<in> stable_nodes t. \<exists>e. sview s p = Some e \<and>
       prefix4_contains prefix (ta4_l3 (se_local4 e)) \<and> port_range_contains ports (ta4_l4 (se_local4 e))} t' s'"
    by (rule taddr4s_cb.remove_ok [OF laws ok low(1,2) low(3)]; assumption?)
  then show ?thesis
    using that sess_foreach_from(1) [OF laws st taddr4s_cb.iterate4 [OF laws _ d], where r = ?zero and l = ?low]
    by (simp add: sessiontable_delete_taddr4s_def in_block_def)
qed

lemma sessiontable_delete_taddr6s_ok:
  assumes laws: "rb_laws ops" and ok: "tab_ok proto B K t s" and prefix: "prefix6_wf prefix"
  obtains t' s' where "sessiontable_delete_taddr6s ops t prefix s = Some (t', s')"
    "remove_effect proto B K t s {p \<in> stable_nodes t. \<exists>e. sview s p = Some e \<and> prefix6_contains prefix (ta6_l3 (se_local6 e))} t' s'"
proof -
  have st: "stable_ok proto (sview s) t" using ok by (simp add: tab_ok_def)
  note d = stable_ok_distinct(1) [OF st]
  have srt: "sess6.keys_sorted (sessions s) (inorder (st_tree6 t))" and n: "set (inorder (st_tree6 t)) = stable_nodes t"
    using st by (simp_all add: stable_ok_def sess_sorted_sview)
  let ?cb = "rm_taddr6s ops prefix" and ?zero = "\<lparr>ta6_l3 = 0, ta6_l4 = 0\<rparr>" and ?low = "\<lparr>ta6_l3 = p6_address prefix, ta6_l4 = 0\<rparr>"
  let ?P = "\<lambda>p. the (sess_key6 (sview s) p) < (?low, ?zero)"
  have D: "set (doomed (\<lambda>e. \<not> prefix6_contains prefix (ta6_l3 (se_local6 e))) (\<lambda>e. \<not> True) (sview s)
      (dropWhile ?P (inorder (st_tree6 t)))) =
    {p \<in> stable_nodes t. \<exists>e. sview s p = Some e \<and> prefix6_contains prefix (ta6_l3 (se_local6 e)) \<and> True}"
  proof (rule stable_doomed6 [OF st])
    fix a b :: ipv6_transport_addr assume "?low \<le> a" "a \<le> b" "prefix6_contains prefix (ta6_l3 b)"
    then show "prefix6_contains prefix (ta6_l3 a)"
      using prefix6_convex [of prefix "ta6_l3 a" "ta6_l3 b"] by (fastforce simp: not_less [symmetric] taddr6_less_iff)
  next
    fix a :: ipv6_transport_addr assume "prefix6_contains prefix (ta6_l3 a)"
    then show "?low \<le> a" using prefix6_lowest [OF prefix] by (fastforce simp: not_less [symmetric] taddr6_less_iff)
  qed
  have f: "find_starting_point6 ops t ?low (sessions s) = Some (first_of (dropWhile ?P (inorder (st_tree6 t))))"
    using sess6.start_ok [OF laws srt, of "(?low, ?zero)" True] by (simp add: find_starting_point6_def compare_full_cmp)
  have it: "rb_iterate ops (\<lambda>(table, _). st_tree6 table) ?cb (first_of (dropWhile ?P (inorder (st_tree6 t)))) (t, s, []) =
      list_iterate ?cb (dropWhile ?P (inorder (st_tree6 t))) (t, s, [])"
    by (rule taddr6s_cb.iterate6 [OF laws _ d, of "takeWhile ?P (inorder (st_tree6 t))"]) simp
  have sub: "set (dropWhile ?P (inorder (st_tree6 t))) \<subseteq> stable_nodes t" using n by (auto simp del: set_inorder dest: set_dropWhileD)
  have D': "set (doomed (\<lambda>e. \<not> prefix6_contains prefix (ta6_l3 (se_local6 e))) (\<lambda>e. False) (sview s) (dropWhile ?P (inorder (st_tree6 t)))) =
    {p \<in> stable_nodes t. \<exists>e. sview s p = Some e \<and> prefix6_contains prefix (ta6_l3 (se_local6 e))}" using D by simp
  obtain t' s' where "remove_loop ops (list_iterate ?cb (dropWhile ?P (inorder (st_tree6 t))) (t, s, [])) = Some (t', s')"
    "remove_effect proto B K t s {p \<in> stable_nodes t. \<exists>e. sview s p = Some e \<and> prefix6_contains prefix (ta6_l3 (se_local6 e))} t' s'"
    by (rule taddr6s_cb.remove_ok [OF laws ok distinct_dropWhile [OF d] sub D'])
  then show ?thesis using that f it by (simp add: sessiontable_delete_taddr6s_def)
qed

end
