(* ===== verification/Session_Clean.thy ===== *)
theory Session_Clean
  imports Session_Remove
begin

text \<open>
  The expiration timers: what a run of the cleaner does to the sessions that are too old, and that
  the timers keep running as long as there are sessions.
\<close>

section \<open>Expiration callbacks\<close>

text \<open>
  What the cleaner needs of a callback on top of \<open>fate_contract\<close>: an expired session leaves the list
  it is in, and its fate does not depend on who else holds it. Otherwise the cleaner might visit a
  session twice.
\<close>

locale expire_contract = fate_contract cb proto None for cb proto +
  assumes leaves: "placed x e \<Longrightarrow> se_l4_proto e = proto \<Longrightarrow> cb now None e = Some (e1, f) \<Longrightarrow>
      f \<noteq> FATE_PRESERVE \<and> fate_target f \<noteq> Some x"
    and fate_ref: "map_option snd (cb now None (e\<lparr>se_refcounter := n\<rparr>)) = map_option snd (cb now None e)"

lemma expire_contract_iff: "expires_ok proto cb = expire_contract cb proto"
proof
  assume ok: "expires_ok proto cb"
  show "expire_contract cb proto"
  proof
    fix x :: expirer and e :: session_entry and now :: u64
    assume e: "placed x e" "se_l4_proto e = proto"
    obtain st u f where d: "cb now None e = Some (e\<lparr>se_state := st, se_update_time := u\<rparr>, f)" "f \<noteq> FATE_PRESERVE" "fate_target f \<noteq> Some x"
      "\<forall>y. fate_target f = Some y \<longrightarrow> placed y (e\<lparr>se_state := st\<rparr>)"
      using ok [unfolded expires_ok_def, THEN conjunct1, rule_format, OF e, of now] by blast
    show "\<exists>st u f. cb now None e = Some (e\<lparr>se_state := st, se_update_time := u\<rparr>, f) \<and>
        (\<forall>y. fate_target f = Some y \<longrightarrow> placed y (e\<lparr>se_state := st\<rparr>)) \<and> (f = FATE_PRESERVE \<longrightarrow> placed x (e\<lparr>se_state := st\<rparr>))"
      using d by blast
    show "f' \<noteq> FATE_PRESERVE \<and> fate_target f' \<noteq> Some x" if "cb now None e = Some (e1, f')" for e1 f'
      using that d by simp
  qed (use ok in \<open>simp add: expires_ok_def\<close>)
next
  assume "expire_contract cb proto"
  then show "expires_ok proto cb"
    unfolding expires_ok_def expire_contract_def fate_contract_def expire_contract_axioms_def by metis
qed

definition session_expired :: "u64 \<Rightarrow> u64 \<Rightarrow> session_heap \<Rightarrow> ptr \<Rightarrow> bool" where
  "session_expired now timeout v p \<longleftrightarrow> (\<exists>e. v p = Some e \<and> \<not> time_before now (se_update_time e + timeout))"

definition expired_fate :: "fate_cb \<Rightarrow> u64 \<Rightarrow> session_heap \<Rightarrow> ptr \<Rightarrow> session_fate option" where
  "expired_fate cb now v p = Option.bind (v p) (\<lambda>e. map_option snd (cb now None e))"

text \<open>What the loop keeps while it works through the list of timer \<open>x\<close>.\<close>

definition clean_inv :: "l4_protocol \<Rightarrow> ptr multiset \<Rightarrow> ptr multiset \<Rightarrow> fate_cb \<Rightarrow> expirer \<Rightarrow> 'a pktq_db_scheme fate_loop \<Rightarrow> bool" where
  "clean_inv proto B K cb x st \<longleftrightarrow> (case st of (t, rms, probes, s) \<Rightarrow>
     tab_ok proto B (mset rms + mset probes + K) t s \<and> et_decide_fate_cb (get_expirer x t) = Some cb)"

text \<open>The outcome of one run: the sessions \<open>W\<close> at the front of the list are handled, those in \<open>R\<close> removed.\<close>

definition clean_effect :: "l4_protocol \<Rightarrow> ptr multiset \<Rightarrow> ptr multiset \<Rightarrow> session_table \<Rightarrow> 'a pktq_db_scheme \<Rightarrow> expirer \<Rightarrow>
    ptr list \<Rightarrow> ptr set \<Rightarrow> session_table \<Rightarrow> 'a pktq_db_scheme \<Rightarrow> bool" where
  "clean_effect proto B K t s x W R t' s' \<longleftrightarrow> tab_ok proto B K t' s' \<and> timer_list x t = W @ timer_list x t' \<and>
     stable_nodes t' = stable_nodes t - R \<and> (\<forall>y. y = x \<or> pending y t \<longrightarrow> pending y t') \<and> touches (set W) s s' \<and> queue_same s s'"

context expire_contract
begin

lemma body_break:
  assumes inv: "clean_inv proto B K cb x (t, rms, probes, s)" and p: "p \<in> set (timer_list x t)"
    and young: "\<not> session_expired (jiffies s) timeout (sview s) p"
  shows "session_cleaner_body env x timeout p (t, rms, probes, s) = Some (True, t, rms, probes, s)"
proof -
  have ok: "tab_ok proto B (mset rms + mset probes + K) t s" using inv by (simp add: clean_inv_def)
  have "stable_ok proto (sview s) t" using ok by (simp add: tab_ok_def)
  then have "p \<in> stable_nodes t" using p by (rule stable_ok_list(1))
  then obtain e where e: "sessions s p = Some e" using tab_ok_live [OF ok] by blast
  then show ?thesis using young sview_Some [OF e] by (simp add: session_expired_def session_cleaner_body_def)
qed

lemma body_expired:
  assumes env: "sess_env_ok env" and inv: "clean_inv proto B K cb x (t, rms, probes, s)" and p: "p \<in> set (timer_list x t)"
    and old: "session_expired (jiffies s) timeout (sview s) p"
  obtains t' rms' probes' s' where "session_cleaner_body env x timeout p (t, rms, probes, s) = Some (False, t', rms', probes', s')"
    "clean_inv proto B K cb x (t', rms', probes', s')" "timer_list x t' = remove1 p (timer_list x t)"
    "stable_nodes t' = stable_nodes t - (if expired_fate cb (jiffies s) (sview s) p = Some FATE_RM then {p} else {})"
    "\<And>y. pending y t \<Longrightarrow> pending y t'" "\<And>q. q \<noteq> p \<Longrightarrow> sview s q \<noteq> None \<Longrightarrow> sview s' q = sview s q" "sview s' p \<noteq> None" "ref_only s s'"
    "et_get_timeout (get_expirer x t') = et_get_timeout (get_expirer x t)"
proof -
  have ok: "tab_ok proto B (mset rms + mset probes + K) t s" and cb: "et_decide_fate_cb (get_expirer x t) = Some cb"
    using inv by (simp_all add: clean_inv_def)
  have st: "stable_ok proto (sview s) t" using ok by (simp add: tab_ok_def)
  have pn: "p \<in> stable_nodes t" by (rule stable_ok_list(1) [OF st p])
  obtain e stt u f t' s' new where d: "sessions s p = Some e"
    "cb (jiffies s) None e = Some (e\<lparr>se_state := stt, se_update_time := u\<rparr>, f)"
    "decide_fate env cb None t p rms probes s = Some (t', (if f = FATE_RM then [p] else []) @ rms, new @ probes, s')"
    "fate_effect proto B (mset rms + mset probes + K) t s p (e\<lparr>se_state := stt, se_update_time := u\<rparr>) f new t' s'"
    by (rule decide_ok [OF env ok pn, where rms = rms and probes = probes])
  have e: "se_l4_proto e = proto" "placed x e"
    using stable_ok_entry [OF st pn sview_Some [OF d(1)]] stable_ok_list(2) [OF st p] sview_Some [OF d(1)]
    by (auto simp: sess_entry_ok_def)
  have f: "f \<noteq> FATE_PRESERVE" "fate_target f \<noteq> Some x" using leaves [OF e(2,1) d(2)] by simp_all
  have ff: "expired_fate cb (jiffies s) (sview s) p = Some f"
    using sview_Some [OF d(1)] d(2) fate_ref [where now = "jiffies s" and e = e and n = 0] by (simp add: expired_fate_def)
  have body: "session_cleaner_body env x timeout p (t, rms, probes, s) =
      Some (False, t', (if f = FATE_RM then [p] else []) @ rms, new @ probes, s')"
    using d(1,3) cb old sview_Some [OF d(1)] by (simp add: session_cleaner_body_def session_expired_def)
  have inv': "clean_inv proto B K cb x (t', (if f = FATE_RM then [p] else []) @ rms, new @ probes, s')"
    using d(4) cb by (simp add: clean_inv_def fate_effect_def ac_simps)
  have eff: "timer_list x t' = remove1 p (timer_list x t)" "stable_nodes t' = stable_nodes t - (if f = FATE_RM then {p} else {})"
    "et_get_timeout (get_expirer x t') = et_get_timeout (get_expirer x t)" "ref_only s s'" "sview s' p \<noteq> None"
    using d(4) f by (auto simp: fate_effect_def)
  have "sview s' q = sview s q" if "q \<noteq> p" "sview s q \<noteq> None" for q
  proof -
    have "q \<notin> set new" using d(4) that(2) by (auto simp: fate_effect_def sview_None_iff)
    then show ?thesis using d(4) that(1) by (simp add: fate_effect_def)
  qed
  then show ?thesis
    using that [OF body inv' eff(1)] eff(2-5) ff fate_effect_pending [OF d(4)] by simp
qed

lemma loop:
  assumes env: "sess_env_ok env"
  shows "clean_inv proto B K cb x (t, rms, probes, s) \<Longrightarrow> timer_list x t = ps \<Longrightarrow> distinct ps \<Longrightarrow>
    W = takeWhile (session_expired (jiffies s) timeout (sview s)) ps \<Longrightarrow>
    \<exists>t' rms' probes' s'. list_each (session_cleaner_body env x timeout) ps (t, rms, probes, s) = Some (t', rms', probes', s') \<and>
      clean_inv proto B K cb x (t', rms', probes', s') \<and>
      timer_list x t' = dropWhile (session_expired (jiffies s) timeout (sview s)) ps \<and>
      stable_nodes t' = stable_nodes t - {p \<in> set W. expired_fate cb (jiffies s) (sview s) p = Some FATE_RM} \<and>
      (\<forall>y. pending y t \<longrightarrow> pending y t') \<and> (\<forall>q. q \<notin> set W \<longrightarrow> sview s q \<noteq> None \<longrightarrow> sview s' q = sview s q) \<and> ref_only s s' \<and>
      et_get_timeout (get_expirer x t') = et_get_timeout (get_expirer x t)"
proof (induction ps arbitrary: t rms probes s W)
  case Nil
  then show ?case by simp
next
  case (Cons p ps)
  let ?exp = "session_expired (jiffies s) timeout (sview s)" and ?fate = "expired_fate cb (jiffies s) (sview s)"
  have p: "p \<in> set (timer_list x t)" using Cons.prems(2) by simp
  show ?case
  proof (cases "?exp p")
    case False
    then show ?thesis using body_break [OF Cons.prems(1) p False, of env] Cons.prems by simp
  next
    case True
    obtain t1 rms1 probes1 s1 where b: "session_cleaner_body env x timeout p (t, rms, probes, s) = Some (False, t1, rms1, probes1, s1)"
      "clean_inv proto B K cb x (t1, rms1, probes1, s1)" "timer_list x t1 = remove1 p (timer_list x t)"
      "stable_nodes t1 = stable_nodes t - (if ?fate p = Some FATE_RM then {p} else {})"
      "\<And>y. pending y t \<Longrightarrow> pending y t1" "\<And>q. q \<noteq> p \<Longrightarrow> sview s q \<noteq> None \<Longrightarrow> sview s1 q = sview s q" "sview s1 p \<noteq> None" "ref_only s s1"
      "et_get_timeout (get_expirer x t1) = et_get_timeout (get_expirer x t)"
      by (rule body_expired [OF env Cons.prems(1) p True]) (rule that)
    have tl: "timer_list x t1 = ps" using b(3) Cons.prems(2) by simp
    have pd: "p \<notin> set ps" "distinct ps" using Cons.prems(3) by simp_all
    have j: "jiffies s1 = jiffies s" using ref_only_frame [OF b(8)] by (simp add: pktq_frame_def)
    have same: "sview s1 q = sview s q" if "q \<in> set ps" for q
    proof (rule b(6))
      show "q \<noteq> p" using that pd(1) by blast
      have "tab_ok proto B (mset rms + mset probes + K) t s" using Cons.prems(1) by (simp add: clean_inv_def)
      moreover have "q \<in> set (timer_list x t)" using that Cons.prems(2) by simp
      ultimately show "sview s q \<noteq> None" using stable_ok_list(2) [of proto "sview s" t q x] by (auto simp: tab_ok_def)
    qed
    define W' where "W' = takeWhile ?exp ps"
    have ex: "session_expired (jiffies s1) timeout (sview s1) q = ?exp q" "expired_fate cb (jiffies s1) (sview s1) q = ?fate q" if "q \<in> set ps" for q
      using same [OF that] by (simp_all add: session_expired_def expired_fate_def j)
    have W': "W' = takeWhile (session_expired (jiffies s1) timeout (sview s1)) ps"
      unfolding W'_def by (rule takeWhile_cong) (simp_all add: ex)
    have dw: "dropWhile (session_expired (jiffies s1) timeout (sview s1)) ps = dropWhile ?exp ps"
      by (rule dropWhile_cong) (simp_all add: ex)
    have W: "W = p # W'" "set W' \<subseteq> set ps" using True Cons.prems(4) by (auto simp: W'_def dest: set_takeWhileD)
    from Cons.IH [OF b(2) tl pd(2) W'] obtain t' rms' probes' s' where i:
      "list_each (session_cleaner_body env x timeout) ps (t1, rms1, probes1, s1) = Some (t', rms', probes', s')"
      "clean_inv proto B K cb x (t', rms', probes', s')" "timer_list x t' = dropWhile ?exp ps"
      "stable_nodes t' = stable_nodes t1 - {p \<in> set W'. expired_fate cb (jiffies s1) (sview s1) p = Some FATE_RM}"
      "\<forall>y. pending y t1 \<longrightarrow> pending y t'" "\<forall>q. q \<notin> set W' \<longrightarrow> sview s1 q \<noteq> None \<longrightarrow> sview s' q = sview s1 q" "ref_only s1 s'"
      "et_get_timeout (get_expirer x t') = et_get_timeout (get_expirer x t1)" unfolding dw by blast
    have "{p \<in> set W'. expired_fate cb (jiffies s1) (sview s1) p = Some FATE_RM} = {p \<in> set W'. ?fate p = Some FATE_RM}"
      using ex(2) W(2) by auto
    then have nodes: "stable_nodes t' = stable_nodes t - {p \<in> set W. ?fate p = Some FATE_RM}"
      using i(4) b(4) W(1) by auto
    have "sview s' q = sview s q" if "q \<notin> set W" "sview s q \<noteq> None" for q
      using i(6) b(6) [of q] that W(1) by simp
    then show ?thesis
      using b(1,5,9) i(1-3,5,8) nodes ref_only_trans [OF b(8) i(7)] True by simp
  qed
qed

lemma loop_list:
  assumes env: "sess_env_ok env" and inv: "clean_inv proto B K cb x (t, rms, probes, s)"
  shows "list_for_each_safe (\<lambda>(table, _). et_sessions (get_expirer x table)) (session_cleaner_body env x timeout)
      (first_of (timer_list x t)) (t, rms, probes, s) = list_each (session_cleaner_body env x timeout) (timer_list x t) (t, rms, probes, s)"
proof (rule list_for_each_safe_list [where I = "clean_inv proto B K cb x" and pre = "[]"])
  fix p and st st' :: "'a pktq_db_scheme fate_loop" and pre rest
  assume a: "clean_inv proto B K cb x st" "(case st of (table, _) \<Rightarrow> et_sessions (get_expirer x table)) = pre @ p # rest"
    "distinct (case st of (table, _) \<Rightarrow> et_sessions (get_expirer x table))" "session_cleaner_body env x timeout p st = Some (False, st')"
  obtain t0 r0 p0 s0 where st: "st = (t0, r0, p0, s0)" by (cases st) auto
  have l: "timer_list x t0 = pre @ p # rest" "distinct (timer_list x t0)" using a(2,3) by (simp_all add: st timer_list_def)
  then have p: "p \<in> set (timer_list x t0)" by simp
  have old: "session_expired (jiffies s0) timeout (sview s0) p"
    using body_break [OF a(1) [unfolded st] p, of timeout env] a(4) st by auto
  obtain t1 rms1 probes1 s1 where b: "session_cleaner_body env x timeout p (t0, r0, p0, s0) = Some (False, t1, rms1, probes1, s1)"
    "clean_inv proto B K cb x (t1, rms1, probes1, s1)" "timer_list x t1 = remove1 p (timer_list x t0)"
    by (rule body_expired [OF env a(1) [unfolded st] p old]) blast
  have "st' = (t1, rms1, probes1, s1)" using a(4) b(1) st by simp
  moreover have "timer_list x t1 = pre @ rest" "distinct (pre @ rest)" using b(3) l by (simp_all add: remove1_append)
  ultimately show "clean_inv proto B K cb x st' \<and> (\<exists>pre'. (case st' of (table, _) \<Rightarrow> et_sessions (get_expirer x table)) = pre' @ rest) \<and>
      distinct (case st' of (table, _) \<Rightarrow> et_sessions (get_expirer x table))"
    using b(2) by (auto simp: timer_list_def)
next
  have "stable_ok proto (sview s) t" using inv by (simp add: clean_inv_def tab_ok_def)
  then show "distinct (case (t, rms, probes, s) of (table, _) \<Rightarrow> et_sessions (get_expirer x table))"
    using stable_ok_distinct(3) by (simp add: timer_list_def)
qed (use inv in \<open>simp_all add: timer_list_def\<close>)

lemma rescheduled:
  assumes ok: "tab_ok proto B K t s" and gt: "et_get_timeout (get_expirer x t) \<noteq> None"
  obtains t' where "(if et_sessions (get_expirer x t) \<noteq> [] then do { timer \<leftarrow> reschedule env s (get_expirer x t); Some (put_expirer x timer t) }
      else Some t) = Some t'" "tab_ok proto B K t' s" "\<And>y. timer_list y t' = timer_list y t" "stable_nodes t' = stable_nodes t"
    "\<And>y. y = x \<or> pending y t \<Longrightarrow> pending y t'" "tab_refs t' = tab_refs t"
proof (cases "timer_list x t = []")
  case True
  show ?thesis by (rule that [of t]) (use ok True in \<open>auto simp: timer_list_def pending_def\<close>)
next
  case False
  have st: "stable_ok proto (sview s) t" "cbs_ok proto t" using ok by (simp_all add: tab_ok_def)
  have live: "\<exists>e. sessions s p = Some e" if "p \<in> set (et_sessions (get_expirer x t))" for p
    using tab_ok_live_pos [OF ok stable_ok_list(1) [OF st(1) that [folded timer_list_def]]] by simp
  obtain ex where ex: "reschedule env s (get_expirer x t) = Some ex" "et_sessions ex = timer_list x t"
    "et_get_timeout ex = et_get_timeout (get_expirer x t)" "et_decide_fate_cb ex = et_decide_fate_cb (get_expirer x t)"
    "timer_list x t \<noteq> [] \<Longrightarrow> et_timer ex \<noteq> None"
    by (rule reschedule_ok [OF live gt, of env]) (assumption, (rule that; simp add: timer_list_def))
  define t' where "t' = put_expirer x ex t"
  have tl: "timer_list y t' = timer_list y t" for y using ex(2) by (simp add: t'_def)
  have "stable_ok proto (sview s) t'" by (rule stable_ok_trees [OF st(1)]) (simp_all add: t'_def ex(2))
  moreover have "cbs_ok proto t'" using cbs_ok_cong [of t' t proto] ex(3,4) st(2) by (simp add: t'_def)
  ultimately have "tab_ok proto B K t' s" using ok by (simp add: tab_ok_def tab_refs_def t'_def)
  moreover have "pending y t'" if "y = x \<or> pending y t" for y using that ex(2,5) False by (auto simp: pending_def t'_def)
  ultimately show ?thesis
    by (intro that [of t']) (use ex(1) False tl in \<open>simp_all add: t'_def timer_list_def tab_refs_def\<close>)
qed

lemma cleaner_ok:
  assumes env: "sess_env_ok env" and ok: "tab_ok proto B K t s" and cb: "et_decide_fate_cb (get_expirer x t) = Some cb"
    and gt: "et_get_timeout (get_expirer x t) = Some tmo"
    and W: "W = takeWhile (session_expired (jiffies s) (tmo (ev_cfg env)) (sview s)) (timer_list x t)"
  obtains t' s' where "session_cleaner_timer env x t s = Some (t', s')"
    "clean_effect proto B K t s x W {p \<in> set W. expired_fate cb (jiffies s) (sview s) p = Some FATE_RM} t' s'"
proof -
  let ?exp = "session_expired (jiffies s) (tmo (ev_cfg env)) (sview s)"
  let ?R = "{p \<in> set W. expired_fate cb (jiffies s) (sview s) p = Some FATE_RM}"
  have st: "stable_ok proto (sview s) t" using ok by (simp add: tab_ok_def)
  have inv: "clean_inv proto B K cb x (t, [], [], s)" using ok cb by (simp add: clean_inv_def)
  from loop [OF env inv refl stable_ok_distinct(3) [OF st] W] obtain t1 rms probes s1 where l:
    "list_each (session_cleaner_body env x (tmo (ev_cfg env))) (timer_list x t) (t, [], [], s) = Some (t1, rms, probes, s1)"
    "clean_inv proto B K cb x (t1, rms, probes, s1)" "timer_list x t1 = dropWhile ?exp (timer_list x t)"
    "stable_nodes t1 = stable_nodes t - ?R" "\<forall>y. pending y t \<longrightarrow> pending y t1"
    "\<forall>q. q \<notin> set W \<longrightarrow> sview s q \<noteq> None \<longrightarrow> sview s1 q = sview s q" "ref_only s s1"
    "et_get_timeout (get_expirer x t1) = et_get_timeout (get_expirer x t)" by blast
  have ok1: "tab_ok proto B (mset rms + mset probes + K) t1 s1" using l(2) by (simp add: clean_inv_def)
  have gt1: "et_get_timeout (get_expirer x t1) \<noteq> None" using l(8) gt by simp
  obtain t2 where t2: "(if et_sessions (get_expirer x t1) \<noteq> [] then do { timer \<leftarrow> reschedule env s1 (get_expirer x t1); Some (put_expirer x timer t1) }
      else Some t1) = Some t2" "tab_ok proto B (mset rms + mset probes + K) t2 s1" "\<And>y. timer_list y t2 = timer_list y t1"
    "stable_nodes t2 = stable_nodes t1" "\<And>y. y = x \<or> pending y t1 \<Longrightarrow> pending y t2" "tab_refs t2 = tab_refs t1"
    by (rule rescheduled [OF ok1 gt1]) (rule that)
  have "pktq_ok [] B (mset rms + mset probes + (tab_refs t2 + K)) s1" using t2(2) by (simp add: tab_ok_def ac_simps)
  then obtain s2 where s2: "post_fate env rms probes s1 = Some s2" "pktq_ok [] B (tab_refs t2 + K) s2" "sview s2 \<subseteq>\<^sub>m sview s1" "pktq_frame s1 s2"
    "queue_same s1 s2" by (rule post_fate_ok [OF env])
  note le = map_le_cases [OF s2(3)]
  have tab: "tab_ok proto B K t2 s2" by (rule tab_ok_shrink [OF t2(2) s2(2)]) (rule le)
  have qs: "queue_same s s2" using ref_only_queue [OF l(7)] s2(5) by (simp add: queue_same_def)
  have "touches (set W) s s2"
  proof (rule touchesI)
    show "pktq_frame s s2" using pktq_frame_trans [OF ref_only_frame [OF l(7)] s2(4)] .
    show "pktq_timer_ok s \<Longrightarrow> pktq_timer_ok s2" using queue_same_timer [OF qs] by simp
    show "sview s2 q = sview s q \<or> sview s2 q = None" if q: "q \<notin> set W" for q
    proof (cases "sview s q = None")
      case True
      then have "q \<notin># node_refs [] s + (tab_refs t + K)"
        using pktq_ok_live [of "[]" B "tab_refs t + K" s q] ok by (simp add: tab_ok_def sview_None_iff)
      moreover have "set_mset (tab_refs t2) \<subseteq> set_mset (tab_refs t)"
        using l(4) t2(4) by (auto simp: tab_refs_def stable_nodes_def)
      ultimately have "q \<notin># node_refs [] s2 + (tab_refs t2 + K)" unfolding queue_same_refs [OF qs] by auto
      then show ?thesis using pktq_ok_live [OF s2(2), of q] by (simp add: sview_None_iff)
    next
      case False
      then have "sview s1 q = sview s q" using l(6) q by blast
      then show ?thesis using le [of q] by (elim disjE) simp_all
    qed
  qed
  then have "clean_effect proto B K t s x W ?R t2 s2"
    using tab l(3-5) t2(3-5) qs W by (auto simp: clean_effect_def)
  moreover have "session_cleaner_timer env x t s = Some (t2, s2)"
    using gt loop_list [OF env inv, of "tmo (ev_cfg env)"] l(1) t2(1) s2(1)
    by (simp add: session_cleaner_timer_def Let_def timer_list_def)
  ultimately show ?thesis using that by blast
qed

end

end
