(* ===== verification/Session_Db.thy ===== *)
theory Session_Db
  imports Session_Clean
begin

text \<open>
  The session database (\<^verbatim>\<open>mod/stateful/session/db.c\<close>): three tables and the packet queue, with one
  invariant over all of it. The state is the BIB's, the port allocator's, the sessions', the queue's
  and the tables'.
\<close>

section \<open>Operations\<close>

record session_db = pktq_db +
  session_table_udp :: session_table
  session_table_tcp :: session_table
  session_table_icmp :: session_table

definition sess_get_table :: "l4_protocol \<Rightarrow> 'a session_db_scheme \<Rightarrow> session_table option" where
  "sess_get_table l4_proto s =
     (case l4_proto of
        L4PROTO_UDP \<Rightarrow> Some (session_table_udp s)
      | L4PROTO_TCP \<Rightarrow> Some (session_table_tcp s)
      | L4PROTO_ICMP \<Rightarrow> Some (session_table_icmp s)
      | L4PROTO_OTHER \<Rightarrow> None)"

definition sess_put_table :: "l4_protocol \<Rightarrow> session_table \<Rightarrow> 'a session_db_scheme \<Rightarrow> 'a session_db_scheme" where
  "sess_put_table l4_proto table s =
     (case l4_proto of
        L4PROTO_UDP \<Rightarrow> s\<lparr>session_table_udp := table\<rparr>
      | L4PROTO_TCP \<Rightarrow> s\<lparr>session_table_tcp := table\<rparr>
      | L4PROTO_ICMP \<Rightarrow> s\<lparr>session_table_icmp := table\<rparr>
      | L4PROTO_OTHER \<Rightarrow> s)"

definition just_die :: fate_cb where
  "just_die now arg session = Some (session, FATE_RM)"

text \<open>\<^verbatim>\<open>session_init\<close> creates the slab cache; its outcome is the argument \<open>cache\<close>.\<close>

definition sessiondb_init :: "status \<Rightarrow> fate_cb \<Rightarrow> fate_cb \<Rightarrow> 'a session_db_scheme \<Rightarrow> status \<times> 'a session_db_scheme" where
  "sessiondb_init cache tcpest_fn tcptrans_fn s =
     (if cache \<noteq> Ok then (cache, s)
      else case pktqueue_init s of (error, s1) \<Rightarrow>
        if error \<noteq> Ok then (error, s1)
        else (Ok, s1\<lparr>session_table_udp := sessiontable_init (Some config_get_ttl_udp) (Some just_die) None None,
                     session_table_tcp := sessiontable_init (Some config_get_ttl_tcpest) (Some tcpest_fn)
                       (Some config_get_ttl_tcptrans) (Some tcptrans_fn),
                     session_table_icmp := sessiontable_init (Some config_get_ttl_icmp) (Some just_die) None None\<rparr>))"

definition sess_on_table :: "(session_table \<Rightarrow> 'a session_db_scheme \<Rightarrow> (session_table \<times> 'a session_db_scheme) option) \<Rightarrow>
    l4_protocol \<Rightarrow> 'a session_db_scheme \<Rightarrow> 'a session_db_scheme option" where
  "sess_on_table f l4_proto s =
     do { table \<leftarrow> sess_get_table l4_proto s;
          (table', s') \<leftarrow> f table s;
          Some (sess_put_table l4_proto table' s') }"

definition sessiondb_destroy :: "sess_env \<Rightarrow> 'a session_db_scheme \<Rightarrow> 'a session_db_scheme option" where
  "sessiondb_destroy env s =
     do { s1 \<leftarrow> sess_on_table (sessiontable_destroy (ev_rb env)) L4PROTO_UDP s;
          s2 \<leftarrow> sess_on_table (sessiontable_destroy (ev_rb env)) L4PROTO_TCP s1;
          s3 \<leftarrow> sess_on_table (sessiontable_destroy (ev_rb env)) L4PROTO_ICMP s2;
          pktqueue_destroy env s3 }"

definition sessiondb_get :: "sess_env \<Rightarrow> tuple \<Rightarrow> fate_cb option \<Rightarrow> packet option \<Rightarrow> 'a session_db_scheme \<Rightarrow>
    ((errno + ptr) \<times> 'a session_db_scheme) option" where
  "sessiondb_get env tuple cb pkt s =
     (case sess_get_table (t_l4_proto tuple) s of
        None \<Rightarrow> Some (Inl EINVAL, s)
      | Some table \<Rightarrow>
          do { (r, table', s') \<leftarrow> sessiontable_get env table tuple cb pkt s;
               Some (r, sess_put_table (t_l4_proto tuple) table' s') })"

definition sessiondb_allow :: "tuple \<Rightarrow> 'a session_db_scheme \<Rightarrow> bool option" where
  "sessiondb_allow tuple4 s =
     (case sess_get_table (t_l4_proto tuple4) s of
        None \<Rightarrow> Some False
      | Some table \<Rightarrow> sessiontable_allow table tuple4 s)"

definition sessiondb_add :: "sess_env \<Rightarrow> ptr \<Rightarrow> bool \<Rightarrow> 'a session_db_scheme \<Rightarrow> (status \<times> 'a session_db_scheme) option" where
  "sessiondb_add env session is_est s =
     do { e \<leftarrow> sessions s session;
          (case sess_get_table (se_l4_proto e) s of
             None \<Rightarrow> Some (Err EINVAL, s)
           | Some table \<Rightarrow>
               do { (r, table', s') \<leftarrow> sessiontable_add env table session is_est s;
                    Some (r, sess_put_table (se_l4_proto e) table' s') }) }"

definition sessiondb_foreach :: "ptr rb_ops \<Rightarrow> l4_protocol \<Rightarrow> (session_entry \<Rightarrow> 'b \<Rightarrow> status \<times> 'b) \<Rightarrow>
    ipv4_transport_addr option \<Rightarrow> ipv4_transport_addr option \<Rightarrow> 'a session_db_scheme \<Rightarrow> 'b \<Rightarrow> (status \<times> 'b) option" where
  "sessiondb_foreach ops proto func offset_remote offset_local s arg =
     (case sess_get_table proto s of
        None \<Rightarrow> Some (Err EINVAL, arg)
      | Some table \<Rightarrow> sessiontable_foreach ops table func offset_remote offset_local s arg)"

definition sessiondb_count :: "l4_protocol \<Rightarrow> 'a session_db_scheme \<Rightarrow> errno + u64" where
  "sessiondb_count proto s =
     (case sess_get_table proto s of None \<Rightarrow> Inl EINVAL | Some table \<Rightarrow> Inr (sessiontable_count table))"

definition sessiondb_delete_by_bib :: "ptr rb_ops \<Rightarrow> ptr \<Rightarrow> 'a session_db_scheme \<Rightarrow> (status \<times> 'a session_db_scheme) option" where
  "sessiondb_delete_by_bib ops bib s =
     do { b \<leftarrow> bibs s bib;
          (case sess_get_table (b_l4_proto b) s of
             None \<Rightarrow> Some (Err EINVAL, s)
           | Some _ \<Rightarrow>
               do { s' \<leftarrow> sess_on_table (\<lambda>table. sessiontable_delete_by_bib ops table bib) (b_l4_proto b) s;
                    Some (Ok, s') }) }"

definition sessiondb_delete_taddr4s :: "ptr rb_ops \<Rightarrow> ipv4_prefix \<Rightarrow> port_range \<Rightarrow> 'a session_db_scheme \<Rightarrow>
    'a session_db_scheme option" where
  "sessiondb_delete_taddr4s ops prefix ports s =
     do { s1 \<leftarrow> sess_on_table (\<lambda>t. sessiontable_delete_taddr4s ops t prefix ports) L4PROTO_TCP s;
          s2 \<leftarrow> sess_on_table (\<lambda>t. sessiontable_delete_taddr4s ops t prefix ports) L4PROTO_ICMP s1;
          sess_on_table (\<lambda>t. sessiontable_delete_taddr4s ops t prefix ports) L4PROTO_UDP s2 }"

definition sessiondb_delete_taddr6s :: "ptr rb_ops \<Rightarrow> ipv6_prefix \<Rightarrow> 'a session_db_scheme \<Rightarrow> 'a session_db_scheme option" where
  "sessiondb_delete_taddr6s ops prefix s =
     do { s1 \<leftarrow> sess_on_table (\<lambda>t. sessiontable_delete_taddr6s ops t prefix) L4PROTO_TCP s;
          s2 \<leftarrow> sess_on_table (\<lambda>t. sessiontable_delete_taddr6s ops t prefix) L4PROTO_ICMP s1;
          sess_on_table (\<lambda>t. sessiontable_delete_taddr6s ops t prefix) L4PROTO_UDP s2 }"

definition sessiondb_flush :: "ptr rb_ops \<Rightarrow> 'a session_db_scheme \<Rightarrow> 'a session_db_scheme option" where
  "sessiondb_flush ops s =
     do { s1 \<leftarrow> sess_on_table (sessiontable_flush ops) L4PROTO_UDP s;
          s2 \<leftarrow> sess_on_table (sessiontable_flush ops) L4PROTO_TCP s1;
          sess_on_table (sessiontable_flush ops) L4PROTO_ICMP s2 }"

definition update_timers_of :: "sess_env \<Rightarrow> session_table \<Rightarrow> 'a session_db_scheme \<Rightarrow>
    (session_table \<times> 'a session_db_scheme) option" where
  "update_timers_of env table s = map_option (\<lambda>table'. (table', s)) (sessiontable_update_timers env table s)"

definition sessiondb_update_timers :: "sess_env \<Rightarrow> 'a session_db_scheme \<Rightarrow> 'a session_db_scheme option" where
  "sessiondb_update_timers env s =
     do { s1 \<leftarrow> sess_on_table (update_timers_of env) L4PROTO_UDP s;
          s2 \<leftarrow> sess_on_table (update_timers_of env) L4PROTO_TCP s1;
          sess_on_table (update_timers_of env) L4PROTO_ICMP s2 }"

text \<open>The kernel detaches a timer before it calls its function.\<close>

definition session_timer_fires :: "sess_env \<Rightarrow> expirer \<Rightarrow> session_table \<Rightarrow> 'a session_db_scheme \<Rightarrow>
    (session_table \<times> 'a session_db_scheme) option" where
  "session_timer_fires env x table s =
     session_cleaner_timer env x (put_expirer x ((get_expirer x table)\<lparr>et_timer := None\<rparr>) table) s"

section \<open>The invariant\<close>

definition sess_refs :: "'a session_db_scheme \<Rightarrow> ptr multiset" where
  "sess_refs s = tab_refs (session_table_udp s) + tab_refs (session_table_tcp s) + tab_refs (session_table_icmp s)"

definition other_refs :: "l4_protocol \<Rightarrow> 'a session_db_scheme \<Rightarrow> ptr multiset" where
  "other_refs proto s =
     (case proto of
        L4PROTO_UDP \<Rightarrow> tab_refs (session_table_tcp s) + tab_refs (session_table_icmp s)
      | L4PROTO_TCP \<Rightarrow> tab_refs (session_table_udp s) + tab_refs (session_table_icmp s)
      | L4PROTO_ICMP \<Rightarrow> tab_refs (session_table_udp s) + tab_refs (session_table_tcp s)
      | L4PROTO_OTHER \<Rightarrow> sess_refs s)"

text \<open>
  \<open>B\<close> and \<open>K\<close> are the references to BIB entries and sessions that are held outside of the database,
  by packets on their way or, for \<open>B\<close>, by the user who made an entry static.
\<close>

definition sess_ok :: "ptr multiset \<Rightarrow> ptr multiset \<Rightarrow> 'a session_db_scheme \<Rightarrow> bool" where
  "sess_ok B K s \<longleftrightarrow> pktq_ok [] B (sess_refs s + K) s \<and> pktq_timer_ok s \<and>
     (\<forall>proto t. sess_get_table proto s = Some t \<longrightarrow>
        stable_ok proto (sview s) t \<and> cbs_ok proto t \<and> pending Est_timer t \<and> pending Trans_timer t)"

lemma sess_get_put_table [simp]:
  "sess_get_table p (sess_put_table q t s) = (if p = q then map_option (\<lambda>_. t) (sess_get_table p s) else sess_get_table p s)"
  by (cases p; cases q) (auto simp: sess_get_table_def sess_put_table_def)

lemma sess_get_table_None_iff: "sess_get_table proto s = None \<longleftrightarrow> proto = L4PROTO_OTHER"
  by (cases proto) (auto simp: sess_get_table_def)

lemma sess_put_table_fields [simp]:
  "bibs (sess_put_table p t s) = bibs s" "sessions (sess_put_table p t s) = sessions s" "jiffies (sess_put_table p t s) = jiffies s"
  "outs (sess_put_table p t s) = outs s" "nodes (sess_put_table p t s) = nodes s" "node_list (sess_put_table p t s) = node_list s"
  "node_tree (sess_put_table p t s) = node_tree s" "node_count (sess_put_table p t s) = node_count s"
  "pq_timer (sess_put_table p t s) = pq_timer s" "bib_tcp (sess_put_table p t s) = bib_tcp s" "bib_udp (sess_put_table p t s) = bib_udp s"
  "bib_icmp (sess_put_table p t s) = bib_icmp s"
  by (cases p; simp add: sess_put_table_def)+

lemma sview_put [simp]: "sview (sess_put_table p t s) = sview s"
  by (rule ext) (simp add: sview_def)

lemma bib_get_table_put [simp]: "bib_get_table q (sess_put_table p t s) = bib_get_table q s"
  by (cases q) (simp_all add: bib_get_table_def)

lemma bib_wf_put [simp]: "bib_wf (sess_put_table p t s) = bib_wf s"
  by (simp add: bib_wf_def bib_db_ok_def bib_live_def)

lemma pktq_ok_put [simp]: "pktq_ok X B K (sess_put_table p t s) = pktq_ok X B K s"
  by (simp add: pktq_ok_def pktq_wf_def refs_ok_def node_refs_def sess_count_def bib_count_def)

lemma pktq_timer_ok_put [simp]: "pktq_timer_ok (sess_put_table p t s) = pktq_timer_ok s"
  by (simp add: pktq_timer_ok_def)

lemma sess_refs_split: "sess_get_table proto s = Some t \<Longrightarrow> sess_refs s = tab_refs t + other_refs proto s"
  by (cases proto) (auto simp: sess_get_table_def sess_refs_def other_refs_def ac_simps)

lemma other_refs_put [simp]: "other_refs proto (sess_put_table proto t s) = other_refs proto s"
  by (cases proto) (simp_all add: other_refs_def sess_put_table_def)

lemma frame_tables:
  assumes "pktq_frame s s'"
  shows "sess_get_table proto s' = sess_get_table proto s" "other_refs proto s' = other_refs proto s" "sess_refs s' = sess_refs s"
  using assms by (cases s; cases s'; cases proto; simp add: pktq_frame_def sess_get_table_def other_refs_def sess_refs_def)+

lemma other_refs_mem:
  assumes "sess_get_table proto' s = Some u" "proto' \<noteq> proto" "q \<in> stable_nodes u"
  shows "q \<in># other_refs proto s"
  using assms by (cases proto; cases proto') (auto simp: sess_get_table_def other_refs_def tab_refs_def stable_nodes_def sess_refs_def)

lemma sess_ok_tab:
  assumes "sess_ok B K s" "sess_get_table proto s = Some t"
  shows "tab_ok proto B (other_refs proto s + K) t s" "pending x t"
  using assms sess_refs_split [OF assms(2)] by (cases x; simp add: sess_ok_def tab_ok_def ac_simps)+

text \<open>Putting back a table after an operation that wrote to sessions of its protocol only.\<close>

lemma sess_ok_put:
  assumes ok: "sess_ok B K s" and t: "sess_get_table proto s = Some t"
    and t': "tab_ok proto B' (other_refs proto s + K') t' s'" "\<And>y. pending y t'"
    and touch: "touches A s s'" and A: "\<And>q e. q \<in> A \<Longrightarrow> sview s q = Some e \<Longrightarrow> se_l4_proto e = proto"
  shows "sess_ok B' K' (sess_put_table proto t' s')"
proof -
  note fr = frame_tables [OF touchesD(1) [OF touch]]
  have pq: "pktq_ok [] B' (tab_refs t' + (other_refs proto s + K')) s'" using t'(1) by (simp add: tab_ok_def)
  have get': "sess_get_table proto (sess_put_table proto t' s') = Some t'" using t fr(1) by simp
  have refs: "sess_refs (sess_put_table proto t' s') = tab_refs t' + other_refs proto s"
    using sess_refs_split [OF get'] fr(2) by simp
  have other: "stable_ok p (sview s') u \<and> cbs_ok p u \<and> pending Est_timer u \<and> pending Trans_timer u"
    if u: "sess_get_table p s = Some u" and p: "p \<noteq> proto" for p u
  proof -
    have uok: "stable_ok p (sview s) u" "cbs_ok p u" "pending Est_timer u" "pending Trans_timer u" using ok u by (simp_all add: sess_ok_def)
    have "sview s' q = sview s q" if q: "q \<in> stable_nodes u" for q
    proof -
      have "q \<notin> A" using A stable_okD [OF uok(1) q] p by metis
      moreover have "sessions s' q \<noteq> None"
        using pktq_ok_live [OF pq, of q] other_refs_mem [OF u p q] by auto
      ultimately show ?thesis using touchesD(3) [OF touch, of q] by (auto simp: sview_None_iff)
    qed
    then show ?thesis using stable_ok_cong [OF uok(1), of "sview s'"] uok(2-4) by simp
  qed
  show ?thesis
    unfolding sess_ok_def
  proof (intro conjI allI impI)
    show "pktq_ok [] B' (sess_refs (sess_put_table proto t' s') + K') (sess_put_table proto t' s')"
      using pq by (simp add: refs ac_simps)
    show "pktq_timer_ok (sess_put_table proto t' s')" using touchesD(2) [OF touch] ok by (simp add: sess_ok_def)
    fix p u assume "sess_get_table p (sess_put_table proto t' s') = Some u"
    then have "if p = proto then u = t' else sess_get_table p s = Some u" using t fr(1) by (simp split: if_splits)
    then have "stable_ok p (sview s') u \<and> cbs_ok p u \<and> pending Est_timer u \<and> pending Trans_timer u"
      using t' other [of p u] by (simp add: tab_ok_def split: if_splits)
    then show "stable_ok p (sview (sess_put_table proto t' s')) u" "cbs_ok p u" "pending Est_timer u" "pending Trans_timer u"
      by simp_all
  qed
qed

section \<open>Removing sessions\<close>

text \<open>The sessions in a table, counters apart.\<close>

definition db_nodes :: "l4_protocol \<Rightarrow> 'a session_db_scheme \<Rightarrow> ptr set" where
  "db_nodes proto s = (case sess_get_table proto s of None \<Rightarrow> {} | Some t \<Rightarrow> stable_nodes t)"

definition db_view :: "l4_protocol \<Rightarrow> 'a session_db_scheme \<Rightarrow> session_heap" where
  "db_view proto s = sview s |` db_nodes proto s"

definition drop_sessions :: "(session_entry \<Rightarrow> bool) \<Rightarrow> session_heap \<Rightarrow> session_heap" where
  "drop_sessions P v q = (case v q of None \<Rightarrow> None | Some e \<Rightarrow> if P e then None else Some e)"

lemma sess_ok_live:
  assumes "sess_ok B K s" "q \<in> db_nodes proto s"
  shows "sessions s q \<noteq> None" "q \<in># sess_refs s"
proof -
  obtain t where t: "sess_get_table proto s = Some t" "q \<in> stable_nodes t" using assms(2) by (auto simp: db_nodes_def split: option.splits)
  then show r: "q \<in># sess_refs s" using sess_refs_split [OF t(1)] by (simp add: tab_refs_def stable_nodes_def)
  have "pktq_ok [] B (sess_refs s + K) s" using assms(1) by (simp add: sess_ok_def)
  then show "sessions s q \<noteq> None" using r pktq_ok_live [of "[]" B "sess_refs s + K" s q] by auto
qed

lemma db_nodes_proto:
  assumes "sess_ok B K s" "q \<in> db_nodes proto s" "sview s q = Some e"
  shows "se_l4_proto e = proto" "se_bib e \<noteq> None"
proof -
  obtain t where t: "sess_get_table proto s = Some t" "q \<in> stable_nodes t" using assms(2) by (auto simp: db_nodes_def split: option.splits)
  have st: "stable_ok proto (sview s) t" using assms(1) t(1) by (simp add: sess_ok_def)
  show "se_l4_proto e = proto" "se_bib e \<noteq> None"
    using stable_ok_entry [OF st t(2) assms(3)] by (simp_all add: sess_entry_ok_def)
qed

lemma sess_on_table_remove:
  assumes ok: "sess_ok B K s" and t: "sess_get_table proto s = Some t" and f: "f t s = Some (t', s')"
    and eff: "remove_effect proto B (other_refs proto s + K) t s {q \<in> stable_nodes t. \<exists>e. sview s q = Some e \<and> P e} t' s'"
  obtains s'' where "sess_on_table f proto s = Some s''" "sess_ok B K s''"
    "\<And>p. db_view p s'' = (if p = proto then drop_sessions P (db_view p s) else db_view p s)" "pktq_timer_ok s''" "node_list s'' = node_list s"
proof -
  let ?D = "{q \<in> stable_nodes t. \<exists>e. sview s q = Some e \<and> P e}"
  define s'' where "s'' = sess_put_table proto t' s'"
  have st: "stable_ok proto (sview s) t" using ok t by (simp add: sess_ok_def)
  have e: "tab_ok proto B (other_refs proto s + K) t' s'" "stable_nodes t' = stable_nodes t - ?D" "\<And>y. pending y t'"
    "touches ?D s s'" "queue_same s s'"
    using eff sess_ok_tab(2) [OF ok t] by (simp_all add: remove_effect_def)
  have ok'': "sess_ok B K s''"
    unfolding s''_def
  proof (rule sess_ok_put [OF ok t e(1,3,4)])
    fix q e assume "q \<in> ?D" "sview s q = Some e"
    then show "se_l4_proto e = proto" using stable_ok_entry [OF st] by (auto simp: sess_entry_ok_def)
  qed
  note fr = frame_tables [OF touchesD(1) [OF e(4)]]
  have nodes: "db_nodes p s'' = (if p = proto then stable_nodes t - ?D else db_nodes p s)" for p
    using t fr(1) e(2) by (simp add: db_nodes_def s''_def)
  have same: "sview s'' q = sview s q" if q: "q \<in> db_nodes p s''" for p q
  proof -
    have "q \<notin> ?D"
    proof (cases "p = proto")
      case True
      then show ?thesis using q nodes by simp
    next
      case False
      then have "q \<in> db_nodes p s" using q nodes by simp
      then show ?thesis using db_nodes_proto(1) [OF ok] db_nodes_proto(1) [OF ok, of q proto] False t by (auto simp: db_nodes_def)
    qed
    then show ?thesis
      using touchesD(3) [OF e(4), of q] sess_ok_live(1) [OF ok'' q] by (auto simp: sview_None_iff s''_def)
  qed
  have view: "db_view p s'' = (if p = proto then drop_sessions P (db_view p s) else db_view p s)" for p
  proof
    fix q
    have n: "db_nodes proto s = stable_nodes t" using t by (simp add: db_nodes_def)
    show "db_view p s'' q = (if p = proto then drop_sessions P (db_view p s) else db_view p s) q"
    proof (cases "p = proto")
      case True
      then have n': "db_nodes p s'' = stable_nodes t - ?D" using nodes by simp
      show ?thesis
      proof (cases "q \<in> stable_nodes t - ?D")
        case True
        then show ?thesis using same [of q p] n' n \<open>p = proto\<close>
          by (cases "sview s q") (simp_all add: db_view_def drop_sessions_def)
      next
        case False
        then show ?thesis using n' n \<open>p = proto\<close>
          by (cases "sview s q") (auto simp: db_view_def restrict_map_def drop_sessions_def)
      qed
    next
      case False
      then have n': "db_nodes p s'' = db_nodes p s" using nodes by simp
      then show ?thesis using same [of q p] False by (simp add: db_view_def restrict_map_def)
    qed
  qed
  show ?thesis
  proof (rule that [of s''])
    show "sess_on_table f proto s = Some s''" using t f by (simp add: sess_on_table_def s''_def)
    show "pktq_timer_ok s''" using ok'' by (simp add: sess_ok_def)
    show "node_list s'' = node_list s" using e(5) by (simp add: queue_same_def s''_def)
  qed (rule ok'', rule view)
qed

lemma drop_sessions_cong:
  "(\<And>q e. v q = Some e \<Longrightarrow> P e = P' e) \<Longrightarrow> drop_sessions P v = drop_sessions P' v"
  by (auto simp: fun_eq_iff drop_sessions_def split: option.splits)

text \<open>One removal after the other in all three tables.\<close>

lemma sess_remove_all:
  assumes ok: "sess_ok B K s" and ps: "distinct ps" "L4PROTO_OTHER \<notin> set ps"
    and f: "\<And>proto K t s. proto \<in> set ps \<Longrightarrow> tab_ok proto B K t s \<Longrightarrow> \<exists>t' s'. f t s = Some (t', s') \<and>
      remove_effect proto B K t s {q \<in> stable_nodes t. \<exists>e. sview s q = Some e \<and> P e} t' s'"
  shows "\<exists>s'. fold (\<lambda>proto r. Option.bind r (sess_on_table f proto)) ps (Some s) = Some s' \<and> sess_ok B K s' \<and>
    (\<forall>p. db_view p s' = (if p \<in> set ps then drop_sessions P (db_view p s) else db_view p s)) \<and> node_list s' = node_list s"
  using ok ps f
proof (induction ps arbitrary: s)
  case Nil
  then show ?case by simp
next
  case (Cons proto ps)
  obtain t where t: "sess_get_table proto s = Some t" using Cons.prems(3) sess_get_table_None_iff [of proto s] by auto
  obtain t' s0 where f: "f t s = Some (t', s0)"
    "remove_effect proto B (other_refs proto s + K) t s {q \<in> stable_nodes t. \<exists>e. sview s q = Some e \<and> P e} t' s0"
    using Cons.prems(4) [OF _ sess_ok_tab(1) [OF Cons.prems(1) t]] by auto
  obtain s1 where s1: "sess_on_table f proto s = Some s1" "sess_ok B K s1"
    "\<And>p. db_view p s1 = (if p = proto then drop_sessions P (db_view p s) else db_view p s)" "pktq_timer_ok s1" "node_list s1 = node_list s"
    by (rule sess_on_table_remove [where f = f and P = P, OF Cons.prems(1) t f]) (rule that)
  obtain s' where s': "fold (\<lambda>proto r. Option.bind r (sess_on_table f proto)) ps (Some s1) = Some s'" "sess_ok B K s'"
    "\<forall>p. db_view p s' = (if p \<in> set ps then drop_sessions P (db_view p s1) else db_view p s1)" "node_list s' = node_list s1"
    using Cons.IH [OF s1(2)] Cons.prems(2-4) by auto
  then show ?case using s1 Cons.prems(2) by auto
qed

lemma db_view_other [simp]: "db_view L4PROTO_OTHER s = Map.empty"
  by (auto simp: db_view_def db_nodes_def sess_get_table_def)

lemma drop_sessions_empty [simp]: "drop_sessions P Map.empty = Map.empty"
  by (auto simp: drop_sessions_def)

lemma drop_sessions_all [simp]: "drop_sessions (\<lambda>_. True) v = Map.empty"
  by (auto simp: drop_sessions_def split: option.splits)

lemma sessiondb_flush_ok:
  assumes laws: "rb_laws ops" and ok: "sess_ok B K s"
  obtains s' where "sessiondb_flush ops s = Some s'" "sess_ok B K s'" "\<And>p. db_view p s' = Map.empty" "node_list s' = node_list s"
proof -
  have f: "\<exists>t' s'. sessiontable_flush ops t s = Some (t', s') \<and>
      remove_effect proto B K t s {q \<in> stable_nodes t. \<exists>e. sview s q = Some e \<and> True} t' s'" if a: "tab_ok proto B K t s" for proto K t s
  proof -
    have "{q \<in> stable_nodes t. \<exists>e. sview s q = Some e \<and> True} = stable_nodes t"
      using a unfolding tab_ok_def stable_ok_def by blast
    then show ?thesis using sessiontable_flush_ok [OF laws a] by metis
  qed
  obtain s' where s': "fold (\<lambda>proto r. Option.bind r (sess_on_table (sessiontable_flush ops) proto)) [L4PROTO_UDP, L4PROTO_TCP, L4PROTO_ICMP] (Some s) = Some s'"
    "sess_ok B K s'" "\<forall>p. db_view p s' = (if p \<in> set [L4PROTO_UDP, L4PROTO_TCP, L4PROTO_ICMP] then drop_sessions (\<lambda>_. True) (db_view p s) else db_view p s)"
    "node_list s' = node_list s"
    using sess_remove_all [where ps = "[L4PROTO_UDP, L4PROTO_TCP, L4PROTO_ICMP]" and f = "sessiontable_flush ops" and P = "\<lambda>_. True",
        OF ok _ _ f] by auto
  have "db_view p s' = Map.empty" for p
    using s'(3) by (cases p) simp_all
  then show ?thesis using that s'(1,2,4) by (simp add: sessiondb_flush_def)
qed

lemma sessiondb_delete_taddr4s_ok:
  assumes laws: "rb_laws ops" and ok: "sess_ok B K s" and prefix: "prefix4_wf prefix"
  obtains s' where "sessiondb_delete_taddr4s ops prefix ports s = Some s'" "sess_ok B K s'"
    "\<And>p. db_view p s' = drop_sessions (\<lambda>e. in_block prefix ports (se_local4 e)) (db_view p s)" "node_list s' = node_list s"
proof -
  let ?f = "\<lambda>t. sessiontable_delete_taddr4s ops t prefix ports" and ?ps = "[L4PROTO_TCP, L4PROTO_ICMP, L4PROTO_UDP]"
  let ?P = "\<lambda>e. in_block prefix ports (se_local4 e)"
  have f: "\<exists>t' s'. ?f t s = Some (t', s') \<and> remove_effect proto B K t s {q \<in> stable_nodes t. \<exists>e. sview s q = Some e \<and> ?P e} t' s'"
    if a: "tab_ok proto B K t s" for proto K t s
    by (rule sessiontable_delete_taddr4s_ok [OF laws a prefix, of ports]) blast
  obtain s' where s': "fold (\<lambda>proto r. Option.bind r (sess_on_table ?f proto)) ?ps (Some s) = Some s'"
    "sess_ok B K s'" "\<forall>p. db_view p s' = (if p \<in> set ?ps then drop_sessions ?P (db_view p s) else db_view p s)" "node_list s' = node_list s"
    using sess_remove_all [where ps = ?ps and f = ?f and P = ?P, OF ok _ _ f] by auto
  have "db_view p s' = drop_sessions ?P (db_view p s)" for p using s'(3) by (cases p) simp_all
  then show ?thesis using that s'(1,2,4) by (simp add: sessiondb_delete_taddr4s_def)
qed

lemma sessiondb_delete_taddr6s_ok:
  assumes laws: "rb_laws ops" and ok: "sess_ok B K s" and prefix: "prefix6_wf prefix"
  obtains s' where "sessiondb_delete_taddr6s ops prefix s = Some s'" "sess_ok B K s'"
    "\<And>p. db_view p s' = drop_sessions (\<lambda>e. prefix6_contains prefix (ta6_l3 (se_local6 e))) (db_view p s)" "node_list s' = node_list s"
proof -
  let ?f = "\<lambda>t. sessiontable_delete_taddr6s ops t prefix" and ?ps = "[L4PROTO_TCP, L4PROTO_ICMP, L4PROTO_UDP]"
  let ?P = "\<lambda>e. prefix6_contains prefix (ta6_l3 (se_local6 e))"
  have f: "\<exists>t' s'. ?f t s = Some (t', s') \<and> remove_effect proto B K t s {q \<in> stable_nodes t. \<exists>e. sview s q = Some e \<and> ?P e} t' s'"
    if a: "tab_ok proto B K t s" for proto K t s
    by (rule sessiontable_delete_taddr6s_ok [OF laws a prefix]) blast
  obtain s' where s': "fold (\<lambda>proto r. Option.bind r (sess_on_table ?f proto)) ?ps (Some s) = Some s'"
    "sess_ok B K s'" "\<forall>p. db_view p s' = (if p \<in> set ?ps then drop_sessions ?P (db_view p s) else db_view p s)" "node_list s' = node_list s"
    using sess_remove_all [where ps = ?ps and f = ?f and P = ?P, OF ok _ _ f] by auto
  have "db_view p s' = drop_sessions ?P (db_view p s)" for p using s'(3) by (cases p) simp_all
  then show ?thesis using that s'(1,2,4) by (simp add: sessiondb_delete_taddr6s_def)
qed

lemma sessiondb_delete_by_bib_ok:
  assumes laws: "rb_laws ops" and ok: "sess_ok B K s" and b: "bibs s bib = Some b"
  obtains s' where "sessiondb_delete_by_bib ops bib s = Some (Ok, s')" "sess_ok B K s'"
    "\<And>p. db_view p s' = (if p = b_l4_proto b then drop_sessions (\<lambda>e. se_local4 e = b_ipv4 b) (db_view p s) else db_view p s)"
    "node_list s' = node_list s"
proof -
  have wf: "bib_wf s" using ok by (simp add: sess_ok_def pktq_ok_def refs_ok_def)
  obtain t where t: "sess_get_table (b_l4_proto b) s = Some t"
    using bib_wf_protos [OF wf b] sess_get_table_None_iff [of "b_l4_proto b" s] by auto
  obtain t' s0 where d: "sessiontable_delete_by_bib ops t bib s = Some (t', s0)"
    "remove_effect (b_l4_proto b) B (other_refs (b_l4_proto b) s + K) t s {p \<in> stable_nodes t. \<exists>e. sview s p = Some e \<and> se_local4 e = b_ipv4 b} t' s0"
    by (rule sessiontable_delete_by_bib_ok [OF laws sess_ok_tab(1) [OF ok t] b])
  obtain s1 where s1: "sess_on_table (\<lambda>t. sessiontable_delete_by_bib ops t bib) (b_l4_proto b) s = Some s1" "sess_ok B K s1"
    "\<And>p. db_view p s1 = (if p = b_l4_proto b then drop_sessions (\<lambda>e. se_local4 e = b_ipv4 b) (db_view p s) else db_view p s)"
    "pktq_timer_ok s1" "node_list s1 = node_list s"
    by (rule sess_on_table_remove [where f = "\<lambda>t. sessiontable_delete_by_bib ops t bib" and P = "\<lambda>e. se_local4 e = b_ipv4 b", OF ok t d])
      (rule that)
  show ?thesis by (rule that [of s1]) (use s1 b t in \<open>simp_all add: sessiondb_delete_by_bib_def\<close>)
qed

section \<open>Looking up and adding\<close>

lemma sess_put_same [simp]: "sess_get_table proto s = Some t \<Longrightarrow> sess_put_table proto t s = s"
  by (cases proto) (auto simp: sess_get_table_def sess_put_table_def)

text \<open>
  The clock and the other sessions of the database stay as they are.
\<close>

definition db_frame :: "ptr \<Rightarrow> 'a session_db_scheme \<Rightarrow> 'a session_db_scheme \<Rightarrow> bool" where
  "db_frame p s s' \<longleftrightarrow> jiffies s' = jiffies s \<and> (\<forall>proto q. q \<noteq> p \<longrightarrow> db_view proto s' q = db_view proto s q)"

lemma db_frame_refl [simp]: "db_frame p s s"
  by (simp add: db_frame_def)

lemma db_frame_put:
  assumes ok: "sess_ok B K s" and ok': "sess_ok B' K' (sess_put_table proto t' s')" and t: "sess_get_table proto s = Some t"
    and touch: "touches {p} s s'" and nodes: "stable_nodes t' - {p} = stable_nodes t - {p}"
  shows "db_frame p s (sess_put_table proto t' s')"
proof -
  note fr = touchesD(1) [OF touch]
  have n: "q \<in> db_nodes pr (sess_put_table proto t' s') \<longleftrightarrow> q \<in> db_nodes pr s" if "q \<noteq> p" for pr q
    using nodes that t frame_tables(1) [OF fr] by (auto simp: db_nodes_def)
  have "db_view pr (sess_put_table proto t' s') q = db_view pr s q" if q: "q \<noteq> p" for pr q
  proof (cases "q \<in> db_nodes pr s")
    case True
    then have "sessions s' q \<noteq> None" using sess_ok_live(1) [OF ok', of q pr] n [OF q, of pr] by simp
    then have "sview s' q = sview s q" using touchesD(3) [OF touch, of q] q by (auto simp: sview_None_iff)
    then show ?thesis using True n [OF q, of pr] by (simp add: db_view_def)
  next
    case False
    then show ?thesis using n [OF q, of pr] by (simp add: db_view_def)
  qed
  moreover have "jiffies (sess_put_table proto t' s') = jiffies s" using fr by (simp add: pktq_frame_def)
  ultimately show ?thesis by (simp add: db_frame_def)
qed

definition db_matches :: "tuple \<Rightarrow> session_entry \<Rightarrow> bool" where
  "db_matches tuple e \<longleftrightarrow>
     (case t_l3_proto tuple of
        L3PROTO_IPV6 \<Rightarrow> se_local6 e = addr6 (t_dst tuple) \<and> se_remote6 e = addr6 (t_src tuple)
      | L3PROTO_IPV4 \<Rightarrow> se_local4 e = addr4 (t_dst tuple) \<and> se_remote4 e = addr4 (t_src tuple))"

lemma sess_matches_iff: "sess_matches v tuple p \<longleftrightarrow> (\<exists>e. v p = Some e \<and> db_matches tuple e)"
  by (auto simp: sess_matches_def db_matches_def sess_key6_def sess_key4_def split: l3_protocol.splits)

context fate_contract
begin

lemma db_get_ok:
  assumes env: "sess_env_ok env" and ok: "sess_ok B K s" and proto: "t_l4_proto tuple = proto" "proto \<noteq> L4PROTO_OTHER"
  obtains (missing) "sessiondb_get env tuple (Some cb) pkt s = Some (Inl ESRCH, s)" "\<And>q e. db_view proto s q = Some e \<Longrightarrow> \<not> db_matches tuple e"
    | (found) p e e1 f s' where "db_view proto s p = Some (e\<lparr>se_refcounter := 0\<rparr>)" "db_matches tuple e" "sessions s p = Some e"
      "cb (jiffies s) pkt (e\<lparr>se_refcounter := se_refcounter e + 1\<rparr>) = Some (e1, f)"
      "sessiondb_get env tuple (Some cb) pkt s = Some (Inr p, s')" "sess_ok B (add_mset p K) s'"
      "sview s' p = Some (fated f (jiffies s) e1)"
      "p \<in> db_nodes proto s' \<longleftrightarrow> f \<noteq> FATE_RM" "db_frame p s s'"
proof -
  obtain t where t: "sess_get_table proto s = Some t" using proto(2) sess_get_table_None_iff [of proto s] by auto
  note tab = sess_ok_tab(1) [OF ok t]
  show ?thesis
  proof (rule get_ok [OF env tab, where tuple = tuple])
    assume a: "sessiontable_get env t tuple (Some cb) pkt s = Some (Inl ESRCH, t, s)" "\<And>p. p \<in> stable_nodes t \<Longrightarrow> \<not> sess_matches (sview s) tuple p"
    show thesis
    proof (rule missing)
      show "sessiondb_get env tuple (Some cb) pkt s = Some (Inl ESRCH, s)" using a(1) t proto(1) by (simp add: sessiondb_get_def)
      show "\<not> db_matches tuple e" if "db_view proto s q = Some e" for q e
        using that a(2) [of q] t by (auto simp: db_view_def db_nodes_def restrict_map_def sess_matches_iff split: if_splits)
    qed
  next
    fix p e e1 f t' s1
    assume a: "p \<in> stable_nodes t" "sess_matches (sview s) tuple p" "sessions s p = Some e"
      "cb (jiffies s) pkt (e\<lparr>se_refcounter := se_refcounter e + 1\<rparr>) = Some (e1, f)"
      "sessiontable_get env t tuple (Some cb) pkt s = Some (Inr p, t', s1)"
      "get_effect proto B (add_mset p (other_refs proto s + K)) t s p e1 f t' s1"
    define s' where "s' = sess_put_table proto t' s1"
    have g: "tab_ok proto B (add_mset p (other_refs proto s + K)) t' s1" "stable_nodes t' = stable_nodes t - (if f = FATE_RM then {p} else {})"
      "\<And>y. pending y t'" "touches {p} s s1" "sview s1 p = Some (fated f (jiffies s) e1)"
      using a(6) sess_ok_tab(2) [OF ok t] by (simp_all add: get_effect_def)
    have pn: "p \<in> db_nodes proto s" using a(1) t by (simp add: db_nodes_def)
    have ok': "sess_ok B (add_mset p K) s'"
      unfolding s'_def by (rule sess_ok_put [OF ok t _ g(3,4)]) (use g(1) db_nodes_proto [OF ok pn] in simp_all)
    have v: "sview s' p = Some (fated f (jiffies s) e1)" using g(5) by (simp add: s'_def)
    have "db_frame p s s'" unfolding s'_def by (rule db_frame_put [OF ok ok' [unfolded s'_def] t g(4)]) (use g(2) in auto)
    moreover have "p \<in> db_nodes proto s' \<longleftrightarrow> f \<noteq> FATE_RM"
      using g(2) a(1) t frame_tables(1) [OF touchesD(1) [OF g(4)], of proto] by (simp add: db_nodes_def s'_def)
    moreover have "db_view proto s p = Some (e\<lparr>se_refcounter := 0\<rparr>)" "db_matches tuple e"
      using pn a(2) sview_Some [OF a(3)] by (auto simp: db_view_def sess_matches_iff db_matches_def split: l3_protocol.splits)
    moreover have "sessiondb_get env tuple (Some cb) pkt s = Some (Inr p, s')" using a(5) t proto(1) by (simp add: sessiondb_get_def s'_def)
    ultimately show thesis using found a(3,4) ok' v by blast
  qed
qed

end

lemma sessiondb_add_ok:
  assumes env: "sess_env_ok env" and ok: "sess_ok B K s" and p: "p \<in># K" "\<And>proto. p \<notin> db_nodes proto s" and e: "sessions s p = Some e"
    and e': "se_l4_proto e = proto" "proto \<noteq> L4PROTO_OTHER" "se_bib e \<noteq> None" "placed x e" and x: "x = (if est then Est_timer else Trans_timer)"
  obtains (added) s' where "sessiondb_add env p est s = Some (Ok, s')" "sess_ok B K s'" "db_frame p s s'"
      "db_view proto s' p = Some (e\<lparr>se_tree6_hook := True, se_tree4_hook := True, se_update_time := jiffies s, se_expirer := Some x,
        se_refcounter := 0\<rparr>)"
    | (dup) s' where "sessiondb_add env p est s = Some (Err EEXIST, s')" "sess_ok B K s'" "db_frame p s s'" "\<And>proto. p \<notin> db_nodes proto s'"
      "\<exists>q e'. db_view proto s q = Some e' \<and> ((se_local6 e', se_remote6 e') = (se_local6 e, se_remote6 e) \<or>
         (se_local4 e', se_remote4 e') = (se_local4 e, se_remote4 e))"
proof -
  obtain t where t: "sess_get_table proto s = Some t" using e'(2) sess_get_table_None_iff [of proto s] by auto
  note tab = sess_ok_tab(1) [OF ok t]
  have p': "p \<in># other_refs proto s + K" "p \<notin> stable_nodes t" using p(1) p(2) [of proto] t by (simp_all add: db_nodes_def)
  have pe: "q \<in> {p} \<Longrightarrow> sview s q = Some e2 \<Longrightarrow> se_l4_proto e2 = proto" for q e2 using sview_Some [OF e] e'(1) by auto
  show ?thesis
  proof (rule sessiontable_add_ok [OF env tab p' e e'(1,3,4) x])
    fix t' s1 assume a: "sessiontable_add env t p est s = Some (Ok, t', s1)" "add_effect proto B (other_refs proto s + K) t s p e x t' s1"
    define s' where "s' = sess_put_table proto t' s1"
    have g: "tab_ok proto B (other_refs proto s + K) t' s1" "stable_nodes t' = insert p (stable_nodes t)" "\<And>y. pending y t'" "touches {p} s s1"
      using a(2) sess_ok_tab(2) [OF ok t] by (simp_all add: add_effect_def)
    have ok': "sess_ok B K s'" unfolding s'_def by (rule sess_ok_put [OF ok t g(1,3,4) pe])
    have fr: "db_frame p s s'" unfolding s'_def by (rule db_frame_put [OF ok ok' [unfolded s'_def] t g(4)]) (use g(2) in auto)
    have "db_nodes proto s' = insert p (stable_nodes t)"
      using g(2) t frame_tables(1) [OF touchesD(1) [OF g(4)], of proto] by (simp add: db_nodes_def s'_def)
    then have "db_view proto s' p = Some (e\<lparr>se_tree6_hook := True, se_tree4_hook := True, se_update_time := jiffies s, se_expirer := Some x,
        se_refcounter := 0\<rparr>)"
      using a(2) by (simp add: db_view_def add_effect_def s'_def)
    moreover have "sessiondb_add env p est s = Some (Ok, s')" using a(1) e e'(1) t by (simp add: sessiondb_add_def s'_def)
    ultimately show thesis using added ok' fr by blast
  next
    fix t' s1 assume a: "sessiontable_add env t p est s = Some (Err EEXIST, t', s1)" "dup_effect proto B (other_refs proto s + K) t s p t' s1"
    define s' where "s' = sess_put_table proto t' s1"
    have g: "tab_ok proto B (other_refs proto s + K) t' s1" "stable_nodes t' = stable_nodes t" "\<And>y. pending y t'" "touches {p} s s1"
      "\<exists>q \<in> stable_nodes t. sess_key6 (sview s) q = sess_key6 (sview s) p \<or> sess_key4 (sview s) q = sess_key4 (sview s) p"
      using a(2) sess_ok_tab(2) [OF ok t] unfolding dup_effect_def by blast+
    have ok': "sess_ok B K s'" unfolding s'_def by (rule sess_ok_put [OF ok t g(1,3,4) pe])
    have fr: "db_frame p s s'" unfolding s'_def by (rule db_frame_put [OF ok ok' [unfolded s'_def] t g(4)]) (use g(2) in auto)
    have n: "db_nodes pr s' = db_nodes pr s" for pr
      using g(2) t frame_tables(1) [OF touchesD(1) [OF g(4)]] by (simp add: db_nodes_def s'_def)
    obtain q where q: "q \<in> stable_nodes t" "sess_key6 (sview s) q = sess_key6 (sview s) p \<or> sess_key4 (sview s) q = sess_key4 (sview s) p"
      using g(5) by blast
    have "stable_ok proto (sview s) t" using tab by (simp add: tab_ok_def)
    then obtain e2 where e2: "sview s q = Some e2" using stable_okD [OF _ q(1)] by blast
    have "db_view proto s q = Some e2" using e2 q(1) t by (simp add: db_view_def db_nodes_def)
    moreover have "(se_local6 e2, se_remote6 e2) = (se_local6 e, se_remote6 e) \<or> (se_local4 e2, se_remote4 e2) = (se_local4 e, se_remote4 e)"
      using q(2) e2 sview_Some [OF e] unfolding sess_key6_def sess_key4_def by simp
    moreover have "sessiondb_add env p est s = Some (Err EEXIST, s')" using a(1) e e'(1) t by (simp add: sessiondb_add_def s'_def)
    ultimately show thesis using dup ok' fr n p(2) by blast
  qed
qed

section \<open>Timers\<close>

text \<open>What does not write to the tables or their sessions keeps the invariant if the references still add up.\<close>

lemma sess_ok_shrink:
  assumes ok: "sess_ok B K s" and pq: "pktq_ok [] B' (sess_refs s + K') s'" and fr: "pktq_frame s s'" and timer: "pktq_timer_ok s'"
    and v: "\<And>q. sview s q \<noteq> None \<Longrightarrow> sview s' q = sview s q \<or> sview s' q = None"
  shows "sess_ok B' K' s'" "\<And>proto. db_view proto s' = db_view proto s"
proof -
  note tabs = frame_tables [OF fr]
  have same: "sview s' q = sview s q" if q: "q \<in> db_nodes proto s" for proto q
  proof -
    have "sessions s' q \<noteq> None" using pktq_ok_live [OF pq, of q] sess_ok_live(2) [OF ok q] by auto
    then show ?thesis using v [of q] sess_ok_live(1) [OF ok q] by (auto simp: sview_None_iff)
  qed
  have n: "db_nodes proto s' = db_nodes proto s" for proto using tabs(1) by (simp add: db_nodes_def)
  show "db_view proto s' = db_view proto s" for proto
    using same n by (auto simp: db_view_def restrict_map_def)
  have "stable_ok p (sview s') u \<and> cbs_ok p u \<and> pending Est_timer u \<and> pending Trans_timer u" if u: "sess_get_table p s' = Some u" for p u
  proof -
    have u': "sess_get_table p s = Some u" using u tabs(1) by simp
    then have st: "stable_ok p (sview s) u" using ok by (simp add: sess_ok_def)
    have "stable_ok p (sview s') u" by (rule stable_ok_cong [OF st]) (use same [of _ p] u' in \<open>simp add: db_nodes_def\<close>)
    then show ?thesis using ok u' by (simp add: sess_ok_def)
  qed
  then show "sess_ok B' K' s'" using pq timer tabs(3) by (simp add: sess_ok_def)
qed

lemma sess_ok_table:
  assumes ok: "sess_ok B K s" and t: "sess_get_table proto s = Some t" and st: "stable_ok proto (sview s) t'" "cbs_ok proto t'" "\<And>y. pending y t'"
    and tr: "tab_refs t' = tab_refs t"
  shows "sess_ok B K (sess_put_table proto t' s)"
proof -
  have "tab_ok proto B (other_refs proto s + K) t' s"
    using sess_ok_tab(1) [OF ok t] st(1,2) tr by (simp add: tab_ok_def)
  then show ?thesis by (rule sess_ok_put [OF ok t _ st(3) touches_refl, of _ _ "{}"]) simp
qed

lemma pktq_timer_fires_ok:
  assumes env: "sess_env_ok env" and ok: "sess_ok B K s"
  obtains s' where "pktq_cleaner_timer env (s\<lparr>pq_timer := None\<rparr>) = Some s'" "sess_ok B K s'" "\<And>proto. db_view proto s' = db_view proto s"
    "node_list s' = dropWhile (node_expired env s) (node_list s)"
proof -
  let ?s0 = "s\<lparr>pq_timer := None\<rparr>"
  have v0: "sview ?s0 = sview s" by (simp add: sview_def fun_eq_iff)
  have "bib_get_table q ?s0 = bib_get_table q s" for q by (cases q) (simp_all add: bib_get_table_def)
  then have "bib_wf ?s0 = bib_wf s" by (simp add: bib_wf_def bib_db_ok_def bib_live_def)
  then have pq: "pktq_ok [] B (sess_refs s + K) ?s0"
    using ok v0 by (simp add: sess_ok_def pktq_ok_def pktq_wf_def refs_ok_def node_refs_def sess_count_def bib_count_def)
  have x: "node_expired env ?s0 = node_expired env s" by (simp add: node_expired_def v0 fun_eq_iff cong: option.case_cong)
  obtain s' where s': "pktq_cleaner_timer env ?s0 = Some s'" "pktq_ok [] B (sess_refs s + K) s'" "sview s' \<subseteq>\<^sub>m sview ?s0" "pktq_frame ?s0 s'"
    "node_list s' = dropWhile (node_expired env ?s0) (node_list ?s0)" "pktq_timer_ok s'"
    "outs s' = outs ?s0 @ concat (map (node_icmp env ?s0) (rev (takeWhile (node_expired env ?s0) (node_list ?s0))))"
    by (rule pktq_cleaner_timer_ok [OF env pq])
  have fr: "pktq_frame s s'" using s'(4) by (simp add: pktq_frame_def)
  have le: "sview s' q = sview s q \<or> sview s' q = None" for q using map_le_cases [OF s'(3), of q] v0 by simp
  note sh = sess_ok_shrink [OF ok s'(2) fr s'(6) le]
  show ?thesis by (rule that [OF s'(1) sh]) (use s'(5) x in simp)
qed

lemma session_timer_ok:
  assumes env: "sess_env_ok env" and ok: "sess_ok B K s" and t: "sess_get_table proto s = Some t"
    and cb: "et_decide_fate_cb (get_expirer x t) = Some cb" and gt: "et_get_timeout (get_expirer x t) = Some tmo"
    and x: "x = Est_timer \<or> proto = L4PROTO_TCP"
    and W: "W = takeWhile (session_expired (jiffies s) (tmo (ev_cfg env)) (sview s)) (timer_list x t)"
  obtains s' t' where "sess_on_table (session_timer_fires env x) proto s = Some s'" "sess_ok B K s'" "sess_get_table proto s' = Some t'"
    "timer_list x t = W @ timer_list x t'" "db_nodes proto s' = db_nodes proto s - {p \<in> set W. expired_fate cb (jiffies s) (sview s) p = Some FATE_RM}"
    "\<And>q. q \<notin> set W \<Longrightarrow> db_view proto s' q = db_view proto s q"
proof -
  define t0 where "t0 = put_expirer x ((get_expirer x t)\<lparr>et_timer := None\<rparr>) t"
  let ?R = "{p \<in> set W. expired_fate cb (jiffies s) (sview s) p = Some FATE_RM}"
  have tl: "timer_list y t0 = timer_list y t" for y by (simp add: t0_def timer_list_def)
  have st: "stable_ok proto (sview s) t" "cbs_ok proto t" using ok t by (simp_all add: sess_ok_def)
  have ct: "et_get_timeout (get_expirer y t0) = et_get_timeout (get_expirer y t)"
    "et_decide_fate_cb (get_expirer y t0) = et_decide_fate_cb (get_expirer y t)" for y by (simp_all add: t0_def)
  have st0: "stable_ok proto (sview s) t0" by (rule stable_ok_trees [OF st(1) _ _ _ tl]) (simp_all add: t0_def)
  have tab0: "tab_ok proto B (other_refs proto s + K) t0 s"
    using sess_ok_tab(1) [OF ok t] st0 cbs_ok_cong [OF ct, of proto] st(2) by (simp add: tab_ok_def tab_refs_def t0_def)
  have n0: "stable_nodes t0 = stable_nodes t" by (simp add: t0_def)
  have "\<exists>cb. et_decide_fate_cb (get_expirer x t) = Some cb \<and> expires_ok proto cb" using st(2) x unfolding cbs_ok_def by blast
  then have "expires_ok proto cb" using cb by simp
  then have con: "expire_contract cb proto" by (simp add: expire_contract_iff)
  obtain t' s1 where c: "session_cleaner_timer env x t0 s = Some (t', s1)"
    "clean_effect proto B (other_refs proto s + K) t0 s x W ?R t' s1"
    by (rule expire_contract.cleaner_ok [OF con env tab0]) (use cb gt ct W tl in simp_all)
  define s' where "s' = sess_put_table proto t' s1"
  have g: "tab_ok proto B (other_refs proto s + K) t' s1" "timer_list x t = W @ timer_list x t'" "stable_nodes t' = stable_nodes t - ?R"
    "touches (set W) s s1"
    using c(2) tl n0 by (simp_all add: clean_effect_def)
  have pe: "pending y t'" for y
    using c(2) sess_ok_tab(2) [OF ok t, of y] tl by (cases "y = x") (auto simp: clean_effect_def pending_def t0_def)
  have Wn: "q \<in> stable_nodes t" if "q \<in> set W" for q
    using stable_ok_list(1) [OF st(1), of q x] that W by (auto dest: set_takeWhileD)
  have "se_l4_proto e = proto" if "q \<in> set W" "sview s q = Some e" for q e
    by (rule db_nodes_proto(1) [OF ok _ that(2)]) (use Wn [OF that(1)] t in \<open>simp add: db_nodes_def\<close>)
  then have ok': "sess_ok B K s'" unfolding s'_def by (rule sess_ok_put [OF ok t g(1) pe g(4)])
  have n: "db_nodes proto s' = db_nodes proto s - ?R"
    using g(3) t frame_tables(1) [OF touchesD(1) [OF g(4)], of proto] by (simp add: db_nodes_def s'_def)
  have "db_view proto s' q = db_view proto s q" if q: "q \<notin> set W" for q
  proof (cases "q \<in> db_nodes proto s'")
    case True
    then have "sview s1 q = sview s q"
      using sess_ok_live(1) [OF ok' True] touchesD(3) [OF g(4) q] by (auto simp: sview_None_iff s'_def)
    then show ?thesis using True n by (simp add: db_view_def s'_def)
  next
    case False
    then show ?thesis using n q by (simp add: db_view_def)
  qed
  moreover have "sess_get_table proto s' = Some t'" using t frame_tables(1) [OF touchesD(1) [OF g(4)], of proto] by (simp add: s'_def)
  moreover have "sess_on_table (session_timer_fires env x) proto s = Some s'"
    using t c(1) by (simp add: sess_on_table_def session_timer_fires_def s'_def t0_def)
  ultimately show ?thesis using that ok' g(2) n by blast
qed

lemma force_reschedule_table:
  assumes ok: "sess_ok B K s" and t: "sess_get_table proto s = Some t" and x: "x = Est_timer \<or> proto = L4PROTO_TCP \<or> timer_list x t = []"
  obtains ex where "force_reschedule env s (get_expirer x t) = Some ex" "et_sessions ex = timer_list x t"
    "et_get_timeout ex = et_get_timeout (get_expirer x t)" "et_decide_fate_cb ex = et_decide_fate_cb (get_expirer x t)"
    "timer_list x t \<noteq> [] \<Longrightarrow> et_timer ex \<noteq> None"
proof -
  have st: "stable_ok proto (sview s) t" "cbs_ok proto t" using ok t by (simp_all add: sess_ok_def)
  have live: "\<exists>e. sessions s p = Some e" if "p \<in> set (et_sessions (get_expirer x t))" for p
    using tab_ok_live_pos [OF sess_ok_tab(1) [OF ok t] stable_ok_list(1) [OF st(1) that [folded timer_list_def]]] by simp
  have gt: "et_get_timeout (get_expirer x t) \<noteq> None" if "et_sessions (get_expirer x t) \<noteq> []"
    using st(2) x that by (auto simp: cbs_ok_def timer_list_def)
  obtain time where "force_reschedule env s (get_expirer x t) =
      Some (if et_sessions (get_expirer x t) = [] then get_expirer x t else (get_expirer x t)\<lparr>et_timer := Some time\<rparr>)"
    by (rule force_reschedule_ok [OF live gt, of env]) (assumption, assumption, rule that)
  then show ?thesis by (rule that) (simp_all add: timer_list_def split: if_splits)
qed

lemma stable_trans_empty:
  assumes "stable_ok proto v t" "proto \<noteq> L4PROTO_TCP"
  shows "timer_list Trans_timer t = []"
proof (rule ccontr)
  assume "timer_list Trans_timer t \<noteq> []"
  then obtain p where p: "p \<in> set (timer_list Trans_timer t)" by (cases "timer_list Trans_timer t") auto
  obtain e where "v p = Some e" "placed Trans_timer e" using stable_ok_list(2) [OF assms(1) p] by blast
  then show False using stable_ok_entry [OF assms(1) stable_ok_list(1) [OF assms(1) p]] assms(2)
    by (auto simp: sess_entry_ok_def placed_def)
qed

lemma update_timers_table:
  assumes ok: "sess_ok B K s" and proto: "proto \<noteq> L4PROTO_OTHER"
  obtains s' where "sess_on_table (update_timers_of env) proto s = Some s'" "sess_ok B K s'" "\<And>p. db_view p s' = db_view p s"
proof -
  obtain t where t: "sess_get_table proto s = Some t" using proto sess_get_table_None_iff [of proto s] by auto
  have st: "stable_ok proto (sview s) t" "cbs_ok proto t" using ok t by (simp_all add: sess_ok_def)
  have x: "x = Est_timer \<or> proto = L4PROTO_TCP \<or> timer_list x t = []" for x
    using stable_trans_empty [OF st(1)] by (cases x) auto
  obtain ex1 where e1: "force_reschedule env s (get_expirer Est_timer t) = Some ex1" "et_sessions ex1 = timer_list Est_timer t"
    "et_get_timeout ex1 = et_get_timeout (get_expirer Est_timer t)" "et_decide_fate_cb ex1 = et_decide_fate_cb (get_expirer Est_timer t)"
    "timer_list Est_timer t \<noteq> [] \<Longrightarrow> et_timer ex1 \<noteq> None"
    by (rule force_reschedule_table [OF ok t x, of env]) (rule that)
  obtain ex2 where e2: "force_reschedule env s (get_expirer Trans_timer t) = Some ex2" "et_sessions ex2 = timer_list Trans_timer t"
    "et_get_timeout ex2 = et_get_timeout (get_expirer Trans_timer t)" "et_decide_fate_cb ex2 = et_decide_fate_cb (get_expirer Trans_timer t)"
    "timer_list Trans_timer t \<noteq> [] \<Longrightarrow> et_timer ex2 \<noteq> None"
    by (rule force_reschedule_table [OF ok t x, of env]) (rule that)
  define t' where "t' = t\<lparr>est_timer := ex1, trans_timer := ex2\<rparr>"
  have get: "get_expirer x t' = (case x of Est_timer \<Rightarrow> ex1 | Trans_timer \<Rightarrow> ex2)" for x by (cases x) (simp_all add: get_expirer_def t'_def)
  have tl: "timer_list x t' = timer_list x t" for x using e1(2) e2(2) by (cases x) (simp_all add: timer_list_def get)
  have st': "stable_ok proto (sview s) t'" by (rule stable_ok_trees [OF st(1) _ _ _ tl]) (simp_all add: t'_def)
  have "et_get_timeout (get_expirer x t') = et_get_timeout (get_expirer x t)"
    "et_decide_fate_cb (get_expirer x t') = et_decide_fate_cb (get_expirer x t)" for x
    using e1(3,4) e2(3,4) by (cases x; simp add: get)+
  then have c': "cbs_ok proto t'" using cbs_ok_cong [of t' t proto] st(2) by simp
  have pe: "pending x t'" for x using e1(5) e2(5) tl [of x] by (cases x) (simp_all add: pending_def get)
  have ok': "sess_ok B K (sess_put_table proto t' s)"
    by (rule sess_ok_table [OF ok t st' c' pe]) (simp add: tab_refs_def t'_def)
  have "sessiontable_update_timers env t s = Some t'"
    using e1(1) e2(1) by (simp add: sessiontable_update_timers_def get_expirer_def t'_def)
  moreover have "db_nodes p (sess_put_table proto t' s) = db_nodes p s" for p
    using t by (simp add: db_nodes_def stable_nodes_def t'_def)
  ultimately show ?thesis using that [OF _ ok'] t by (simp add: sess_on_table_def update_timers_of_def db_view_def)
qed

lemma sessiondb_update_timers_ok:
  assumes ok: "sess_ok B K s"
  obtains s' where "sessiondb_update_timers env s = Some s'" "sess_ok B K s'" "\<And>p. db_view p s' = db_view p s"
proof -
  obtain s1 where s1: "sess_on_table (update_timers_of env) L4PROTO_UDP s = Some s1" "sess_ok B K s1" "\<And>p. db_view p s1 = db_view p s"
    by (rule update_timers_table [OF ok, of L4PROTO_UDP env]) (simp, rule that)
  obtain s2 where s2: "sess_on_table (update_timers_of env) L4PROTO_TCP s1 = Some s2" "sess_ok B K s2" "\<And>p. db_view p s2 = db_view p s1"
    by (rule update_timers_table [OF s1(2), of L4PROTO_TCP env]) (simp, rule that)
  obtain s3 where s3: "sess_on_table (update_timers_of env) L4PROTO_ICMP s2 = Some s3" "sess_ok B K s3" "\<And>p. db_view p s3 = db_view p s2"
    by (rule update_timers_table [OF s2(2), of L4PROTO_ICMP env]) (simp, rule that)
  show ?thesis by (rule that [of s3]) (use s1 s2 s3 in \<open>simp_all add: sessiondb_update_timers_def\<close>)
qed

section \<open>Address-dependent filtering\<close>

text \<open>Searching with a comparison that does not tell all entries apart.\<close>

lemma rbtree_find_signs:
  assumes "\<forall>e \<in> set (inorder t). cmp e = Some (c e)" "sorted_wrt (\<lambda>a b. sgn (c a) \<le> sgn (c b)) (inorder t)"
  shows "\<exists>r. rbtree_find cmp t = Some r \<and> (r = None \<longleftrightarrow> (\<forall>e \<in> set (inorder t). c e \<noteq> 0))"
  using assms
proof (induction t)
  case (Node l x r)
  have x: "cmp x = Some (c x)" using Node.prems(1) by simp
  have l: "sgn (c e) \<le> sgn (c x)" if "e \<in> set (inorder l)" for e using Node.prems(2) that by (simp add: sorted_wrt_append)
  have r: "sgn (c x) \<le> sgn (c e)" if "e \<in> set (inorder r)" for e using Node.prems(2) that by (simp add: sorted_wrt_append)
  obtain rl rr where i: "rbtree_find cmp l = Some rl" "rl = None \<longleftrightarrow> (\<forall>e \<in> set (inorder l). c e \<noteq> 0)"
    "rbtree_find cmp r = Some rr" "rr = None \<longleftrightarrow> (\<forall>e \<in> set (inorder r). c e \<noteq> 0)"
    using Node.IH Node.prems by (auto simp: sorted_wrt_append)
  have l0: "c e \<noteq> 0" if "c x < 0" "e \<in> set (inorder l)" for e using l [OF that(2)] that(1) by (auto simp: sgn_if split: if_splits)
  have r0: "c e \<noteq> 0" if "c x > 0" "e \<in> set (inorder r)" for e using r [OF that(2)] that(1) by (auto simp: sgn_if split: if_splits)
  consider "c x < 0" | "c x > 0" | "c x = 0" by linarith
  then show ?case
  proof cases
    case 1
    then show ?thesis using x i l0 by (auto simp del: set_inorder)
  next
    case 2
    then show ?thesis using x i r0 by (auto simp del: set_inorder)
  next
    case 3
    then show ?thesis using x by (auto simp del: set_inorder)
  qed
qed simp

lemma sgn_lex_mono:
  fixes la lb d :: "'a::linorder" and ra rb r :: "'b::linorder"
  assumes "la < lb \<or> la = lb \<and> ra \<le> rb"
  shows "(if la < d then - 1 else if d < la then 1 else if ra < r then - 1 else if r < ra then 1 else (0::int)) \<le>
    (if lb < d then - 1 else if d < lb then 1 else if rb < r then - 1 else if r < rb then 1 else 0)"
  using assms
  by (cases la d rule: linorder_cases; cases lb d rule: linorder_cases; cases ra r rule: linorder_cases; cases rb r rule: linorder_cases) auto

lemma sessiondb_allow_ok:
  assumes ok: "sess_ok B K s" and proto: "t_l4_proto tuple4 = proto"
  shows "sessiondb_allow tuple4 s = Some (\<exists>q e. db_view proto s q = Some e \<and> se_local4 e = addr4 (t_dst tuple4) \<and>
    ta4_l3 (se_remote4 e) = ta4_l3 (addr4 (t_src tuple4)))"
proof (cases "sess_get_table proto s")
  case None
  then show ?thesis using proto by (simp add: sessiondb_allow_def db_view_def db_nodes_def restrict_map_def)
next
  case (Some t)
  define c where "c q = (let e = the (sview s q); gap = sess_compare_addr4 (se_local4 e) (addr4 (t_dst tuple4))
    in if gap \<noteq> 0 then gap else ipv4_addr_cmp (ta4_l3 (se_remote4 e)) (ta4_l3 (addr4 (t_src tuple4))))" for q
  have st: "stable_ok proto (sview s) t" using ok Some by (simp add: sess_ok_def)
  have n: "set (inorder (st_tree4 t)) = stable_nodes t" by (simp add: stable_nodes_def)
  have e: "\<exists>e. sessions s q = Some e \<and> sview s q = Some (e\<lparr>se_refcounter := 0\<rparr>)" if "q \<in> stable_nodes t" for q
    using stable_okD [OF st that] sview_SomeD sview_Some by metis
  have cmp: "\<forall>q \<in> set (inorder (st_tree4 t)). compare_addrs4 (sessions s) tuple4 q = Some (c q)"
    unfolding n
  proof
    fix q assume "q \<in> stable_nodes t"
    then show "compare_addrs4 (sessions s) tuple4 q = Some (c q)"
      using e [of q] by (auto simp: compare_addrs4_def c_def Let_def)
  qed
  have sg: "sgn (ipv4_addr_cmp u w) = (if u < w then - 1 else if w < u then 1 else 0)" for u w
    by (auto simp: ipv4_addr_cmp_def word_less_def sgn_if dest: unsigned_word_eqI)
  have sc: "sgn (c q) = (if se_local4 e < addr4 (t_dst tuple4) then - 1 else if addr4 (t_dst tuple4) < se_local4 e then 1
      else if ta4_l3 (se_remote4 e) < ta4_l3 (addr4 (t_src tuple4)) then - 1
      else if ta4_l3 (addr4 (t_src tuple4)) < ta4_l3 (se_remote4 e) then 1 else 0)" if "sview s q = Some e" for q e
  proof (cases "se_local4 e = addr4 (t_dst tuple4)")
    case True
    then have "c q = ipv4_addr_cmp (ta4_l3 (se_remote4 e)) (ta4_l3 (addr4 (t_src tuple4)))"
      using that sess_compare_sign(6) by (simp add: c_def)
    then show ?thesis using True sg by simp
  next
    case False
    then have "c q = sess_compare_addr4 (se_local4 e) (addr4 (t_dst tuple4))"
      using that sess_compare_sign(6) by (simp add: c_def)
    then show ?thesis using False sess_compare_sign(4-6) [of "se_local4 e" "addr4 (t_dst tuple4)"]
      by (cases "se_local4 e" "addr4 (t_dst tuple4)" rule: linorder_cases) simp_all
  qed
  have "sorted_wrt (\<lambda>a b. the (sess_key4 (sview s) a) < the (sess_key4 (sview s) b)) (inorder (st_tree4 t))"
    using st by (simp add: stable_ok_def sess4.keys_sorted_def)
  then have "sorted_wrt (\<lambda>a b. sgn (c a) \<le> sgn (c b)) (inorder (st_tree4 t))"
  proof (rule sorted_wrt_mono_rel [rotated])
    fix a b assume a: "a \<in> set (inorder (st_tree4 t))" "b \<in> set (inorder (st_tree4 t))"
      "the (sess_key4 (sview s) a) < the (sess_key4 (sview s) b)"
    obtain ea eb where ab: "sview s a = Some ea" "sview s b = Some eb" using e [of a] e [of b] a(1,2) n by auto
    have "(se_local4 ea, se_remote4 ea) < (se_local4 eb, se_remote4 eb)"
      using a(3) ab by (simp add: sess_key4_def del: sess_key_sview)
    then have "se_local4 ea < se_local4 eb \<or> se_local4 ea = se_local4 eb \<and> se_remote4 ea < se_remote4 eb" by (auto simp: order.order_iff_strict)
    then show "sgn (c a) \<le> sgn (c b)"
      unfolding sc [OF ab(1)] sc [OF ab(2)] by (intro sgn_lex_mono) (auto simp: taddr4_less_iff)
  qed
  then obtain r where r: "rbtree_find (compare_addrs4 (sessions s) tuple4) (st_tree4 t) = Some r"
    "r = None \<longleftrightarrow> (\<forall>q \<in> set (inorder (st_tree4 t)). c q \<noteq> 0)"
    using rbtree_find_signs [OF cmp] by blast
  have c0: "c q = 0 \<longleftrightarrow> (\<exists>e. sview s q = Some e \<and> se_local4 e = addr4 (t_dst tuple4) \<and> ta4_l3 (se_remote4 e) = ta4_l3 (addr4 (t_src tuple4)))"
    if "q \<in> stable_nodes t" for q
    using e [OF that] sess_compare_sign(6) by (auto simp: c_def Let_def ipv4_addr_cmp_def)
  have "r \<noteq> None \<longleftrightarrow> (\<exists>q e. db_view proto s q = Some e \<and> se_local4 e = addr4 (t_dst tuple4) \<and>
      ta4_l3 (se_remote4 e) = ta4_l3 (addr4 (t_src tuple4)))"
    unfolding r(2) n using c0 Some by (auto simp: db_view_def db_nodes_def restrict_map_def split: if_splits)
  then show ?thesis using r(1) Some proto by (simp add: sessiondb_allow_def sessiontable_allow_def)
qed

section \<open>The initial database\<close>

lemma expires_ok_just_die: "expires_ok proto just_die"
  unfolding expires_ok_def
proof (intro conjI allI impI)
  fix now and x :: expirer and e
  have "just_die now None e = Some (e\<lparr>se_state := se_state e, se_update_time := se_update_time e\<rparr>, FATE_RM)"
    by (simp add: just_die_def)
  then show "\<exists>st u f. just_die now None e = Some (e\<lparr>se_state := st, se_update_time := u\<rparr>, f) \<and> f \<noteq> FATE_PRESERVE \<and>
      fate_target f \<noteq> Some x \<and> (\<forall>y. fate_target f = Some y \<longrightarrow> placed y (e\<lparr>se_state := st\<rparr>))"
    by (fastforce simp: fate_target_def)
qed (simp add: just_die_def)

interpretation just_die: expire_contract just_die proto for proto
  using expires_ok_just_die by (simp add: expire_contract_iff)

lemma sessiondb_init_ok:
  assumes refs: "refs_ok B s" and empty: "sessions s = Map.empty" "nodes s = Map.empty"
    and cbs: "expires_ok L4PROTO_TCP tcpest_fn" "expires_ok L4PROTO_TCP tcptrans_fn"
  obtains s' where "sessiondb_init Ok tcpest_fn tcptrans_fn s = (Ok, s')" "sess_ok B {#} s'" "\<And>p. db_view p s' = Map.empty"
proof -
  define s' where "s' = snd (sessiondb_init Ok tcpest_fn tcptrans_fn s)"
  have r: "sessiondb_init Ok tcpest_fn tcptrans_fn s = (Ok, s')" by (simp add: s'_def sessiondb_init_def pktqueue_init_def)
  have f: "bibs s' = bibs s" "sessions s' = Map.empty" "nodes s' = Map.empty" "node_list s' = []" "node_tree s' = Leaf" "node_count s' = 0"
    using empty by (simp_all add: s'_def sessiondb_init_def pktqueue_init_def)
  have "bib_get_table q s' = bib_get_table q s" for q by (cases q) (simp_all add: bib_get_table_def s'_def sessiondb_init_def pktqueue_init_def)
  then have "bib_wf s' = bib_wf s" using f(1) by (simp add: bib_wf_def bib_db_ok_def bib_live_def)
  then have "refs_ok B s'" using refs f(1,2) empty(1) by (simp add: refs_ok_def bib_count_def)
  moreover have "pktq_wf [] s'" using f by (simp add: pktq_wf_def)
  moreover have t: "st_tree6 t = Leaf" "st_tree4 t = Leaf" "st_count t = 0" "timer_list x t = []" "cbs_ok proto t"
    if "sess_get_table proto s' = Some t" for proto t x
    using that cbs expires_ok_just_die
    by (cases proto; cases x; auto simp: sess_get_table_def s'_def sessiondb_init_def pktqueue_init_def sessiontable_init_def init_expirer_def
        timer_list_def get_expirer_def cbs_ok_def split: expirer.splits)+
  then have n: "sess_get_table proto s' = Some t \<Longrightarrow> stable_nodes t = {}" "sess_get_table proto s' = Some t \<Longrightarrow> tab_refs t = {#}" for proto t
    by (simp_all add: stable_nodes_def tab_refs_def)
  have refs0: "sess_refs s' = {#}"
    using n(2) [of L4PROTO_UDP] n(2) [of L4PROTO_TCP] n(2) [of L4PROTO_ICMP] by (simp add: sess_refs_def sess_get_table_def)
  moreover have "sess_count s' q = int (count (node_refs [] s' + (sess_refs s' + {#})) q)" for q
    using f refs0 by (simp add: sess_count_def node_refs_def)
  moreover have "stable_ok proto (sview s') t" "pending y t" if "sess_get_table proto s' = Some t" for proto t y
    using t [OF that] n [OF that] by (simp_all add: stable_ok_def pending_def)
  ultimately have "sess_ok B {#} s'" using t(5) f(4) by (simp add: sess_ok_def pktq_ok_def pktq_timer_ok_def)
  moreover have "db_view p s' = Map.empty" for p using n(1) [of p] by (auto simp: db_view_def db_nodes_def restrict_map_def split: option.splits)
  ultimately show ?thesis using that r by blast
qed

section \<open>A concrete database\<close>

text \<open>One static BIB entry and one established TCP session of it, last used at time 0.\<close>

definition sample_est_session :: session_entry where
  "sample_est_session = \<lparr>se_remote6 = sample_ta6, se_local6 = \<lparr>ta6_l3 = 2, ta6_l4 = 80\<rparr>,
     se_local4 = sample_ta4, se_remote4 = \<lparr>ta4_l3 = 9, ta4_l4 = 80\<rparr>, se_update_time = 0, se_bib = Some 1,
     se_refcounter = 1, se_expirer = Some Est_timer, se_l4_proto = L4PROTO_TCP, se_state = ESTABLISHED, se_tree6_hook = True,
     se_tree4_hook = True\<rparr>"

definition sample_tcp_table :: "fate_cb \<Rightarrow> session_table" where
  "sample_tcp_table cb = \<lparr>st_tree6 = Node Leaf 5 Leaf, st_tree4 = Node Leaf 5 Leaf, st_count = 1,
     est_timer = \<lparr>et_timer = Some 0, et_sessions = [5], et_get_timeout = Some config_get_ttl_tcpest, et_decide_fate_cb = Some cb\<rparr>,
     trans_timer = init_expirer (Some config_get_ttl_tcptrans) (Some cb)\<rparr>"

definition sample_sdb :: "fate_cb \<Rightarrow> u64 \<Rightarrow> session_db" where
  "sample_sdb cb now =
     \<lparr>bibs = bibs (sample_bib 2), bib_tcp = bib_tcp (sample_bib 2), bib_udp = bibtable_init, bib_icmp = bibtable_init,
      secret_key = [1, 2, 3], next_ephemeral = 7, sessions = [5 \<mapsto> sample_est_session], jiffies = now, outs = [],
      nodes = Map.empty, node_list = [], node_tree = Leaf, node_count = 0, pq_timer = None,
      session_table_udp = sessiontable_init (Some config_get_ttl_udp) (Some just_die) None None,
      session_table_tcp = sample_tcp_table cb,
      session_table_icmp = sessiontable_init (Some config_get_ttl_icmp) (Some just_die) None None\<rparr>"

lemma sample_sdb_refs: "refs_ok {#1#} (sample_sdb cb now)"
proof -
  let ?s = "sample_sdb cb now"
  have g: "bib_get_table q ?s = bib_get_table q (sample_bib 2)" for q
    by (cases q) (simp_all add: bib_get_table_def sample_sdb_def sample_bib_def)
  have b: "bibs ?s = bibs (sample_bib 2)" by (simp add: sample_sdb_def)
  have "bib_wf ?s" using sample_bib_wf [of 2] g b by (simp add: bib_wf_def bib_db_ok_def bib_live_def)
  moreover have "holders (sessions ?s) p = (if p = 1 then {5} else {})" for p
    by (auto simp: holders_def sample_sdb_def sample_est_session_def split: if_splits)
  moreover have "bib_count ?s p = (if p = 1 then 2 else 0)" for p by (simp add: bib_count_def sample_sdb_def sample_bib_def)
  ultimately show ?thesis
    by (auto simp: refs_ok_def sess_agrees_def sample_sdb_def sample_bib_def sample_est_session_def split: if_splits)
qed

lemma sample_sdb_ok:
  assumes "expires_ok L4PROTO_TCP cb"
  shows "sess_ok {#1#} {#} (sample_sdb cb now)"
proof -
  let ?s = "sample_sdb cb now"
  have v: "sview ?s = [5 \<mapsto> sample_est_session\<lparr>se_refcounter := 0\<rparr>]" by (auto simp: sview_def sample_sdb_def)
  have refs: "sess_refs ?s = {#5#}" by (simp add: sess_refs_def sample_sdb_def tab_refs_def sample_tcp_table_def sessiontable_init_def)
  have "pktq_wf [] ?s" by (simp add: pktq_wf_def sample_sdb_def)
  moreover have "sess_count ?s q = int (count (node_refs [] ?s + ({#5#} + {#})) q)" for q
    by (simp add: sess_count_def node_refs_def sample_sdb_def sample_est_session_def)
  ultimately have pq: "pktq_ok [] {#1#} (sess_refs ?s + {#}) ?s" using sample_sdb_refs [of cb now] refs by (simp add: pktq_ok_def)
  have t: "stable_ok L4PROTO_TCP (sview ?s) (sample_tcp_table cb)" "cbs_ok L4PROTO_TCP (sample_tcp_table cb)" "pending x (sample_tcp_table cb)" for x
    unfolding v using assms
    by (cases x; auto simp: stable_ok_def stable_nodes_def timer_list_def sample_tcp_table_def get_expirer_def init_expirer_def sess_entry_ok_def
        placed_def est_states_def sample_est_session_def cbs_ok_def pending_def sess_key6_def sess_key4_def split: expirer.splits)+
  have e: "stable_ok proto (sview ?s) t" "cbs_ok proto t" "pending x t"
    if "proto \<noteq> L4PROTO_TCP" "sess_get_table proto ?s = Some t" for proto t x
    using that expires_ok_just_die
    by (cases proto; cases x; auto simp: sess_get_table_def sample_sdb_def sessiontable_init_def init_expirer_def stable_ok_def stable_nodes_def
        timer_list_def get_expirer_def cbs_ok_def pending_def split: expirer.splits)+
  have "stable_ok proto (sview ?s) u \<and> cbs_ok proto u \<and> pending Est_timer u \<and> pending Trans_timer u"
    if u: "sess_get_table proto ?s = Some u" for proto u
  proof (cases "proto = L4PROTO_TCP")
    case True
    then have "u = sample_tcp_table cb" using u by (simp add: sess_get_table_def sample_sdb_def)
    then show ?thesis using t True by simp
  next
    case False
    then show ?thesis using e u by simp
  qed
  moreover have "pktq_timer_ok ?s" by (simp add: pktq_timer_ok_def sample_sdb_def)
  ultimately show ?thesis using pq by (simp add: sess_ok_def)
qed

section \<open>Properties\<close>

text \<open>
  C37: when an expiration timer of a session table fires, the cleaner ends without a memory fault and
  keeps the invariant of the whole database with the same references held outside. It handles exactly
  the sessions at the front of the list that have expired: each is removed or moved as its callback
  decides, and no other session of the table changes. The timer is pending again if sessions remain,
  so that no session is forgotten.
\<close>

theorem session_timer_correct:
  assumes "sess_env_ok env" "sess_ok B K s" "sess_get_table proto s = Some t" "x = Est_timer \<or> proto = L4PROTO_TCP"
    "et_decide_fate_cb (get_expirer x t) = Some cb" "et_get_timeout (get_expirer x t) = Some tmo"
    "P = session_expired (jiffies s) (tmo (ev_cfg env)) (sview s)"
  shows "\<exists>s' t'. sess_on_table (session_timer_fires env x) proto s = Some s' \<and> sess_ok B K s' \<and> sess_get_table proto s' = Some t' \<and>
    timer_list x t' = dropWhile P (timer_list x t) \<and> (timer_list x t' \<noteq> [] \<longrightarrow> et_timer (get_expirer x t') \<noteq> None) \<and>
    (\<forall>q \<in> set (takeWhile P (timer_list x t)). q \<in> db_nodes proto s' \<longleftrightarrow> expired_fate cb (jiffies s) (sview s) q \<noteq> Some FATE_RM) \<and>
    (\<forall>q. q \<notin> set (takeWhile P (timer_list x t)) \<longrightarrow> db_view proto s' q = db_view proto s q)"
proof -
  define W where "W = takeWhile P (timer_list x t)"
  obtain s' t' where r: "sess_on_table (session_timer_fires env x) proto s = Some s'" "sess_ok B K s'" "sess_get_table proto s' = Some t'"
    "timer_list x t = W @ timer_list x t'" "db_nodes proto s' = db_nodes proto s - {p \<in> set W. expired_fate cb (jiffies s) (sview s) p = Some FATE_RM}"
    "\<And>q. q \<notin> set W \<Longrightarrow> db_view proto s' q = db_view proto s q"
    by (rule session_timer_ok [OF assms(1-3,5,6,4) W_def [unfolded assms(7)]]) (rule that)
  have "timer_list x t' = dropWhile P (timer_list x t)"
    using r(4) takeWhile_dropWhile_id [of P "timer_list x t"] by (metis W_def append_eq_append_conv)
  moreover have "pending x t'" using sess_ok_tab(2) [OF r(2,3)] .
  moreover have "q \<in> db_nodes proto s" if "q \<in> set W" for q
    using stable_ok_list(1) [of proto "sview s" t q x] assms(2,3) that r(4) by (simp add: sess_ok_def db_nodes_def)
  ultimately show ?thesis
    unfolding W_def [symmetric] using r by (intro exI [of _ s'] exI [of _ t']) (auto simp: pending_def)
qed

theorem session_timer_correct_witness:
  "\<exists>s'. sess_on_table (session_timer_fires sample_sess_env Est_timer) L4PROTO_TCP (sample_sdb just_die 7200000) = Some s' \<and>
     db_nodes L4PROTO_TCP s' = {}"
proof -
  let ?s = "sample_sdb just_die 7200000" and ?t = "sample_tcp_table just_die"
  have t: "sess_get_table L4PROTO_TCP ?s = Some ?t" "timer_list Est_timer ?t = [5]" "et_decide_fate_cb (get_expirer Est_timer ?t) = Some just_die"
    "et_get_timeout (get_expirer Est_timer ?t) = Some config_get_ttl_tcpest" "timer_list Trans_timer ?t = []"
    by (simp_all add: sess_get_table_def sample_sdb_def timer_list_def sample_tcp_table_def get_expirer_def init_expirer_def)
  have ok: "sess_ok {#1#} {#} ?s" by (rule sample_sdb_ok [OF expires_ok_just_die])
  have c: "config_get_ttl_tcpest (ev_cfg sample_sess_env) = 7200000"
    by (simp add: sample_sess_env_def sample_cfg_def config_get_ttl_tcpest_def config_init_def TCP_EST_def)
  have x: "session_expired (jiffies ?s) (config_get_ttl_tcpest (ev_cfg sample_sess_env)) (sview ?s) 5" "expired_fate just_die (jiffies ?s) (sview ?s) 5 = Some FATE_RM"
    unfolding c by (simp_all add: session_expired_def expired_fate_def sview_def sample_sdb_def sample_est_session_def time_before_def just_die_def)
  obtain s' t' where r: "sess_on_table (session_timer_fires sample_sess_env Est_timer) L4PROTO_TCP ?s = Some s'" "sess_ok {#1#} {#} s'"
    "5 \<notin> db_nodes L4PROTO_TCP s'" "\<forall>q. q \<noteq> 5 \<longrightarrow> db_view L4PROTO_TCP s' q = db_view L4PROTO_TCP ?s q"
    using session_timer_correct [OF sample_sess_env_ok ok t(1) _ t(3,4) refl] x t(2) by auto
  have "q \<notin> db_nodes L4PROTO_TCP s'" for q
  proof (cases "q = 5")
    case False
    then have "db_view L4PROTO_TCP s' q = db_view L4PROTO_TCP ?s q" using r(4) by blast
    also have "\<dots> = None" using False by (simp add: db_view_def restrict_map_def sview_def sample_sdb_def)
    finally show ?thesis using sess_ok_live(1) [OF r(2), of q L4PROTO_TCP] by (auto simp: db_view_def sview_None_iff)
  qed (use r(3) in simp)
  then show ?thesis using r(1) by blast
qed

text \<open>
  C38: deleting the sessions of a block of IPv4 transport addresses, as when pool4 shrinks, never
  faults, keeps the invariant, and takes exactly the sessions whose local IPv4 address is in the block out
  of the three tables, although it visits only part of each tree.
\<close>

theorem sessiondb_delete_taddr4s_correct:
  assumes "rb_laws ops" "sess_ok B K s" "prefix4_validate (Some prefix) = Inr ()"
  shows "\<exists>s'. sessiondb_delete_taddr4s ops prefix ports s = Some s' \<and> sess_ok B K s' \<and>
    (\<forall>proto. db_view proto s' = drop_sessions (\<lambda>e. in_block prefix ports (se_local4 e)) (db_view proto s))"
proof -
  have "prefix4_wf prefix" using assms(3) by (simp add: prefix4_validate_Inr_iff)
  from sessiondb_delete_taddr4s_ok [OF assms(1,2) this] show ?thesis by metis
qed

theorem sessiondb_delete_taddr4s_correct_witness:
  "\<exists>s'. sessiondb_delete_taddr4s plain_ops \<lparr>p4_address = 0xC0000200, p4_len = 24\<rparr> \<lparr>pr_min = 0, pr_max = 2000\<rparr> (sample_sdb just_die 0) = Some s' \<and>
     db_view L4PROTO_TCP s' = Map.empty"
proof -
  let ?p = "\<lparr>p4_address = 0xC0000200, p4_len = 24\<rparr> :: ipv4_prefix" and ?r = "\<lparr>pr_min = 0, pr_max = 2000\<rparr> :: port_range"
  have v: "prefix4_validate (Some ?p) = Inr ()" by (simp add: prefix4_validate_Inr_iff prefix4_wf_def take_bit_eq_mask mask_numeral)
  have b: "in_block ?p ?r sample_ta4"
    by (simp add: in_block_def sample_ta4_def port_range_contains_def prefix4_contains_interval prefix4_validate_Inr_iff [THEN iffD1, OF v])
  have d: "db_view L4PROTO_TCP (sample_sdb just_die 0) = [5 \<mapsto> sample_est_session\<lparr>se_refcounter := 0\<rparr>]"
    by (auto simp: db_view_def db_nodes_def sess_get_table_def sample_sdb_def sview_def sample_tcp_table_def stable_nodes_def restrict_map_def)
  have "drop_sessions (\<lambda>e. in_block ?p ?r (se_local4 e)) (db_view L4PROTO_TCP (sample_sdb just_die 0)) = Map.empty"
    unfolding d using b by (auto simp: drop_sessions_def sample_est_session_def split: option.splits if_splits)
  then show ?thesis
    using sessiondb_delete_taddr4s_correct [OF rb_laws_plain_ops sample_sdb_ok [OF expires_ok_just_die] v, where ports = ?r] by metis
qed

text \<open>
  C39: address-dependent filtering lets an IPv4 packet in exactly when some session of its protocol has the
  packet's destination as its local transport address and the packet's source address, whatever the port,
  as its remote address. The search compares only part of the key the tree is sorted by.
\<close>

theorem sessiondb_allow_correct:
  assumes "sess_ok B K s"
  shows "sessiondb_allow tuple4 s = Some (\<exists>q e. db_view (t_l4_proto tuple4) s q = Some e \<and> se_local4 e = addr4 (t_dst tuple4) \<and>
    ta4_l3 (se_remote4 e) = ta4_l3 (addr4 (t_src tuple4)))"
  by (rule sessiondb_allow_ok [OF assms refl])

theorem sessiondb_allow_correct_witness:
  "sessiondb_allow \<lparr>t_src = Addr4 \<lparr>ta4_l3 = 9, ta4_l4 = 4000\<rparr>, t_dst = Addr4 sample_ta4, t_l3_proto = L3PROTO_IPV4,
     t_l4_proto = L4PROTO_TCP\<rparr> (sample_sdb just_die 0) = Some True"
proof -
  have d: "db_view L4PROTO_TCP (sample_sdb just_die 0) 5 = Some (sample_est_session\<lparr>se_refcounter := 0\<rparr>)"
    by (simp add: db_view_def db_nodes_def sess_get_table_def sample_sdb_def sview_def sample_tcp_table_def stable_nodes_def)
  have "\<exists>q e. db_view L4PROTO_TCP (sample_sdb just_die 0) q = Some e \<and> se_local4 e = sample_ta4 \<and> ta4_l3 (se_remote4 e) = 9"
    by (rule exI [of _ 5]) (simp add: d sample_est_session_def)
  then show ?thesis
    using sessiondb_allow_correct [OF sample_sdb_ok [OF expires_ok_just_die], of
        "\<lparr>t_src = Addr4 \<lparr>ta4_l3 = 9, ta4_l4 = 4000\<rparr>, t_dst = Addr4 sample_ta4, t_l3_proto = L3PROTO_IPV4, t_l4_proto = L4PROTO_TCP\<rparr>"]
    by simp
qed

end
