(* ===== verification/Filtering.thy ===== *)
theory Filtering
  imports Session_Db Rfc6052
begin

text \<open>
  Filtering and updating (\<^verbatim>\<open>mod/stateful/filtering_and_updating.c\<close>): what each packet does to the
  BIB and the sessions, and whether it may pass.
\<close>

section \<open>Environment\<close>

text \<open>
  What the step reads and does not change: the kernel's services, the configuration, the two pools,
  and the outcome of allocating a BIB entry.
\<close>

record filter_env =
  fe_sess :: sess_env
  fe_crypto :: crypto
  fe_pool4 :: pool4_env
  fe_pool6 :: pool6
  fe_bib_alloc :: bib_alloc

abbreviation fe_ops :: "filter_env \<Rightarrow> ptr rb_ops" where
  "fe_ops env \<equiv> ev_rb (fe_sess env)"

abbreviation fe_cfg :: "filter_env \<Rightarrow> global_config" where
  "fe_cfg env \<equiv> ev_cfg (fe_sess env)"

section \<open>Expiration and initialization\<close>

definition expired_cb :: fate_cb where
  "expired_cb now arg session =
     (case se_state session of
        ESTABLISHED \<Rightarrow> Some (session\<lparr>se_state := TRANS, se_update_time := now\<rparr>, FATE_PROBE)
      | V4_INIT \<Rightarrow> Some (session\<lparr>se_state := CLOSED\<rparr>, FATE_RM)
      | V6_INIT \<Rightarrow> Some (session\<lparr>se_state := CLOSED\<rparr>, FATE_RM)
      | V4_FIN_RCV \<Rightarrow> Some (session\<lparr>se_state := CLOSED\<rparr>, FATE_RM)
      | V6_FIN_RCV \<Rightarrow> Some (session\<lparr>se_state := CLOSED\<rparr>, FATE_RM)
      | V4_FIN_V6_FIN_RCV \<Rightarrow> Some (session\<lparr>se_state := CLOSED\<rparr>, FATE_RM)
      | TRANS \<Rightarrow> Some (session\<lparr>se_state := CLOSED\<rparr>, FATE_RM)
      | CLOSED \<Rightarrow> Some (session, FATE_RM))"

text \<open>
  \<^verbatim>\<open>bibdb_init\<close> and \<^verbatim>\<open>palloc_init\<close> get their random numbers and allocation outcomes as arguments.
\<close>

definition filtering_init :: "bool \<Rightarrow> bool \<Rightarrow> (nat \<Rightarrow> u8) \<Rightarrow> u32 \<Rightarrow> errno option \<Rightarrow> status \<Rightarrow> 'a session_db_scheme \<Rightarrow>
    (status \<times> 'a session_db_scheme) option" where
  "filtering_init bib_cache kmalloc_ok random_byte tmp alloc_hash sess_cache s =
     (case bibdb_init bib_cache s of (error, s1) \<Rightarrow>
        if error \<noteq> Ok then Some (error, s1)
        else case palloc_init kmalloc_ok random_byte tmp alloc_hash s1 of (error, s2) \<Rightarrow>
          if error \<noteq> Ok then do { s3 \<leftarrow> bibdb_destroy s2; Some (error, s3) }
          else case sessiondb_init sess_cache expired_cb expired_cb s2 of (error, s3) \<Rightarrow>
            if error \<noteq> Ok then do { s4 \<leftarrow> bibdb_destroy (palloc_destroy s3); Some (error, s4) }
            else Some (Ok, s3))"

definition filtering_destroy :: "sess_env \<Rightarrow> 'a session_db_scheme \<Rightarrow> 'a session_db_scheme option" where
  "filtering_destroy env s = do { s1 \<leftarrow> sessiondb_destroy env s; bibdb_destroy (palloc_destroy s1) }"

section \<open>BIB entries and sessions\<close>

definition xlat_addr64 :: "filter_env \<Rightarrow> tuple \<Rightarrow> (errno + in_addr) option" where
  "xlat_addr64 env tuple6 = rfc6052_6to4 (fe_pool6 env) (ta6_l3 (addr6 (t_dst tuple6)))"

definition create_bib6 :: "filter_env \<Rightarrow> packet \<Rightarrow> tuple \<Rightarrow> 'a session_db_scheme \<Rightarrow>
    ((errno + ptr) \<times> 'a session_db_scheme) option" where
  "create_bib6 env in_pkt tuple6 s =
     do { r \<leftarrow> xlat_addr64 env tuple6;
          (case r of
             Inl error \<Rightarrow> Some (Inl error, s)
           | Inr daddr \<Rightarrow>
               do { (r, s1) \<leftarrow> palloc_allocate (fe_crypto env) (fe_pool4 env) (sk_mark (pkt_skb in_pkt)) tuple6 daddr s;
                    (case r of
                       Inl error \<Rightarrow> Some (Inl error, s1)
                     | Inr saddr \<Rightarrow>
                         (case bibentry_create (fe_bib_alloc env) saddr (addr6 (t_src tuple6)) False (t_l4_proto tuple6) (bibs s1) of
                            (None, h) \<Rightarrow> Some (Inl ENOMEM, s1\<lparr>bibs := h\<rparr>)
                          | (Some bib, h) \<Rightarrow> Some (Inr bib, s1\<lparr>bibs := h\<rparr>))) }) }"

definition get_or_create_bib6 :: "filter_env \<Rightarrow> packet \<Rightarrow> tuple \<Rightarrow> 'a session_db_scheme \<Rightarrow>
    ((errno + ptr) \<times> 'a session_db_scheme) option" where
  "get_or_create_bib6 env in_pkt tuple6 s =
     do { (r, s1) \<leftarrow> bibdb_get tuple6 s;
          (if r \<noteq> Inl ESRCH then Some (r, s1)
           else
             do { (r, s2) \<leftarrow> create_bib6 env in_pkt tuple6 s1;
                  (case r of
                     Inl error \<Rightarrow> Some (Inl error, s2)
                   | Inr bib \<Rightarrow>
                       do { (error, s3) \<leftarrow> bibdb_add (fe_ops env) bib s2;
                            (case error of
                               Err e \<Rightarrow> do { h \<leftarrow> bibentry_kfree bib (bibs s3); Some (Inl e, s3\<lparr>bibs := h\<rparr>) }
                             | _ \<Rightarrow> Some (Inr bib, s3)) }) }) }"

definition create_session :: "filter_env \<Rightarrow> tuple \<Rightarrow> ptr option \<Rightarrow> 'a session_db_scheme \<Rightarrow>
    ((errno + ptr) \<times> 'a session_db_scheme) option" where
  "create_session env tuple bib s =
     do { addrs \<leftarrow> (case t_l3_proto tuple of
            L3PROTO_IPV6 \<Rightarrow>
              do { p \<leftarrow> bib; b \<leftarrow> bibs s p;
                   r \<leftarrow> xlat_addr64 env tuple;
                   Some (case r of
                           Inl error \<Rightarrow> Inl error
                         | Inr remote4_l3 \<Rightarrow>
                             Inr (addr6 (t_src tuple), addr6 (t_dst tuple), b_ipv4 b,
                                  \<lparr>ta4_l3 = remote4_l3,
                                   ta4_l4 = (if t_l4_proto tuple \<noteq> L4PROTO_ICMP then ta6_l4 (addr6 (t_dst tuple)) else ta4_l4 (b_ipv4 b))\<rparr>)) }
          | L3PROTO_IPV4 \<Rightarrow>
              do { remote6 \<leftarrow> (case bib of None \<Rightarrow> Some \<lparr>ta6_l3 = 0, ta6_l4 = 0\<rparr> | Some p \<Rightarrow> map_option b_ipv6 (bibs s p));
                   r \<leftarrow> rfc6052_4to6 (fe_pool6 env) (ta4_l3 (addr4 (t_src tuple)));
                   (case r of
                      Inl error \<Rightarrow> Some (Inl error)
                    | Inr local6_l3 \<Rightarrow>
                        do { local6_l4 \<leftarrow> (if t_l4_proto tuple \<noteq> L4PROTO_ICMP then Some (ta4_l4 (addr4 (t_src tuple)))
                                          else do { p \<leftarrow> bib; b \<leftarrow> bibs s p; Some (ta6_l4 (b_ipv6 b)) });
                             Some (Inr (remote6, \<lparr>ta6_l3 = local6_l3, ta6_l4 = local6_l4\<rparr>, addr4 (t_dst tuple), addr4 (t_src tuple))) }) });
          (case addrs of
             Inl error \<Rightarrow> Some (Inl error, s)
           | Inr (remote6, local6, local4, remote4) \<Rightarrow>
               do { (session, s1) \<leftarrow> session_create (ev_session_alloc (fe_sess env)) remote6 local6 local4 remote4 (t_l4_proto tuple) bib s;
                    Some (case session of None \<Rightarrow> Inl ENOMEM | Some p \<Rightarrow> Inr p, s1) }) }"

definition update_timer :: fate_cb where
  "update_timer now arg session = Some (session, FATE_TIMER_EST)"

definition get_or_create_session :: "filter_env \<Rightarrow> tuple \<Rightarrow> packet \<Rightarrow> ptr \<Rightarrow> 'a session_db_scheme \<Rightarrow>
    ((errno + ptr) \<times> 'a session_db_scheme) option" where
  "get_or_create_session env tuple pkt bib s =
     do { (r, s1) \<leftarrow> sessiondb_get (fe_sess env) tuple (Some update_timer) (Some pkt) s;
          (if r \<noteq> Inl ESRCH then Some (r, s1)
           else
             do { (r, s2) \<leftarrow> create_session env tuple (Some bib) s1;
                  (case r of
                     Inl error \<Rightarrow> Some (Inl error, s2)
                   | Inr session \<Rightarrow>
                       do { (error, s3) \<leftarrow> sessiondb_add (fe_sess env) session True s2;
                            (case error of
                               Err e \<Rightarrow> do { s4 \<leftarrow> session_return (fe_ops env) session s3; Some (Inl e, s4) }
                             | _ \<Rightarrow> Some (Inr session, s3)) }) }) }"

section \<open>UDP and ICMP\<close>

definition count_stat :: "packet \<Rightarrow> ip_stat \<Rightarrow> 'a sess_db_scheme \<Rightarrow> 'a sess_db_scheme" where
  "count_stat pkt field s = emit (inc_stats pkt field) s"

definition finish_simple :: "filter_env \<Rightarrow> packet \<Rightarrow> tuple \<Rightarrow> ptr \<Rightarrow> 'a session_db_scheme \<Rightarrow>
    (verdict \<times> 'a session_db_scheme) option" where
  "finish_simple env pkt tuple bib s =
     do { (r, s1) \<leftarrow> get_or_create_session env tuple pkt bib s;
          (case r of
             Inl error \<Rightarrow>
               do { s2 \<leftarrow> bibdb_return (fe_ops env) (Some bib) (count_stat pkt IPSTATS_MIB_INDISCARDS s1); Some (VERDICT_DROP, s2) }
           | Inr session \<Rightarrow>
               do { s2 \<leftarrow> session_return (fe_ops env) session s1;
                    s3 \<leftarrow> bibdb_return (fe_ops env) (Some bib) s2;
                    Some (VERDICT_CONTINUE, s3) }) }"

definition ipv6_simple :: "filter_env \<Rightarrow> packet \<Rightarrow> tuple \<Rightarrow> 'a session_db_scheme \<Rightarrow> (verdict \<times> 'a session_db_scheme) option" where
  "ipv6_simple env pkt tuple6 s =
     do { (r, s1) \<leftarrow> get_or_create_bib6 env pkt tuple6 s;
          (case r of
             Inl error \<Rightarrow> Some (VERDICT_DROP, count_stat pkt IPSTATS_MIB_INDISCARDS s1)
           | Inr bib \<Rightarrow> finish_simple env pkt tuple6 bib s1) }"

definition get_bib4 :: "filter_env \<Rightarrow> packet \<Rightarrow> tuple \<Rightarrow> 'a session_db_scheme \<Rightarrow> ((errno + ptr) \<times> 'a session_db_scheme) option" where
  "get_bib4 env pkt tuple4 s =
     do { (r, s1) \<leftarrow> bibdb_get tuple4 s;
          (case r of
             Inl ESRCH \<Rightarrow> Some (Inl ESRCH, count_stat pkt IPSTATS_MIB_INNOROUTES s1)
           | Inl error \<Rightarrow>
               Some (Inl error, emit (icmp64_send (ev_route4_input (fe_sess env)) pkt ICMPERR_ADDR_UNREACHABLE 0)
                                  (count_stat pkt IPSTATS_MIB_INDISCARDS s1))
           | Inr bib \<Rightarrow>
               do { blocked \<leftarrow> (if config_get_addr_dependent_filtering (fe_cfg env) then map_option Not (sessiondb_allow tuple4 s1)
                               else Some False);
                    (if blocked
                     then do { s2 \<leftarrow> bibdb_return (fe_ops env) (Some bib)
                                       (count_stat pkt IPSTATS_MIB_INDISCARDS
                                         (emit (icmp64_send (ev_route4_input (fe_sess env)) pkt ICMPERR_FILTER 0) s1));
                               Some (Inl EPERM, s2) }
                     else Some (Inr bib, s1)) }) }"

definition ipv4_simple :: "filter_env \<Rightarrow> packet \<Rightarrow> tuple \<Rightarrow> 'a session_db_scheme \<Rightarrow> (verdict \<times> 'a session_db_scheme) option" where
  "ipv4_simple env pkt tuple4 s =
     do { (r, s1) \<leftarrow> get_bib4 env pkt tuple4 s;
          (case r of
             Inl ESRCH \<Rightarrow> Some (VERDICT_ACCEPT, s1)
           | Inl error \<Rightarrow> Some (VERDICT_DROP, s1)
           | Inr bib \<Rightarrow> finish_simple env pkt tuple4 bib s1) }"

section \<open>TCP\<close>

definition tcp_closed_v6_syn :: "filter_env \<Rightarrow> packet \<Rightarrow> tuple \<Rightarrow> 'a session_db_scheme \<Rightarrow> (status \<times> 'a session_db_scheme) option" where
  "tcp_closed_v6_syn env pkt tuple6 s =
     do { (r, s1) \<leftarrow> get_or_create_bib6 env pkt tuple6 s;
          (case r of
             Inl error \<Rightarrow> Some (Err error, s1)
           | Inr bib \<Rightarrow>
               do { (r, s2) \<leftarrow> create_session env tuple6 (Some bib) s1;
                    (error, s4) \<leftarrow>
                      (case r of
                         Inl error \<Rightarrow> Some (Err error, s2)
                       | Inr session \<Rightarrow>
                           do { e \<leftarrow> sessions s2 session;
                                (error, s3) \<leftarrow> sessiondb_add (fe_sess env) session False
                                  (s2\<lparr>sessions := (sessions s2)(session \<mapsto> e\<lparr>se_state := V6_INIT\<rparr>)\<rparr>);
                                s4 \<leftarrow> session_return (fe_ops env) session s3;
                                Some (error, s4) });
                    s5 \<leftarrow> bibdb_return (fe_ops env) (Some bib) s4;
                    Some (error, s5) }) }"

text \<open>The session part of \<^verbatim>\<open>tcp_closed_v4_syn\<close>, between taking and returning the BIB entry, if there is one.\<close>

definition v4_syn_session :: "filter_env \<Rightarrow> packet \<Rightarrow> tuple \<Rightarrow> ptr option \<Rightarrow> 'a session_db_scheme \<Rightarrow>
    (verdict \<times> 'a session_db_scheme) option" where
  "v4_syn_session env pkt tuple4 bib s =
     do { (r, s1) \<leftarrow> create_session env tuple4 bib s;
          (case r of
             Inl error \<Rightarrow> Some (VERDICT_DROP, s1)
           | Inr session \<Rightarrow>
               do { e \<leftarrow> sessions s1 session;
                    let s2 = s1\<lparr>sessions := (sessions s1)(session \<mapsto> e\<lparr>se_state := V4_INIT\<rparr>)\<rparr>
                    in do { (result, s3) \<leftarrow>
                              (if bib = None \<or> config_get_addr_dependent_filtering (fe_cfg env)
                               then do { (error, s3) \<leftarrow> pktqueue_add (fe_sess env) session pkt s2;
                                         Some (if error \<noteq> Ok then VERDICT_DROP else VERDICT_STOLEN, s3) }
                               else do { (error, s3) \<leftarrow> sessiondb_add (fe_sess env) session False s2;
                                         Some (if error \<noteq> Ok then VERDICT_DROP else VERDICT_CONTINUE, s3) });
                            s4 \<leftarrow> session_return (fe_ops env) session s3;
                            Some (result, s4) } }) }"

definition tcp_closed_v4_syn :: "filter_env \<Rightarrow> packet \<Rightarrow> tuple \<Rightarrow> 'a session_db_scheme \<Rightarrow> (verdict \<times> 'a session_db_scheme) option" where
  "tcp_closed_v4_syn env pkt tuple4 s =
     (if config_get_drop_external_connections (fe_cfg env) then Some (VERDICT_DROP, s)
      else
        do { (r, s1) \<leftarrow> bibdb_get tuple4 s;
             (if (case r of Inl error \<Rightarrow> error \<noteq> ESRCH | Inr _ \<Rightarrow> False) then Some (VERDICT_DROP, s1)
              else
                let bib = (case r of Inl _ \<Rightarrow> None | Inr p \<Rightarrow> Some p)
                in do { (result, s2) \<leftarrow> v4_syn_session env pkt tuple4 bib s1;
                        s3 \<leftarrow> (if bib \<noteq> None then bibdb_return (fe_ops env) bib s2 else Some s2);
                        Some (result, s3) }) })"

definition tcp_closed_state :: "filter_env \<Rightarrow> packet \<Rightarrow> tuple \<Rightarrow> 'a session_db_scheme \<Rightarrow> (verdict \<times> 'a session_db_scheme) option" where
  "tcp_closed_state env pkt tuple s =
     do { hdr \<leftarrow> pkt_tcp_hdr pkt;
          (if th_syn hdr
           then
             do { (result, s1) \<leftarrow>
                    (case pkt_l3_proto pkt of
                       L3PROTO_IPV6 \<Rightarrow>
                         do { (error, s1) \<leftarrow> tcp_closed_v6_syn env pkt tuple s;
                              Some (case error of Err _ \<Rightarrow> VERDICT_DROP | _ \<Rightarrow> VERDICT_CONTINUE, s1) }
                     | L3PROTO_IPV4 \<Rightarrow> tcp_closed_v4_syn env pkt tuple s);
                  Some (result, if result = VERDICT_DROP then count_stat pkt IPSTATS_MIB_INDISCARDS s1 else s1) }
           else
             do { (r, s1) \<leftarrow> bibdb_get tuple s;
                  (case r of
                     Inl error \<Rightarrow> Some (VERDICT_DROP, count_stat pkt IPSTATS_MIB_INNOROUTES s1)
                   | Inr bib \<Rightarrow>
                       do { s2 \<leftarrow> bibdb_return (fe_ops env) (Some bib) s1; Some (VERDICT_CONTINUE, s2) }) }) }"

text \<open>The functions of the states write to the session and decide on its fate.\<close>

definition tcp_v4_init_state :: "session_entry \<Rightarrow> packet \<Rightarrow> (session_entry \<times> session_fate) option" where
  "tcp_v4_init_state session pkt =
     do { syn6 \<leftarrow> (if pkt_l3_proto pkt = L3PROTO_IPV6 then map_option th_syn (pkt_tcp_hdr pkt) else Some False);
          Some (if syn6 then (session\<lparr>se_state := ESTABLISHED\<rparr>, FATE_TIMER_EST) else (session, FATE_PRESERVE)) }"

definition tcp_v6_init_state :: "session_entry \<Rightarrow> packet \<Rightarrow> (session_entry \<times> session_fate) option" where
  "tcp_v6_init_state session pkt =
     do { hdr \<leftarrow> pkt_tcp_hdr pkt;
          Some (if th_syn hdr
                then (case pkt_l3_proto pkt of
                        L3PROTO_IPV4 \<Rightarrow> (session\<lparr>se_state := ESTABLISHED\<rparr>, FATE_TIMER_EST)
                      | L3PROTO_IPV6 \<Rightarrow> (session, FATE_TIMER_TRANS))
                else (session, FATE_PRESERVE)) }"

definition tcp_established_state :: "session_entry \<Rightarrow> packet \<Rightarrow> (session_entry \<times> session_fate) option" where
  "tcp_established_state session pkt =
     do { hdr \<leftarrow> pkt_tcp_hdr pkt;
          Some (if th_fin hdr
                then (case pkt_l3_proto pkt of
                        L3PROTO_IPV4 \<Rightarrow> (session\<lparr>se_state := V4_FIN_RCV\<rparr>, FATE_PRESERVE)
                      | L3PROTO_IPV6 \<Rightarrow> (session\<lparr>se_state := V6_FIN_RCV\<rparr>, FATE_PRESERVE))
                else if th_rst hdr then (session\<lparr>se_state := TRANS\<rparr>, FATE_TIMER_TRANS)
                else (session, FATE_TIMER_EST)) }"

definition tcp_v4_fin_rcv_state :: "session_entry \<Rightarrow> packet \<Rightarrow> (session_entry \<times> session_fate) option" where
  "tcp_v4_fin_rcv_state session pkt =
     do { fin6 \<leftarrow> (if pkt_l3_proto pkt = L3PROTO_IPV6 then map_option th_fin (pkt_tcp_hdr pkt) else Some False);
          Some (if fin6 then (session\<lparr>se_state := V4_FIN_V6_FIN_RCV\<rparr>, FATE_TIMER_TRANS) else (session, FATE_TIMER_EST)) }"

definition tcp_v6_fin_rcv_state :: "session_entry \<Rightarrow> packet \<Rightarrow> (session_entry \<times> session_fate) option" where
  "tcp_v6_fin_rcv_state session pkt =
     do { fin4 \<leftarrow> (if pkt_l3_proto pkt = L3PROTO_IPV4 then map_option th_fin (pkt_tcp_hdr pkt) else Some False);
          Some (if fin4 then (session\<lparr>se_state := V4_FIN_V6_FIN_RCV\<rparr>, FATE_TIMER_TRANS) else (session, FATE_TIMER_EST)) }"

definition tcp_v4_fin_v6_fin_rcv_state :: session_fate where
  "tcp_v4_fin_v6_fin_rcv_state = FATE_PRESERVE"

definition tcp_trans_state :: "session_entry \<Rightarrow> packet \<Rightarrow> (session_entry \<times> session_fate) option" where
  "tcp_trans_state session pkt =
     do { hdr \<leftarrow> pkt_tcp_hdr pkt;
          Some (if \<not> th_rst hdr then (session\<lparr>se_state := ESTABLISHED\<rparr>, FATE_TIMER_EST) else (session, FATE_PRESERVE)) }"

definition tcp_state_machine :: fate_cb where
  "tcp_state_machine now arg session =
     (case se_state session of
        V4_INIT \<Rightarrow> do { pkt \<leftarrow> arg; tcp_v4_init_state session pkt }
      | V6_INIT \<Rightarrow> do { pkt \<leftarrow> arg; tcp_v6_init_state session pkt }
      | ESTABLISHED \<Rightarrow> do { pkt \<leftarrow> arg; tcp_established_state session pkt }
      | V4_FIN_RCV \<Rightarrow> do { pkt \<leftarrow> arg; tcp_v4_fin_rcv_state session pkt }
      | V6_FIN_RCV \<Rightarrow> do { pkt \<leftarrow> arg; tcp_v6_fin_rcv_state session pkt }
      | V4_FIN_V6_FIN_RCV \<Rightarrow> Some (session, tcp_v4_fin_v6_fin_rcv_state)
      | TRANS \<Rightarrow> do { pkt \<leftarrow> arg; tcp_trans_state session pkt }
      | CLOSED \<Rightarrow> Some (session, FATE_RM))"

definition tcp :: "filter_env \<Rightarrow> packet \<Rightarrow> tuple \<Rightarrow> 'a session_db_scheme \<Rightarrow> (verdict \<times> 'a session_db_scheme) option" where
  "tcp env pkt tuple s =
     do { (r, s1) \<leftarrow> sessiondb_get (fe_sess env) tuple (Some tcp_state_machine) (Some pkt) s;
          (case r of
             Inl ESRCH \<Rightarrow> tcp_closed_state env pkt tuple s1
           | Inl error \<Rightarrow> Some (VERDICT_DROP, count_stat pkt IPSTATS_MIB_INDISCARDS s1)
           | Inr session \<Rightarrow> do { s2 \<leftarrow> session_return (fe_ops env) session s1; Some (VERDICT_CONTINUE, s2) }) }"

section \<open>The whole step\<close>

definition filtering_dispatch :: "filter_env \<Rightarrow> packet \<Rightarrow> tuple \<Rightarrow> 'a session_db_scheme \<Rightarrow> (verdict \<times> 'a session_db_scheme) option" where
  "filtering_dispatch env pkt in_tuple s =
     (case pkt_l4_proto pkt of
        L4PROTO_UDP \<Rightarrow>
          (case pkt_l3_proto pkt of
             L3PROTO_IPV6 \<Rightarrow> ipv6_simple env pkt in_tuple s
           | L3PROTO_IPV4 \<Rightarrow> ipv4_simple env pkt in_tuple s)
      | L4PROTO_TCP \<Rightarrow> tcp env pkt in_tuple s
      | L4PROTO_ICMP \<Rightarrow>
          (case pkt_l3_proto pkt of
             L3PROTO_IPV6 \<Rightarrow>
               (if config_get_filter_icmpv6_info (fe_cfg env)
                then Some (VERDICT_DROP, count_stat pkt IPSTATS_MIB_INDISCARDS s)
                else ipv6_simple env pkt in_tuple s)
           | L3PROTO_IPV4 \<Rightarrow> ipv4_simple env pkt in_tuple s)
      | L4PROTO_OTHER \<Rightarrow> Some (VERDICT_DROP, s))"

definition filtering_and_updating :: "filter_env \<Rightarrow> packet \<Rightarrow> tuple \<Rightarrow> 'a session_db_scheme \<Rightarrow>
    (verdict \<times> 'a session_db_scheme) option" where
  "filtering_and_updating env pkt in_tuple s =
     (case pkt_l3_proto pkt of
        L3PROTO_IPV6 \<Rightarrow>
          do { hdr \<leftarrow> pkt_ip6_hdr pkt;
               loop \<leftarrow> pool6_contains (fe_pool6 env) (Some (ip6_saddr hdr));
               (if loop then Some (VERDICT_DROP, count_stat pkt IPSTATS_MIB_INADDRERRORS s)
                else
                  do { ours \<leftarrow> pool6_contains (fe_pool6 env) (Some (ip6_daddr hdr));
                       (if \<not> ours then Some (VERDICT_ACCEPT, s)
                        else
                          do { error \<leftarrow> pkt_is_icmp6_error pkt;
                               (if error then Some (VERDICT_CONTINUE, s) else filtering_dispatch env pkt in_tuple s) }) }) }
      | L3PROTO_IPV4 \<Rightarrow>
          do { ours \<leftarrow> pool4db_contains (pe_devs (fe_pool4 env)) (pe_pool4 (fe_pool4 env)) (t_l4_proto in_tuple) (addr4 (t_dst in_tuple));
               (if \<not> ours then Some (VERDICT_ACCEPT, s)
                else
                  do { error \<leftarrow> pkt_is_icmp4_error pkt;
                       (if error then Some (VERDICT_CONTINUE, s) else filtering_dispatch env pkt in_tuple s) }) })"

end
