(* ===== verification/Filtering_Invariant.thy ===== *)
theory Filtering_Invariant
  imports Filtering
begin

text \<open>
  Every branch of the filtering and updating step keeps the invariant of the BIB and the session
  database, and gives back each reference it takes.
\<close>

section \<open>The callbacks\<close>

lemma expires_ok_expired_cb: "expires_ok L4PROTO_TCP expired_cb"
  unfolding expires_ok_def
proof (intro conjI allI impI)
  fix now and x :: expirer and e
  assume e: "placed x e" "se_l4_proto e = L4PROTO_TCP"
  show "\<exists>st u f. expired_cb now None e = Some (e\<lparr>se_state := st, se_update_time := u\<rparr>, f) \<and> f \<noteq> FATE_PRESERVE \<and>
      fate_target f \<noteq> Some x \<and> (\<forall>y. fate_target f = Some y \<longrightarrow> placed y (e\<lparr>se_state := st\<rparr>))"
  proof (cases "se_state e = ESTABLISHED")
    case True
    then show ?thesis using e
      by (intro exI [of _ TRANS] exI [of _ now] exI [of _ FATE_PROBE]) (auto simp: expired_cb_def fate_target_def placed_def est_states_def)
  next
    case False
    then have "expired_cb now None e = Some (e\<lparr>se_state := CLOSED, se_update_time := se_update_time e\<rparr>, FATE_RM)"
      using e by (cases "se_state e") (auto simp: expired_cb_def placed_def)
    then show ?thesis by (fastforce simp: fate_target_def)
  qed
next
  fix now e n
  show "map_option snd (expired_cb now None (e\<lparr>se_refcounter := n\<rparr>)) = map_option snd (expired_cb now None e)"
    by (cases "se_state e") (simp_all add: expired_cb_def)
qed

interpretation expired_cb: expire_contract expired_cb L4PROTO_TCP
  using expires_ok_expired_cb by (simp add: expire_contract_iff)

lemma update_timer_contract:
  assumes "proto \<noteq> L4PROTO_TCP"
  shows "fate_contract update_timer proto pkt"
proof
  fix x :: expirer and e :: session_entry and now :: u64
  assume "placed x e" "se_l4_proto e = proto"
  then show "\<exists>st u f. update_timer now pkt e = Some (e\<lparr>se_state := st, se_update_time := u\<rparr>, f) \<and>
      (\<forall>y. fate_target f = Some y \<longrightarrow> placed y (e\<lparr>se_state := st\<rparr>)) \<and> (f = FATE_PRESERVE \<longrightarrow> placed x (e\<lparr>se_state := st\<rparr>))"
    using assms by (intro exI [of _ "se_state e"] exI [of _ "se_update_time e"] exI [of _ FATE_TIMER_EST])
      (simp add: update_timer_def fate_target_def placed_def)
qed

interpretation update_udp: fate_contract update_timer L4PROTO_UDP pkt for pkt
  by (rule update_timer_contract) simp

interpretation update_icmp: fate_contract update_timer L4PROTO_ICMP pkt for pkt
  by (rule update_timer_contract) simp

lemmas tcp_state_defs = tcp_state_machine_def tcp_v4_init_state_def tcp_v6_init_state_def tcp_established_state_def
  tcp_v4_fin_rcv_state_def tcp_v6_fin_rcv_state_def tcp_v4_fin_v6_fin_rcv_state_def tcp_trans_state_def

lemma tcp_machine_contract:
  assumes hdr: "pkt_tcp_hdr pkt = Some hdr"
  shows "fate_contract tcp_state_machine L4PROTO_TCP (Some pkt)"
proof
  fix x :: expirer and e :: session_entry and now :: u64
  assume e: "placed x e" "se_l4_proto e = L4PROTO_TCP"
  have "tcp_state_machine now (Some pkt) e \<noteq> None"
    by (cases "se_state e"; cases "pkt_l3_proto pkt") (simp_all add: tcp_state_defs hdr)
  then obtain e1 f where r: "tcp_state_machine now (Some pkt) e = Some (e1, f)" by auto
  have e1: "e1 = e\<lparr>se_state := se_state e1, se_update_time := se_update_time e\<rparr>"
    using r by (cases "se_state e"; cases "pkt_l3_proto pkt") (auto simp: tcp_state_defs hdr split: if_splits)
  have "(\<forall>y. fate_target f = Some y \<longrightarrow> placed y (e\<lparr>se_state := se_state e1\<rparr>)) \<and> (f = FATE_PRESERVE \<longrightarrow> placed x (e\<lparr>se_state := se_state e1\<rparr>))"
    using r e by (cases "se_state e"; cases "pkt_l3_proto pkt")
      (auto simp: tcp_state_defs hdr fate_target_def placed_def est_states_def split: if_splits)
  then show "\<exists>st u f. tcp_state_machine now (Some pkt) e = Some (e\<lparr>se_state := st, se_update_time := u\<rparr>, f) \<and>
      (\<forall>y. fate_target f = Some y \<longrightarrow> placed y (e\<lparr>se_state := st\<rparr>)) \<and> (f = FATE_PRESERVE \<longrightarrow> placed x (e\<lparr>se_state := st\<rparr>))"
    using r e1 by metis
qed

section \<open>References at work\<close>

text \<open>The sessions in the tables and the clock are the same.\<close>

definition db_same :: "'a session_db_scheme \<Rightarrow> 'a session_db_scheme \<Rightarrow> bool" where
  "db_same s s' \<longleftrightarrow> jiffies s' = jiffies s \<and> (\<forall>proto. db_view proto s' = db_view proto s)"

lemma db_same_refl [simp]: "db_same s s"
  by (simp add: db_same_def)

lemma db_same_trans: "db_same s s' \<Longrightarrow> db_same s' s'' \<Longrightarrow> db_same s s''"
  by (simp add: db_same_def)

lemma db_same_frame: "db_same s s' \<Longrightarrow> db_frame p s s'"
  by (simp add: db_same_def db_frame_def)

lemma db_frame_trans: "db_frame p s s' \<Longrightarrow> db_frame p s' s'' \<Longrightarrow> db_frame p s s''"
  by (simp add: db_frame_def)

lemma sess_ok_wf: "sess_ok B K s \<Longrightarrow> bib_wf s" "sess_ok B K s \<Longrightarrow> refs_ok B s"
  by (simp_all add: sess_ok_def pktq_ok_def refs_ok_def)

text \<open>Whatever changes the BIB only, and the events the packets cause.\<close>

lemma sess_ok_bib:
  assumes ok: "sess_ok B K s" and only: "bib_only s s'" and refs: "refs_ok B' s'"
  shows "sess_ok B' K s'" "db_same s s'"
proof -
  have f: "sessions s' = sessions s" "nodes s' = nodes s" "node_list s' = node_list s" "node_tree s' = node_tree s" "node_count s' = node_count s"
    "pq_timer s' = pq_timer s" "jiffies s' = jiffies s" "sess_get_table proto s' = sess_get_table proto s" "sess_refs s' = sess_refs s" for proto
    using only by (cases s; cases s'; simp add: bib_only_def sess_get_table_def sess_refs_def cong: l4_protocol.case_cong)+
  have v: "sview s' = sview s" using f(1) by (simp add: sview_def fun_eq_iff)
  show "sess_ok B' K s'"
    using ok refs f v by (simp add: sess_ok_def pktq_ok_def pktq_wf_def node_refs_def sess_count_def pktq_timer_ok_def)
  show "db_same s s'" using f v by (simp add: db_same_def db_view_def db_nodes_def)
qed

lemma sess_ok_emit [simp]: "sess_ok B K (emit ev s) = sess_ok B K s" "db_view proto (emit ev s) = db_view proto s"
proof -
  have f: "sess_get_table proto (emit ev s) = sess_get_table proto s" "sess_refs (emit ev s) = sess_refs s" for proto
    by (cases proto; simp add: emit_def sess_get_table_def sess_refs_def)+
  show "sess_ok B K (emit ev s) = sess_ok B K s" by (simp add: sess_ok_def f pktq_timer_ok_def)
  show "db_view proto (emit ev s) = db_view proto s" by (simp add: db_view_def db_nodes_def f)
qed

lemma count_stat_simps [simp]:
  "sess_ok B K (count_stat pkt st s) = sess_ok B K s" "db_same s' (count_stat pkt st s) = db_same s' s" "db_same s' (emit ev s) = db_same s' s"
  "bibs (count_stat pkt st s) = bibs s"
  by (simp_all add: count_stat_def db_same_def)

lemma sess_ok_ephemeral [simp]:
  "sess_ok B K (s\<lparr>next_ephemeral := n\<rparr>) = sess_ok B K s" "db_same s (s\<lparr>next_ephemeral := n\<rparr>)"
proof -
  have g: "bib_get_table q (s\<lparr>next_ephemeral := n\<rparr>) = bib_get_table q s" for q by (cases q) (simp_all add: bib_get_table_def)
  have t: "sess_get_table q (s\<lparr>next_ephemeral := n\<rparr>) = sess_get_table q s" for q by (cases q) (simp_all add: sess_get_table_def)
  have w: "bib_wf (s\<lparr>next_ephemeral := n\<rparr>) = bib_wf s" by (simp add: bib_wf_def bib_db_ok_def bib_live_def g)
  have v: "sview (s\<lparr>next_ephemeral := n\<rparr>) = sview s" by (simp add: sview_def fun_eq_iff)
  show "sess_ok B K (s\<lparr>next_ephemeral := n\<rparr>) = sess_ok B K s"
    by (simp add: sess_ok_def pktq_ok_def pktq_wf_def node_refs_def sess_count_def pktq_timer_ok_def refs_ok_def bib_count_def v w t sess_refs_def)
  show "db_same s (s\<lparr>next_ephemeral := n\<rparr>)" by (simp add: db_same_def db_view_def db_nodes_def t v)
qed

lemma bib_only_queue: "bib_only s s' \<Longrightarrow> queue_same s s'"
  by (cases s; cases s'; simp add: bib_only_def queue_same_def)

lemma refs_ok_get:
  assumes ok: "refs_ok B s" and p: "bibs s p = Some b"
  shows "refs_ok (add_mset p B) (bib_get_ref p s)"
proof -
  have "bib_wf (bib_get_ref p s)" using ok by (simp add: bib_get_ref_wf refs_ok_wf)
  moreover have f: "bibs (bib_get_ref p s) = (bibs s)(p \<mapsto> b\<lparr>b_refcounter := b_refcounter b + 1\<rparr>)" "sessions (bib_get_ref p s) = sessions s"
    using p by (simp_all add: bib_get_ref_def)
  moreover have "bib_count (bib_get_ref p s) q = bib_count s q + (if q = p then 1 else 0)" for q
    using p by (simp add: bib_count_def f)
  ultimately show ?thesis using ok p by (fastforce simp: refs_ok_def sess_agrees_def split: if_splits)
qed

lemma bib_only_get_ref [simp]: "bib_only s (bib_get_ref p s)"
  by (simp add: bib_get_ref_def split: option.split)

definition bib_matches :: "tuple \<Rightarrow> bib_entry \<Rightarrow> bool" where
  "bib_matches tuple b \<longleftrightarrow> b_l4_proto b = t_l4_proto tuple \<and>
     (case t_l3_proto tuple of L3PROTO_IPV6 \<Rightarrow> b_ipv6 b = addr6 (t_src tuple) | L3PROTO_IPV4 \<Rightarrow> b_ipv4 b = addr4 (t_dst tuple))"

text \<open>Whether there is a BIB entry for the tuple.\<close>

definition known :: "tuple \<Rightarrow> 'a bib_db_scheme \<Rightarrow> bool" where
  "known tuple s \<longleftrightarrow> (\<exists>p b. bibs s p = Some b \<and> bib_matches tuple b)"

lemma bibdb_get_token:
  assumes ok: "sess_ok B K s" and proto: "t_l4_proto tuple \<noteq> L4PROTO_OTHER"
  obtains (found) p b s' where "bibdb_get tuple s = Some (Inr p, s')" "sess_ok (add_mset p B) K s'" "db_same s s'" "bibs s' p = Some b"
      "bib_matches tuple b" "known tuple s" "queue_same s s'"
    | (missing) "bibdb_get tuple s = Some (Inl ESRCH, s)" "\<not> known tuple s"
proof -
  have found': thesis if p: "bibs s p = Some b" "bib_matches tuple b" "bibdb_get tuple s = Some (Inr p, bib_get_ref p s)" for p b
  proof (rule found [OF p(3)])
    note r = sess_ok_bib [OF ok bib_only_get_ref refs_ok_get [OF sess_ok_wf(2) [OF ok] p(1)]]
    show "sess_ok (add_mset p B) K (bib_get_ref p s)" "db_same s (bib_get_ref p s)" by (rule r)+
    show "bibs (bib_get_ref p s) p = Some (b\<lparr>b_refcounter := b_refcounter b + 1\<rparr>)" using p(1) by (simp add: bib_get_ref_def)
    show "bib_matches tuple (b\<lparr>b_refcounter := b_refcounter b + 1\<rparr>)" using p(2) by (simp add: bib_matches_def split: l3_protocol.splits)
    show "known tuple s" using p(1,2) by (auto simp: known_def)
    show "queue_same s (bib_get_ref p s)" by (simp add: bib_only_queue)
  qed
  show ?thesis
  proof (cases "t_l3_proto tuple")
    case L3PROTO_IPV6
    show ?thesis
    proof (cases rule: bibdb_get6_cases [OF sess_ok_wf(1) [OF ok] proto, of "addr6 (t_src tuple)"])
      case (1 p b)
      then show ?thesis using found' [of p b] L3PROTO_IPV6 by (simp add: bib_matches_def bibdb_get_def)
    next
      case 2
      then show ?thesis using missing L3PROTO_IPV6 by (auto simp: known_def bib_matches_def bibdb_get_def)
    qed
  next
    case L3PROTO_IPV4
    show ?thesis
    proof (cases rule: bibdb_get4_cases [OF sess_ok_wf(1) [OF ok] proto, of "addr4 (t_dst tuple)"])
      case (1 p b)
      then show ?thesis using found' [of p b] L3PROTO_IPV4 by (simp add: bib_matches_def bibdb_get_def)
    next
      case 2
      then show ?thesis using missing L3PROTO_IPV4 by (auto simp: known_def bib_matches_def bibdb_get_def)
    qed
  qed
qed

lemma bibdb_return_tok:
  assumes laws: "rb_laws ops" and ok: "sess_ok (add_mset p B) K s"
  obtains s' where "bibdb_return ops (Some p) s = Some s'" "sess_ok B K s'" "db_same s s'" "queue_same s s'"
proof -
  obtain s' where s': "bibdb_return ops (Some p) s = Some s'" "bib_only s s'" "refs_ok B s'"
    by (rule bibdb_return_token [OF laws sess_ok_wf(2) [OF ok]])
  show ?thesis by (rule that [OF s'(1) sess_ok_bib [OF ok s'(2,3)]]) (rule bib_only_queue [OF s'(2)])
qed

lemma session_return_tok:
  assumes laws: "rb_laws ops" and ok: "sess_ok B (add_mset q K) s"
  obtains s' where "session_return ops q s = Some s'" "sess_ok B K s'" "db_same s s'" "queue_same s s'"
proof -
  have pq: "pktq_ok [] B (add_mset q (sess_refs s + K)) s" using ok by (simp add: sess_ok_def)
  obtain s' where s': "session_return ops q s = Some s'" "pktq_ok [] B (sess_refs s + K) s'" "ref_only s s'"
    "sview s' = (if q \<in># node_refs [] s + (sess_refs s + K) then sview s else (sview s)(q := None))"
    by (rule session_return_token [OF laws pq])
  have t: "pktq_timer_ok s'" using ok queue_same_timer [OF ref_only_queue [OF s'(3)]] by (simp add: sess_ok_def)
  note sh = sess_ok_shrink [OF ok s'(2) ref_only_frame [OF s'(3)] t]
  have v: "sview s' p = sview s p \<or> sview s' p = None" for p using s'(4) by (simp split: if_splits)
  have "jiffies s' = jiffies s" using ref_only_frame [OF s'(3)] by (simp add: pktq_frame_def)
  then have "db_same s s'" using sh(2) v by (simp add: db_same_def)
  moreover have "sess_ok B K s'" by (rule sh(1)) (simp add: v)
  ultimately show ?thesis using ref_only_queue [OF s'(3)] by (intro that [OF s'(1)])
qed

section \<open>The environment\<close>

text \<open>
  What the step relies on: the laws of the tree code, allocators that return unused memory, a
  well-formed IPv4 pool, an IPv6 pool that was set up, and a digest of at least four words.
\<close>

definition filter_env_ok :: "filter_env \<Rightarrow> bool" where
  "filter_env_ok env \<longleftrightarrow> sess_env_ok (fe_sess env) \<and> bib_alloc_ok (fe_bib_alloc env) \<and>
     (\<exists>database. env_ok (fe_pool4 env) database) \<and> fe_pool6 env \<noteq> None \<and>
     (\<forall>sg ws. crypto_hash_digest (fe_crypto env) sg = Inr ws \<longrightarrow> 4 \<le> length ws)"

lemma filter_env_okD:
  assumes "filter_env_ok env"
  shows "sess_env_ok (fe_sess env)" "rb_laws (fe_ops env)" "bib_alloc_ok (fe_bib_alloc env)"
    "session_alloc_ok (ev_session_alloc (fe_sess env))"
  using assms by (simp_all add: filter_env_ok_def sess_env_ok_def)

lemma filter_env_xlat:
  assumes "filter_env_ok env"
  obtains r where "xlat_addr64 env tuple6 = Some r"
  using assms by (cases "fe_pool6 env") (auto simp: filter_env_ok_def xlat_addr64_def rfc6052_6to4_def pool6_get_def)

lemma filter_env_xlat46:
  assumes "filter_env_ok env"
  obtains r where "rfc6052_4to6 (fe_pool6 env) a = Some r"
  using assms by (cases "fe_pool6 env") (auto simp: filter_env_ok_def rfc6052_4to6_def pool6_peek_def)

lemma filter_env_hash:
  assumes "filter_env_ok env"
  obtains r where "palloc_f (fe_crypto env) key a b p = Some r"
proof -
  have "palloc_f (fe_crypto env) key a b p \<noteq> None"
    using assms by (auto simp: filter_env_ok_def palloc_f_def Let_def list_at_def numeral_eq_Suc Suc_le_eq split: option.splits sum.splits)
  then show ?thesis using that by blast
qed

section \<open>BIB entries\<close>

lemma palloc_returns:
  assumes env: "filter_env_ok env" and wf: "bib_wf s"
  obtains r n where "palloc_allocate (fe_crypto env) (fe_pool4 env) mark tuple6 daddr s = Some (r, s\<lparr>next_ephemeral := n\<rparr>)"
proof -
  obtain database where db: "env_ok (fe_pool4 env) database" using env by (auto simp: filter_env_ok_def)
  obtain r where r: "palloc_f (fe_crypto env) (secret_key s) (ta6_l3 (addr6 (t_src tuple6))) (ta6_l3 (addr6 (t_dst tuple6)))
      (ta6_l4 (addr6 (t_dst tuple6))) = Some r" by (rule filter_env_hash [OF env])
  have "\<exists>n. s = s\<lparr>next_ephemeral := n\<rparr>" by (rule exI [of _ "next_ephemeral s"]) simp
  then have "\<exists>r n. palloc_allocate (fe_crypto env) (fe_pool4 env) mark tuple6 daddr s = Some (r, s\<lparr>next_ephemeral := n\<rparr>)"
    unfolding palloc_allocate_eq [OF wf db r] Let_def by (auto split: sum.split option.split)
  then show ?thesis using that by blast
qed

lemma refs_ok_new_bib:
  assumes ok: "refs_ok B s" and p: "bibs s p = None" and s': "bib_only s s'" "bib_wf s'" "bibs s' = (bibs s)(p \<mapsto> b)" "b_refcounter b = 1"
  shows "refs_ok (add_mset p B) s'"
proof -
  have sess: "sessions s' = sessions s" using s'(1) by (cases s; cases s'; simp add: bib_only_def)
  have cnt: "bib_count s q = int (card (holders (sessions s) q)) + int (count B q)" for q using ok by (simp add: refs_ok_def)
  have zero: "card (holders (sessions s) p) = 0" "count B p = 0" using cnt [of p] p by (simp_all add: bib_count_def)
  then have none: "se_bib e \<noteq> Some p" if "sessions s q = Some e" for q e
    using that ok holders_finite [of "sessions s" p] by (auto simp: refs_ok_def holders_def)
  have "bib_count s' q = bib_count s q + (if q = p then 1 else 0)" for q using s'(3,4) p by (simp add: bib_count_def)
  then show ?thesis using ok s'(2,3) sess none zero unfolding refs_ok_def by (auto split: if_splits)
qed

lemma bibdb_add_token:
  assumes laws: "rb_laws ops" and ok: "sess_ok B K s" and p: "bibs s p = None" and b: "b_refcounter b = 1" "b_l4_proto b \<noteq> L4PROTO_OTHER"
  obtains (dup) s' b' where "bibdb_add ops p (s\<lparr>bibs := (bibs s)(p \<mapsto> b)\<rparr>) = Some (Err EEXIST, s')" "bibs s' p = Some b'"
      "sess_ok B K (s'\<lparr>bibs := (bibs s')(p := None)\<rparr>)" "db_same s (s'\<lparr>bibs := (bibs s')(p := None)\<rparr>)"
    | (added) s' where "bibdb_add ops p (s\<lparr>bibs := (bibs s)(p \<mapsto> b)\<rparr>) = Some (Ok, s')" "sess_ok (add_mset p B) K s'" "db_same s s'"
      "bibs s' p = Some (b\<lparr>b_tree6_hook := True, b_tree4_hook := True\<rparr>)"
proof (rule bibdb_add_cases [OF laws sess_ok_wf(1) [OF ok] p b])
  fix q c s' b' assume a: "bibdb_add ops p (s\<lparr>bibs := (bibs s)(p \<mapsto> b)\<rparr>) = Some (Err EEXIST, s')" "bib_only s s'"
    "bibs s' = (bibs s)(p \<mapsto> b')" "bib_wf (s'\<lparr>bibs := bibs s\<rparr>)"
  have sess: "sessions s' = sessions s" using a(2) by (cases s; cases s'; simp add: bib_only_def)
  have h: "(bibs s')(p := None) = bibs s" using a(3) p by (simp add: fun_upd_idem)
  have "refs_ok B (s'\<lparr>bibs := bibs s\<rparr>)" using sess_ok_wf(2) [OF ok] a(4) sess by (simp add: refs_ok_def bib_count_def)
  then have ok': "sess_ok B K (s'\<lparr>bibs := bibs s\<rparr>)" "db_same s (s'\<lparr>bibs := bibs s\<rparr>)"
    by (rule sess_ok_bib [OF ok, rotated]; simp add: a(2))+
  show thesis using a(1) by (rule dup) (use ok' a(3) h in simp_all)
next
  fix s' assume a: "bibdb_add ops p (s\<lparr>bibs := (bibs s)(p \<mapsto> b)\<rparr>) = Some (Ok, s')" "bib_only s s'" "bib_wf s'"
    "bibs s' = (bibs s)(p \<mapsto> b\<lparr>b_tree6_hook := True, b_tree4_hook := True\<rparr>)"
  have "refs_ok (add_mset p B) s'" by (rule refs_ok_new_bib [OF sess_ok_wf(2) [OF ok] p a(2,3,4)]) (simp add: b)
  note ok' = sess_ok_bib [OF ok a(2) this]
  show thesis by (rule added [OF a(1) ok']) (simp add: a(4))
qed

lemma get_or_create_bib6_ok:
  assumes env: "filter_env_ok env" and ok: "sess_ok B K s" and tuple: "t_l4_proto tuple6 \<noteq> L4PROTO_OTHER" "t_l3_proto tuple6 = L3PROTO_IPV6"
  obtains (failed) e s' where "get_or_create_bib6 env pkt tuple6 s = Some (Inl e, s')" "sess_ok B K s'" "db_same s s'"
    | (ready) p b s' where "get_or_create_bib6 env pkt tuple6 s = Some (Inr p, s')" "sess_ok (add_mset p B) K s'" "db_same s s'"
      "bibs s' p = Some b" "bib_matches tuple6 b"
proof (rule bibdb_get_token [OF ok tuple(1)])
  fix p b s' assume "bibdb_get tuple6 s = Some (Inr p, s')" "sess_ok (add_mset p B) K s'" "db_same s s'" "bibs s' p = Some b" "bib_matches tuple6 b"
  then show thesis using ready by (simp add: get_or_create_bib6_def)
next
  assume miss: "bibdb_get tuple6 s = Some (Inl ESRCH, s)"
  obtain r where r: "xlat_addr64 env tuple6 = Some r" by (rule filter_env_xlat [OF env])
  show thesis
  proof (cases r)
    case (Inl e)
    then show thesis using failed ok miss r by (simp add: get_or_create_bib6_def create_bib6_def)
  next
    case (Inr daddr)
    obtain ra n where ra: "palloc_allocate (fe_crypto env) (fe_pool4 env) (sk_mark (pkt_skb pkt)) tuple6 daddr s = Some (ra, s\<lparr>next_ephemeral := n\<rparr>)"
      by (rule palloc_returns [OF env sess_ok_wf(1) [OF ok]])
    define s1 where "s1 = s\<lparr>next_ephemeral := n\<rparr>"
    have ok1: "sess_ok B K s1" and same1: "db_same s s1" using ok by (simp_all add: s1_def)
    note run = get_or_create_bib6_def create_bib6_def miss r Inr ra [folded s1_def] bibentry_create_def
    show thesis
    proof (cases "\<exists>saddr p. ra = Inr saddr \<and> fe_bib_alloc env (bibs s1) = Some p")
      case False
      then show thesis using failed ok1 same1
        by (cases ra; cases "fe_bib_alloc env (bibs s1)") (simp_all add: run)
    next
      case True
      then obtain saddr p where c: "ra = Inr saddr" "fe_bib_alloc env (bibs s1) = Some p" by blast
      have p: "bibs s1 p = None" using filter_env_okD(3) [OF env] c(2) by (simp add: bib_alloc_ok_def)
      define b where "b = \<lparr>b_ipv4 = saddr, b_ipv6 = addr6 (t_src tuple6), b_l4_proto = t_l4_proto tuple6, b_is_static = False,
        b_refcounter = 1, b_tree6_hook = False, b_tree4_hook = False\<rparr>"
      have b: "b_refcounter b = 1" "b_l4_proto b \<noteq> L4PROTO_OTHER" using tuple by (simp_all add: b_def)
      show thesis
      proof (rule bibdb_add_token [OF filter_env_okD(2) [OF env] ok1 p b])
        fix s' b' assume a: "bibdb_add (fe_ops env) p (s1\<lparr>bibs := (bibs s1)(p \<mapsto> b)\<rparr>) = Some (Err EEXIST, s')" "bibs s' p = Some b'"
          "sess_ok B K (s'\<lparr>bibs := (bibs s')(p := None)\<rparr>)" "db_same s1 (s'\<lparr>bibs := (bibs s')(p := None)\<rparr>)"
        have "get_or_create_bib6 env pkt tuple6 s = Some (Inl EEXIST, s'\<lparr>bibs := (bibs s')(p := None)\<rparr>)"
          using a(1,2) by (simp add: run c b_def [symmetric] bibentry_kfree_def)
        then show thesis using a(3) db_same_trans [OF same1 a(4)] by (rule failed)
      next
        fix s' assume a: "bibdb_add (fe_ops env) p (s1\<lparr>bibs := (bibs s1)(p \<mapsto> b)\<rparr>) = Some (Ok, s')" "sess_ok (add_mset p B) K s'"
          "db_same s1 s'" "bibs s' p = Some (b\<lparr>b_tree6_hook := True, b_tree4_hook := True\<rparr>)"
        have "get_or_create_bib6 env pkt tuple6 s = Some (Inr p, s')" using a(1) by (simp add: run c b_def [symmetric])
        then show thesis using a(2) db_same_trans [OF same1 a(3)] a(4)
          by (rule ready) (simp add: bib_matches_def tuple b_def)
      qed
    qed
  qed
qed

section \<open>Sessions\<close>

text \<open>
  A new session belongs to the tuple and to the BIB entry. It is in no table yet, so that its state
  may be written.
\<close>

definition set_state :: "ptr \<Rightarrow> session_entry \<Rightarrow> tcp_state \<Rightarrow> 'a session_db_scheme \<Rightarrow> 'a session_db_scheme" where
  "set_state q e st s = s\<lparr>sessions := (sessions s)(q \<mapsto> e\<lparr>se_state := st\<rparr>)\<rparr>"

lemma set_state_simps [simp]:
  "sessions (set_state q e st s) = (sessions s)(q \<mapsto> e\<lparr>se_state := st\<rparr>)" "bibs (set_state q e st s) = bibs s"
  "jiffies (set_state q e st s) = jiffies s" "db_nodes proto (set_state q e st s) = db_nodes proto s"
  by (cases proto; simp add: set_state_def db_nodes_def sess_get_table_def)+

lemma session_create_token:
  assumes alloc: "session_alloc_ok alloc" and ok: "sess_ok B K s"
    and bib: "\<And>p. se_bib e = Some p \<Longrightarrow> \<exists>b. bibs s p = Some b \<and> sess_agrees e b"
  obtains (nomem) "session_clone alloc e s = Some (None, s)"
    | (cloned) q e' s' where "session_clone alloc e s = Some (Some q, s')" "sess_ok B (add_mset q K) s'" "db_same s s'"
      "\<And>st. sess_ok B (add_mset q K) (set_state q e' st s')" "\<And>st. db_same s (set_state q e' st s')"
      "sessions s' q = Some e'" "e' = e\<lparr>se_refcounter := 1, se_tree6_hook := False, se_tree4_hook := False\<rparr>"
      "\<And>proto. q \<notin> db_nodes proto s'" "queue_same s s'"
proof -
  have pq: "pktq_ok [] B (sess_refs s + K) s" and tim: "pktq_timer_ok s" using ok by (simp_all add: sess_ok_def)
  show ?thesis
  proof (rule session_clone_token [OF alloc pq bib])
    fix q s' assume a: "session_clone alloc e s = Some (Some q, s')" "pktq_ok [] B (add_mset q (sess_refs s + K)) s'" "ref_only s s'"
      "sessions s q = None" "sessions s' = (sessions s)(q \<mapsto> e\<lparr>se_refcounter := 1, se_tree6_hook := False, se_tree4_hook := False\<rparr>)"
      "sview s' = (sview s)(q \<mapsto> e\<lparr>se_tree6_hook := False, se_tree4_hook := False, se_refcounter := 0\<rparr>)"
    define e' where "e' = e\<lparr>se_refcounter := 1, se_tree6_hook := False, se_tree4_hook := False\<rparr>"
    have q: "sessions s' q = Some e'" using a(5) by (simp add: e'_def)
    have nodes: "q \<notin> db_nodes proto s'" for proto
      using sess_ok_live(1) [OF ok, of q proto] a(4) frame_tables(1) [OF ref_only_frame [OF a(3)], of proto] by (auto simp: db_nodes_def)
    have sh: "sess_ok B (add_mset q K) s2 \<and> db_same s s2"
      if s2: "pktq_ok [] B (add_mset q (sess_refs s + K)) s2" "ref_only s s2" "\<And>x. x \<noteq> q \<Longrightarrow> sview s2 x = sview s x" for s2
    proof -
      have t2: "pktq_timer_ok s2" using tim queue_same_timer [OF ref_only_queue [OF s2(2)]] by simp
      have p2: "pktq_ok [] B (sess_refs s + add_mset q K) s2" using s2(1) by simp
      have v2: "sview s2 x = sview s x \<or> sview s2 x = None" if "sview s x \<noteq> None" for x
        using that a(4) s2(3) [of x] by (cases "x = q") (simp_all add: sview_None_iff)
      have "jiffies s2 = jiffies s" using s2(2) by (simp add: ref_only_def)
      then show ?thesis using sess_ok_shrink [OF ok p2 ref_only_frame [OF s2(2)] t2 v2] by (simp add: db_same_def)
    qed
    have w: "pktq_ok [] B (add_mset q (sess_refs s + K)) (set_state q e' st s')"
      "sview (set_state q e' st s') = (sview s')(q \<mapsto> e'\<lparr>se_state := st, se_refcounter := 0\<rparr>)" for st
      using session_write [OF a(2) q, of "e'\<lparr>se_state := st\<rparr>"] by (simp_all add: set_state_def)
    have "sess_ok B (add_mset q K) (set_state q e' st s') \<and> db_same s (set_state q e' st s')" for st
      by (rule sh [OF w(1)]) (use a(3,6) w(2) in \<open>simp_all add: set_state_def ref_only_def\<close>)
    moreover have "sess_ok B (add_mset q K) s' \<and> db_same s s'" by (rule sh [OF a(2,3)]) (simp add: a(6))
    ultimately show thesis using cloned [OF a(1), of e'] q nodes ref_only_queue [OF a(3)] by (simp add: e'_def)
  qed (use nomem in blast)+
qed

lemma db_matches_upd [simp]:
  "db_matches tuple (e\<lparr>se_refcounter := n\<rparr>) = db_matches tuple e" "db_matches tuple (e\<lparr>se_tree6_hook := h\<rparr>) = db_matches tuple e"
  "db_matches tuple (e\<lparr>se_tree4_hook := h\<rparr>) = db_matches tuple e" "db_matches tuple (e\<lparr>se_state := st\<rparr>) = db_matches tuple e"
  "db_matches tuple (e\<lparr>se_update_time := u\<rparr>) = db_matches tuple e" "db_matches tuple (e\<lparr>se_expirer := x\<rparr>) = db_matches tuple e"
  by (cases "t_l3_proto tuple"; simp add: db_matches_def)+

lemma create_session_ok:
  assumes env: "filter_env_ok env" and ok: "sess_ok B K s" and tuple: "t_l4_proto tuple \<noteq> L4PROTO_OTHER"
    and bib: "case bib of None \<Rightarrow> t_l3_proto tuple = L3PROTO_IPV4 \<and> t_l4_proto tuple \<noteq> L4PROTO_ICMP
      | Some p \<Rightarrow> (\<exists>b. bibs s p = Some b \<and> bib_matches tuple b)"
  obtains (failed) er where "create_session env tuple bib s = Some (Inl er, s)"
    | (made) q e s' where "create_session env tuple bib s = Some (Inr q, s')" "sess_ok B (add_mset q K) s'" "db_same s s'"
      "\<And>st. sess_ok B (add_mset q K) (set_state q e st s')" "\<And>st. db_same s (set_state q e st s')"
      "sessions s' q = Some e" "se_l4_proto e = t_l4_proto tuple" "se_bib e = bib" "db_matches tuple e" "\<And>proto. q \<notin> db_nodes proto s'"
      "queue_same s s'"
proof -
  have run: thesis
    if c: "create_session env tuple bib s =
        do { (session, s1) \<leftarrow> session_clone (ev_session_alloc (fe_sess env)) e s; Some (case session of None \<Rightarrow> Inl ENOMEM | Some p \<Rightarrow> Inr p, s1) }"
      and e: "se_bib e = bib" "se_l4_proto e = t_l4_proto tuple" "db_matches tuple e" "\<And>p. bib = Some p \<Longrightarrow> \<exists>b. bibs s p = Some b \<and> sess_agrees e b" for e
  proof (rule session_create_token [OF filter_env_okD(4) [OF env] ok, of e])
    show "\<exists>b. bibs s p = Some b \<and> sess_agrees e b" if "se_bib e = Some p" for p using e that by simp
  next
    assume "session_clone (ev_session_alloc (fe_sess env)) e s = Some (None, s)"
    then show thesis using failed c by simp
  next
    fix q e' s' assume a: "session_clone (ev_session_alloc (fe_sess env)) e s = Some (Some q, s')" "sess_ok B (add_mset q K) s'" "db_same s s'"
      "\<And>st. sess_ok B (add_mset q K) (set_state q e' st s')" "\<And>st. db_same s (set_state q e' st s')"
      "sessions s' q = Some e'" "e' = e\<lparr>se_refcounter := 1, se_tree6_hook := False, se_tree4_hook := False\<rparr>"
      "\<And>proto. q \<notin> db_nodes proto s'" "queue_same s s'"
    have "create_session env tuple bib s = Some (Inr q, s')" using c a(1) by simp
    then show thesis using a(2,3,4,5,6) by (rule made) (use a(7-9) e in simp_all)
  qed
  show thesis
  proof (cases "t_l3_proto tuple")
    case L3PROTO_IPV6
    then obtain p b where b: "bib = Some p" "bibs s p = Some b" "bib_matches tuple b" using bib by (cases bib) auto
    obtain r where r: "xlat_addr64 env tuple = Some r" by (rule filter_env_xlat [OF env])
    show thesis
    proof (cases r)
      case (Inl er)
      then show thesis using failed r b L3PROTO_IPV6 by (simp add: create_session_def)
    next
      case (Inr a)
      show thesis
        by (rule run, simp add: create_session_def session_create_def L3PROTO_IPV6 b(1,2) r Inr)
          (use b L3PROTO_IPV6 in \<open>auto simp: db_matches_def sess_agrees_def bib_matches_def\<close>)
    qed
  next
    case L3PROTO_IPV4
    obtain r where r: "rfc6052_4to6 (fe_pool6 env) (ta4_l3 (addr4 (t_src tuple))) = Some r" by (rule filter_env_xlat46 [OF env])
    show thesis
    proof (cases r)
      case (Inl er)
      then show thesis using failed r bib L3PROTO_IPV4 by (cases bib) (auto simp: create_session_def)
    next
      case (Inr a)
      show thesis
      proof (cases bib)
        case None
        show thesis
          by (rule run, use bib None in \<open>simp add: create_session_def session_create_def L3PROTO_IPV4 r Inr\<close>)
            (use None L3PROTO_IPV4 in \<open>auto simp: db_matches_def\<close>)
      next
        case (Some p)
        then obtain b where b: "bibs s p = Some b" "bib_matches tuple b" using bib by auto
        show thesis
          by (rule run, simp add: create_session_def session_create_def L3PROTO_IPV4 b Some r Inr if_distrib [of Some, symmetric] cong: if_cong)
            (use b L3PROTO_IPV4 Some in \<open>auto simp: db_matches_def sess_agrees_def bib_matches_def\<close>)
      qed
    qed
  qed
qed

text \<open>
  A packet of a protocol without states refreshes the session of its tuple, which is new when there
  was none.
\<close>

definition refreshed :: "tuple \<Rightarrow> 'a session_db_scheme \<Rightarrow> 'a session_db_scheme \<Rightarrow> bool" where
  "refreshed tuple s s' \<longleftrightarrow>
     (\<exists>q e. db_frame q s s' \<and> db_view (t_l4_proto tuple) s' q = Some e \<and> db_matches tuple e \<and> se_update_time e = jiffies s \<and>
        se_expirer e = Some Est_timer \<and>
        (case db_view (t_l4_proto tuple) s q of
           Some e0 \<Rightarrow> e = e0\<lparr>se_update_time := jiffies s, se_expirer := Some Est_timer\<rparr>
         | None \<Rightarrow> \<forall>q' e'. db_view (t_l4_proto tuple) s q' = Some e' \<longrightarrow> \<not> db_matches tuple e'))"

lemma refreshedI:
  assumes "db_frame q s s'" "db_view (t_l4_proto tuple) s' q = Some e" "db_matches tuple e" "se_update_time e = jiffies s"
    "se_expirer e = Some Est_timer"
    "case db_view (t_l4_proto tuple) s q of
       Some e0 \<Rightarrow> e = e0\<lparr>se_update_time := jiffies s, se_expirer := Some Est_timer\<rparr>
     | None \<Rightarrow> \<forall>q' e'. db_view (t_l4_proto tuple) s q' = Some e' \<longrightarrow> \<not> db_matches tuple e'"
  shows "refreshed tuple s s'"
  unfolding refreshed_def using assms by blast

lemma refreshed_same: "db_same s0 s \<Longrightarrow> refreshed tuple s s' \<Longrightarrow> db_same s' s'' \<Longrightarrow> refreshed tuple s0 s''"
  by (auto simp: refreshed_def db_same_def db_frame_def cong: option.case_cong)

lemma db_same_dup:
  assumes "db_frame q s s'" "\<And>proto. q \<notin> db_nodes proto s" "\<And>proto. q \<notin> db_nodes proto s'"
  shows "db_same s s'"
proof -
  have "db_view proto s' x = db_view proto s x" for proto x
    using assms by (cases "x = q") (simp_all add: db_frame_def db_view_def)
  then show ?thesis using assms(1) by (simp add: db_same_def db_frame_def fun_eq_iff)
qed

lemma get_or_create_session_ok:
  assumes env: "filter_env_ok env" and ok: "sess_ok B K s" and proto: "t_l4_proto tuple \<noteq> L4PROTO_OTHER" "t_l4_proto tuple \<noteq> L4PROTO_TCP"
    and bib: "bibs s p = Some b" "bib_matches tuple b"
  obtains (failed) er s' where "get_or_create_session env tuple pkt p s = Some (Inl er, s')" "sess_ok B K s'" "db_same s s'"
    | (ready) q s' where "get_or_create_session env tuple pkt p s = Some (Inr q, s')" "sess_ok B (add_mset q K) s'" "refreshed tuple s s'"
proof -
  note senv = filter_env_okD(1) [OF env]
  note get = fate_contract.db_get_ok [OF update_timer_contract [OF proto(2)] senv ok refl proto(1)]
  show thesis
  proof (rule get [of "Some pkt"])
    fix q e e1 f s' assume a: "db_view (t_l4_proto tuple) s q = Some (e\<lparr>se_refcounter := 0\<rparr>)" "db_matches tuple e"
      "update_timer (jiffies s) (Some pkt) (e\<lparr>se_refcounter := se_refcounter e + 1\<rparr>) = Some (e1, f)"
      "sessiondb_get (fe_sess env) tuple (Some update_timer) (Some pkt) s = Some (Inr q, s')" "sess_ok B (add_mset q K) s'"
      "sview s' q = Some (fated f (jiffies s) e1)" "q \<in> db_nodes (t_l4_proto tuple) s' \<longleftrightarrow> f \<noteq> FATE_RM" "db_frame q s s'"
    have f: "e1 = e\<lparr>se_refcounter := se_refcounter e + 1\<rparr>" "f = FATE_TIMER_EST" using a(3) by (simp_all add: update_timer_def)
    have "db_view (t_l4_proto tuple) s' q = Some (e\<lparr>se_update_time := jiffies s, se_expirer := Some Est_timer, se_refcounter := 0\<rparr>)"
      using a(6,7) f by (simp add: db_view_def fate_target_def fated_def)
    then have "refreshed tuple s s'" by (rule refreshedI [OF a(8)]) (use a(1,2) in simp_all)
    then show thesis using ready a(4,5) by (simp add: get_or_create_session_def)
  next
    assume m: "sessiondb_get (fe_sess env) tuple (Some update_timer) (Some pkt) s = Some (Inl ESRCH, s)"
      "\<And>q e. db_view (t_l4_proto tuple) s q = Some e \<Longrightarrow> \<not> db_matches tuple e"
    have bib': "case Some p of None \<Rightarrow> t_l3_proto tuple = L3PROTO_IPV4 \<and> t_l4_proto tuple \<noteq> L4PROTO_ICMP
      | Some p \<Rightarrow> (\<exists>b. bibs s p = Some b \<and> bib_matches tuple b)" using bib by simp
    show thesis
    proof (rule create_session_ok [OF env ok proto(1) bib'])
      fix er assume "create_session env tuple (Some p) s = Some (Inl er, s)"
      then show thesis using failed ok m(1) by (simp add: get_or_create_session_def)
    next
      fix q e s1 assume c: "create_session env tuple (Some p) s = Some (Inr q, s1)" "sess_ok B (add_mset q K) s1" "db_same s s1"
        "sessions s1 q = Some e" "se_l4_proto e = t_l4_proto tuple" "se_bib e = Some p" "db_matches tuple e" "\<And>proto. q \<notin> db_nodes proto s1"
      have pl: "placed Est_timer e" "Est_timer = (if True then Est_timer else Trans_timer)" using c(5) proto(2) by (simp_all add: placed_def)
      have q: "q \<in># add_mset q K" "se_bib e \<noteq> None" using c(6) by simp_all
      note run = get_or_create_session_def m(1) c(1)
      show thesis
      proof (rule sessiondb_add_ok [OF senv c(2) q(1) c(8) c(4,5) proto(1) q(2) pl])
        fix s2 assume a: "sessiondb_add (fe_sess env) q True s1 = Some (Ok, s2)" "sess_ok B (add_mset q K) s2" "db_frame q s1 s2"
          "db_view (t_l4_proto tuple) s2 q = Some (e\<lparr>se_tree6_hook := True, se_tree4_hook := True, se_update_time := jiffies s1,
             se_expirer := Some Est_timer, se_refcounter := 0\<rparr>)"
        have "db_view (t_l4_proto tuple) s1 q = None" using c(8) by (simp add: db_view_def)
        then have "refreshed tuple s1 s2" 
          by (intro refreshedI [OF a(3,4)]) (use c(3,7) m(2) in \<open>auto simp: db_same_def\<close>)
        then show thesis using a(1,2) c(3) ready refreshed_same [OF c(3) _ db_same_refl] by (simp add: run)
      next
        fix s2 assume a: "sessiondb_add (fe_sess env) q True s1 = Some (Err EEXIST, s2)" "sess_ok B (add_mset q K) s2" "db_frame q s1 s2"
          "\<And>proto. q \<notin> db_nodes proto s2"
        obtain s3 where s3: "session_return (fe_ops env) q s2 = Some s3" "sess_ok B K s3" "db_same s2 s3" "queue_same s2 s3"
          by (rule session_return_tok [OF filter_env_okD(2) [OF env] a(2)])
        have "db_same s s3" using db_same_trans [OF db_same_trans [OF c(3) db_same_dup [OF a(3) c(8) a(4)]] s3(3)] .
        then show thesis using failed s3 a(1) by (simp add: run)
      qed
    qed
  qed
qed

section \<open>UDP and ICMP\<close>

lemma finish_simple_ok:
  assumes env: "filter_env_ok env" and ok: "sess_ok (add_mset p B) K s" and proto: "t_l4_proto tuple \<noteq> L4PROTO_OTHER" "t_l4_proto tuple \<noteq> L4PROTO_TCP"
    and bib: "bibs s p = Some b" "bib_matches tuple b"
  obtains (drop) s' where "finish_simple env pkt tuple p s = Some (VERDICT_DROP, s')" "sess_ok B K s'" "db_same s s'"
    | (pass) s' where "finish_simple env pkt tuple p s = Some (VERDICT_CONTINUE, s')" "sess_ok B K s'" "refreshed tuple s s'"
proof (rule get_or_create_session_ok [OF env ok proto bib])
  note laws = filter_env_okD(2) [OF env]
  fix er s1 assume a: "get_or_create_session env tuple pkt p s = Some (Inl er, s1)" "sess_ok (add_mset p B) K s1" "db_same s s1"
  have "sess_ok (add_mset p B) K (count_stat pkt IPSTATS_MIB_INDISCARDS s1)" using a(2) by simp
  then obtain s2 where s2: "bibdb_return (fe_ops env) (Some p) (count_stat pkt IPSTATS_MIB_INDISCARDS s1) = Some s2" "sess_ok B K s2"
    "db_same (count_stat pkt IPSTATS_MIB_INDISCARDS s1) s2" "queue_same (count_stat pkt IPSTATS_MIB_INDISCARDS s1) s2" by (rule bibdb_return_tok [OF laws])
  have "db_same s (count_stat pkt IPSTATS_MIB_INDISCARDS s1)" using a(3) by simp
  then have "db_same s s2" using db_same_trans s2(3) by blast
  then show thesis using drop s2(1,2) a(1) by (simp add: finish_simple_def)
next
  note laws = filter_env_okD(2) [OF env]
  fix q s1 assume a: "get_or_create_session env tuple pkt p s = Some (Inr q, s1)" "sess_ok (add_mset p B) (add_mset q K) s1" "refreshed tuple s s1"
  obtain s2 where s2: "session_return (fe_ops env) q s1 = Some s2" "sess_ok (add_mset p B) K s2" "db_same s1 s2" "queue_same s1 s2"
    by (rule session_return_tok [OF laws a(2)])
  obtain s3 where s3: "bibdb_return (fe_ops env) (Some p) s2 = Some s3" "sess_ok B K s3" "db_same s2 s3" "queue_same s2 s3"
    by (rule bibdb_return_tok [OF laws s2(2)])
  have "refreshed tuple s s3" using refreshed_same [OF db_same_refl a(3) db_same_trans [OF s2(3) s3(3)]] .
  then show thesis using pass a(1) s2(1) s3(1,2) by (simp add: finish_simple_def)
qed

lemma ipv6_simple_ok:
  assumes env: "filter_env_ok env" and ok: "sess_ok B K s" and proto: "t_l4_proto tuple6 \<noteq> L4PROTO_OTHER" "t_l4_proto tuple6 \<noteq> L4PROTO_TCP"
    and l3: "t_l3_proto tuple6 = L3PROTO_IPV6"
  obtains (drop) s' where "ipv6_simple env pkt tuple6 s = Some (VERDICT_DROP, s')" "sess_ok B K s'" "db_same s s'"
    | (pass) s' where "ipv6_simple env pkt tuple6 s = Some (VERDICT_CONTINUE, s')" "sess_ok B K s'" "refreshed tuple6 s s'"
proof (rule get_or_create_bib6_ok [OF env ok proto(1) l3])
  fix er s1 assume "get_or_create_bib6 env pkt tuple6 s = Some (Inl er, s1)" "sess_ok B K s1" "db_same s s1"
  then show thesis using drop by (simp add: ipv6_simple_def)
next
  fix p b s1 assume a: "get_or_create_bib6 env pkt tuple6 s = Some (Inr p, s1)" "sess_ok (add_mset p B) K s1" "db_same s s1"
    "bibs s1 p = Some b" "bib_matches tuple6 b"
  show thesis
  proof (rule finish_simple_ok [OF env a(2) proto a(4,5)])
    fix s2 assume "finish_simple env pkt tuple6 p s1 = Some (VERDICT_DROP, s2)" "sess_ok B K s2" "db_same s1 s2"
    then show thesis using drop a(1) db_same_trans [OF a(3)] by (simp add: ipv6_simple_def)
  next
    fix s2 assume "finish_simple env pkt tuple6 p s1 = Some (VERDICT_CONTINUE, s2)" "sess_ok B K s2" "refreshed tuple6 s1 s2"
    then show thesis using pass a(1) refreshed_same [OF a(3) _ db_same_refl] by (simp add: ipv6_simple_def)
  qed
qed

text \<open>Whether address-dependent filtering lets the tuple in.\<close>

definition allowed :: "filter_env \<Rightarrow> tuple \<Rightarrow> 'a session_db_scheme \<Rightarrow> bool" where
  "allowed env tuple4 s \<longleftrightarrow> (config_get_addr_dependent_filtering (fe_cfg env) \<longrightarrow>
     (\<exists>q e. db_view (t_l4_proto tuple4) s q = Some e \<and> se_local4 e = addr4 (t_dst tuple4) \<and>
        ta4_l3 (se_remote4 e) = ta4_l3 (addr4 (t_src tuple4))))"

lemma get_bib4_ok:
  assumes env: "filter_env_ok env" and ok: "sess_ok B K s" and proto: "t_l4_proto tuple4 \<noteq> L4PROTO_OTHER"
  obtains (none) s' where "get_bib4 env pkt tuple4 s = Some (Inl ESRCH, s')" "sess_ok B K s'" "db_same s s'" "\<not> known tuple4 s"
    | (blocked) s' where "get_bib4 env pkt tuple4 s = Some (Inl EPERM, s')" "sess_ok B K s'" "db_same s s'" "known tuple4 s" "\<not> allowed env tuple4 s"
    | (ready) p b s' where "get_bib4 env pkt tuple4 s = Some (Inr p, s')" "sess_ok (add_mset p B) K s'" "db_same s s'" "known tuple4 s"
      "allowed env tuple4 s" "bibs s' p = Some b" "bib_matches tuple4 b"
proof (rule bibdb_get_token [OF ok proto])
  assume a: "bibdb_get tuple4 s = Some (Inl ESRCH, s)" "\<not> known tuple4 s"
  show thesis by (rule none [of "count_stat pkt IPSTATS_MIB_INNOROUTES s"]) (use a ok in \<open>simp_all add: get_bib4_def\<close>)
next
  fix p b s1 assume a: "bibdb_get tuple4 s = Some (Inr p, s1)" "sess_ok (add_mset p B) K s1" "db_same s s1" "bibs s1 p = Some b"
    "bib_matches tuple4 b" "known tuple4 s"
  have allow: "(if config_get_addr_dependent_filtering (fe_cfg env) then map_option Not (sessiondb_allow tuple4 s1) else Some False) =
    Some (\<not> allowed env tuple4 s)"
    using a(3) by (simp add: sessiondb_allow_ok [OF a(2) refl] allowed_def db_same_def)
  define s2 where "s2 = count_stat pkt IPSTATS_MIB_INDISCARDS (emit (icmp64_send (ev_route4_input (fe_sess env)) pkt ICMPERR_FILTER 0) s1)"
  have s2: "sess_ok (add_mset p B) K s2" "db_same s s2" using a(2,3) by (simp_all add: s2_def)
  obtain s3 where s3: "bibdb_return (fe_ops env) (Some p) s2 = Some s3" "sess_ok B K s3" "db_same s2 s3" "queue_same s2 s3"
    by (rule bibdb_return_tok [OF filter_env_okD(2) [OF env] s2(1)])
  show thesis
  proof (cases "allowed env tuple4 s")
    case True
    then have "get_bib4 env pkt tuple4 s = Some (Inr p, s1)" using a(1) allow by (simp add: get_bib4_def)
    then show thesis using a(2,3,6) True a(4,5) by (rule ready)
  next
    case False
    then have "get_bib4 env pkt tuple4 s = Some (Inl EPERM, s3)" using a(1) allow s3(1) by (simp add: get_bib4_def s2_def)
    then show thesis using s3(2) db_same_trans [OF s2(2) s3(3)] a(6) False by (rule blocked)
  qed
qed

lemma ipv4_simple_ok:
  assumes env: "filter_env_ok env" and ok: "sess_ok B K s" and proto: "t_l4_proto tuple4 \<noteq> L4PROTO_OTHER" "t_l4_proto tuple4 \<noteq> L4PROTO_TCP"
  obtains (accept) s' where "ipv4_simple env pkt tuple4 s = Some (VERDICT_ACCEPT, s')" "sess_ok B K s'" "db_same s s'" "\<not> known tuple4 s"
    | (drop) s' where "ipv4_simple env pkt tuple4 s = Some (VERDICT_DROP, s')" "sess_ok B K s'" "db_same s s'" "known tuple4 s"
    | (pass) s' where "ipv4_simple env pkt tuple4 s = Some (VERDICT_CONTINUE, s')" "sess_ok B K s'" "refreshed tuple4 s s'" "known tuple4 s"
      "allowed env tuple4 s"
proof (rule get_bib4_ok [OF env ok proto(1)])
  fix s1 assume "get_bib4 env pkt tuple4 s = Some (Inl ESRCH, s1)" "sess_ok B K s1" "db_same s s1" "\<not> known tuple4 s"
  then show thesis using accept by (simp add: ipv4_simple_def)
next
  fix s1 assume "get_bib4 env pkt tuple4 s = Some (Inl EPERM, s1)" "sess_ok B K s1" "db_same s s1" "known tuple4 s"
  then show thesis using drop by (simp add: ipv4_simple_def)
next
  fix p b s1 assume a: "get_bib4 env pkt tuple4 s = Some (Inr p, s1)" "sess_ok (add_mset p B) K s1" "db_same s s1" "known tuple4 s"
    "allowed env tuple4 s" "bibs s1 p = Some b" "bib_matches tuple4 b"
  show thesis
  proof (rule finish_simple_ok [OF env a(2) proto a(6,7)])
    fix s2 assume "finish_simple env pkt tuple4 p s1 = Some (VERDICT_DROP, s2)" "sess_ok B K s2" "db_same s1 s2"
    then show thesis using drop a(1,4) db_same_trans [OF a(3)] by (simp add: ipv4_simple_def)
  next
    fix s2 assume "finish_simple env pkt tuple4 p s1 = Some (VERDICT_CONTINUE, s2)" "sess_ok B K s2" "refreshed tuple4 s1 s2"
    then show thesis using pass a(1,4,5) refreshed_same [OF a(3) _ db_same_refl] by (simp add: ipv4_simple_def)
  qed
qed

section \<open>TCP\<close>

lemma queue_same_trans: "queue_same s s' \<Longrightarrow> queue_same s' s'' \<Longrightarrow> queue_same s s''"
  by (simp add: queue_same_def)

text \<open>The first packet of a connection adds a session in the state of its side.\<close>

definition opened :: "tcp_state \<Rightarrow> tuple \<Rightarrow> 'a session_db_scheme \<Rightarrow> 'a session_db_scheme \<Rightarrow> bool" where
  "opened st tuple s s' \<longleftrightarrow>
     (\<exists>q e. db_frame q s s' \<and> db_view L4PROTO_TCP s q = None \<and> db_view L4PROTO_TCP s' q = Some e \<and> db_matches tuple e \<and>
        se_state e = st \<and> se_update_time e = jiffies s \<and> se_expirer e = Some Trans_timer)"

lemma opened_same: "db_same s0 s \<Longrightarrow> opened st tuple s s' \<Longrightarrow> db_same s' s'' \<Longrightarrow> opened st tuple s0 s''"
  by (auto simp: opened_def db_same_def db_frame_def)

text \<open>Adding the session that was just created, and giving it back.\<close>

lemma add_new_session:
  assumes env: "filter_env_ok env" and ok: "sess_ok B (add_mset q K) (set_state q e st s)" and e: "sessions s q = Some e" "se_l4_proto e = L4PROTO_TCP"
    "se_bib e \<noteq> None" "db_matches tuple e" "\<And>proto. q \<notin> db_nodes proto s" and st: "st \<in> {V4_INIT, V6_INIT}"
  obtains (dup) s' s'' where "sessiondb_add (fe_sess env) q False (set_state q e st s) = Some (Err EEXIST, s')"
      "session_return (fe_ops env) q s' = Some s''" "sess_ok B K s''" "db_same (set_state q e st s) s''"
    | (added) s' s'' where "sessiondb_add (fe_sess env) q False (set_state q e st s) = Some (Ok, s')"
      "session_return (fe_ops env) q s' = Some s''" "sess_ok B K s''" "opened st tuple (set_state q e st s) s''"
proof -
  note laws = filter_env_okD(2) [OF env]
  define e1 where "e1 = e\<lparr>se_state := st\<rparr>"
  define s1 where "s1 = set_state q e st s"
  have q: "q \<in># add_mset q K" "q \<notin> db_nodes proto s1" "sessions s1 q = Some e1" for proto using e by (simp_all add: s1_def e1_def)
  have e1: "se_l4_proto e1 = L4PROTO_TCP" "L4PROTO_TCP \<noteq> L4PROTO_OTHER" "se_bib e1 \<noteq> None" "placed Trans_timer e1"
    "Trans_timer = (if False then Est_timer else Trans_timer)"
    using e st by (auto simp: e1_def placed_def est_states_def)
  show thesis
  proof (rule sessiondb_add_ok [OF filter_env_okD(1) [OF env] ok [folded s1_def] q e1])
    fix s' assume a: "sessiondb_add (fe_sess env) q False s1 = Some (Ok, s')" "sess_ok B (add_mset q K) s'" "db_frame q s1 s'"
      "db_view L4PROTO_TCP s' q = Some (e1\<lparr>se_tree6_hook := True, se_tree4_hook := True, se_update_time := jiffies s1,
        se_expirer := Some Trans_timer, se_refcounter := 0\<rparr>)"
    obtain s'' where s'': "session_return (fe_ops env) q s' = Some s''" "sess_ok B K s''" "db_same s' s''" "queue_same s' s''"
      by (rule session_return_tok [OF laws a(2)])
    have "opened st tuple s1 s'"
      unfolding opened_def by (rule exI [of _ q], rule exI, rule conjI [OF a(3)], rule conjI [rotated], rule conjI [OF a(4)])
        (use e q(2) in \<open>simp_all add: e1_def db_view_def\<close>)
    then show thesis using added a(1) s''(1,2) opened_same [OF db_same_refl _ s''(3)] by (simp add: s1_def)
  next
    fix s' assume a: "sessiondb_add (fe_sess env) q False s1 = Some (Err EEXIST, s')" "sess_ok B (add_mset q K) s'" "db_frame q s1 s'"
      "\<And>proto. q \<notin> db_nodes proto s'"
    obtain s'' where s'': "session_return (fe_ops env) q s' = Some s''" "sess_ok B K s''" "db_same s' s''" "queue_same s' s''"
      by (rule session_return_tok [OF laws a(2)])
    have "db_same s1 s''" using db_same_trans [OF db_same_dup [OF a(3) q(2) a(4)] s''(3)] .
    then show thesis using dup a(1) s''(1,2) by (simp add: s1_def)
  qed
qed

lemma tcp_closed_v6_syn_ok:
  assumes env: "filter_env_ok env" and ok: "sess_ok B K s" and tuple: "t_l4_proto tuple6 = L4PROTO_TCP" "t_l3_proto tuple6 = L3PROTO_IPV6"
  obtains (failed) er s' where "tcp_closed_v6_syn env pkt tuple6 s = Some (Err er, s')" "sess_ok B K s'" "db_same s s'"
    | (syn) s' where "tcp_closed_v6_syn env pkt tuple6 s = Some (Ok, s')" "sess_ok B K s'" "opened V6_INIT tuple6 s s'"
proof -
  note laws = filter_env_okD(2) [OF env]
  have t': "t_l4_proto tuple6 \<noteq> L4PROTO_OTHER" using tuple by simp
  show thesis
  proof (rule get_or_create_bib6_ok [OF env ok t' tuple(2)])
    fix er s1 assume "get_or_create_bib6 env pkt tuple6 s = Some (Inl er, s1)" "sess_ok B K s1" "db_same s s1"
    then show thesis using failed by (simp add: tcp_closed_v6_syn_def)
  next
    fix p b s1 assume g: "get_or_create_bib6 env pkt tuple6 s = Some (Inr p, s1)" "sess_ok (add_mset p B) K s1" "db_same s s1"
      "bibs s1 p = Some b" "bib_matches tuple6 b"
    have bib: "case Some p of None \<Rightarrow> t_l3_proto tuple6 = L3PROTO_IPV4 \<and> t_l4_proto tuple6 \<noteq> L4PROTO_ICMP
      | Some p \<Rightarrow> (\<exists>b. bibs s1 p = Some b \<and> bib_matches tuple6 b)" using g by simp
    note run = tcp_closed_v6_syn_def g(1)
    show thesis
    proof (rule create_session_ok [OF env g(2) t' bib])
      fix er assume c: "create_session env tuple6 (Some p) s1 = Some (Inl er, s1)"
      obtain s2 where s2: "bibdb_return (fe_ops env) (Some p) s1 = Some s2" "sess_ok B K s2" "db_same s1 s2" "queue_same s1 s2"
        by (rule bibdb_return_tok [OF laws g(2)])
      show thesis using failed s2(1,2) db_same_trans [OF g(3) s2(3)] by (simp add: run c)
    next
      fix q e s2 assume c: "create_session env tuple6 (Some p) s1 = Some (Inr q, s2)" "sess_ok (add_mset p B) (add_mset q K) s2" "db_same s1 s2"
        "\<And>st. sess_ok (add_mset p B) (add_mset q K) (set_state q e st s2)" "\<And>st. db_same s1 (set_state q e st s2)"
        "sessions s2 q = Some e" "se_l4_proto e = t_l4_proto tuple6" "se_bib e = Some p" "db_matches tuple6 e" "\<And>proto. q \<notin> db_nodes proto s2"
      note run2 = run c(1,6) set_state_def [symmetric]
      have same: "db_same s (set_state q e V6_INIT s2)" using db_same_trans [OF g(3) c(5)] .
      have e: "se_l4_proto e = L4PROTO_TCP" "se_bib e \<noteq> None" "V6_INIT \<in> {V4_INIT, V6_INIT}" using c(7,8) tuple by simp_all
      show thesis
      proof (rule add_new_session [OF env c(4) c(6) e(1,2) c(9,10) e(3)])
        fix s' s3 assume a: "sessiondb_add (fe_sess env) q False (set_state q e V6_INIT s2) = Some (Err EEXIST, s')"
          "session_return (fe_ops env) q s' = Some s3" "sess_ok (add_mset p B) K s3" "db_same (set_state q e V6_INIT s2) s3"
        obtain s4 where s4: "bibdb_return (fe_ops env) (Some p) s3 = Some s4" "sess_ok B K s4" "db_same s3 s4" "queue_same s3 s4"
          by (rule bibdb_return_tok [OF laws a(3)])
        show thesis using failed s4(1,2) a(1,2) db_same_trans [OF db_same_trans [OF same a(4)] s4(3)] by (simp add: run2)
      next
        fix s' s3 assume a: "sessiondb_add (fe_sess env) q False (set_state q e V6_INIT s2) = Some (Ok, s')"
          "session_return (fe_ops env) q s' = Some s3" "sess_ok (add_mset p B) K s3" "opened V6_INIT tuple6 (set_state q e V6_INIT s2) s3"
        obtain s4 where s4: "bibdb_return (fe_ops env) (Some p) s3 = Some s4" "sess_ok B K s4" "db_same s3 s4" "queue_same s3 s4"
          by (rule bibdb_return_tok [OF laws a(3)])
        show thesis using syn s4(1,2) a(1,2) opened_same [OF same a(4) s4(3)] by (simp add: run2)
      qed
    qed
  qed
qed

text \<open>A packet that waits for the other side is the last one of the queue.\<close>

definition waiting :: "packet \<Rightarrow> 'a pktq_db_scheme \<Rightarrow> 'a pktq_db_scheme \<Rightarrow> bool" where
  "waiting pkt s s' \<longleftrightarrow> (\<exists>n q. node_list s' = node_list s @ [n] \<and> nodes s n = None \<and> nodes s' = (nodes s)(n \<mapsto> \<lparr>pn_session = q, pn_pkt = pkt\<rparr>))"

lemma waiting_same: "queue_same s0 s \<Longrightarrow> waiting pkt s s' \<Longrightarrow> queue_same s' s'' \<Longrightarrow> waiting pkt s0 s''"
  by (simp add: waiting_def queue_same_def)

lemma queue_new_session:
  assumes env: "filter_env_ok env" and ok: "sess_ok B (add_mset q K) s" and e: "sessions s q = Some e" "se_l4_proto e = L4PROTO_TCP"
  obtains (refused) er s' s'' where "pktqueue_add (fe_sess env) q pkt s = Some (Err er, s')"
      "session_return (fe_ops env) q s' = Some s''" "sess_ok B K s''" "db_same s s''"
    | (stored) s' s'' where "pktqueue_add (fe_sess env) q pkt s = Some (Ok, s')"
      "session_return (fe_ops env) q s' = Some s''" "sess_ok B K s''" "db_same s s''" "waiting pkt s s''"
proof -
  note laws = filter_env_okD(2) [OF env]
  have pq: "pktq_ok [] B (sess_refs s + add_mset q K) s" using ok by (simp add: sess_ok_def)
  show thesis
  proof (rule pktqueue_add_cases [OF filter_env_okD(1) [OF env] pq e])
    fix er ev assume a: "pktqueue_add (fe_sess env) q pkt s = Some (Err er, emit ev s)"
    have "sess_ok B (add_mset q K) (emit ev s)" using ok by simp
    then obtain s' where s': "session_return (fe_ops env) q (emit ev s) = Some s'" "sess_ok B K s'" "db_same (emit ev s) s'" "queue_same (emit ev s) s'"
      by (rule session_return_tok [OF laws])
    have "db_same s (emit ev s)" by simp
    then show thesis using refused a s'(1,2) db_same_trans [OF _ s'(3)] by blast
  next
    fix s1 n assume a: "pktqueue_add (fe_sess env) q pkt s = Some (Ok, s1)" "pktq_ok [] B (sess_refs s + add_mset q K) s1" "sview s1 = sview s"
      "pktq_frame s s1" "pktq_timer_ok s1" "node_list s1 = node_list s @ [n]" "nodes s n = None"
      "nodes s1 = (nodes s)(n \<mapsto> \<lparr>pn_session = q, pn_pkt = pkt\<rparr>)"
    have v: "sview s1 x = sview s x \<or> sview s1 x = None" for x using a(3) by simp
    have jif: "jiffies s1 = jiffies s" using a(4) by (simp add: pktq_frame_def)
    note ok1 = sess_ok_shrink [OF ok a(2,4,5) v]
    obtain s' where s': "session_return (fe_ops env) q s1 = Some s'" "sess_ok B K s'" "db_same s1 s'" "queue_same s1 s'"
      by (rule session_return_tok [OF laws ok1(1)])
    have "db_same s s1" using ok1(2) jif by (simp add: db_same_def)
    then have "db_same s s'" using db_same_trans s'(3) by blast
    moreover have "waiting pkt s s1" using a(6-8) by (auto simp: waiting_def)
    then have "waiting pkt s s'" by (rule waiting_same [rotated, OF _ s'(4)]) (simp add: queue_same_def)
    ultimately show thesis using stored a(1) s'(1,2) by blast
  qed
qed

abbreviation bib_tok :: "ptr option \<Rightarrow> ptr multiset" where
  "bib_tok bib \<equiv> (case bib of None \<Rightarrow> {#} | Some p \<Rightarrow> {#p#})"

lemma bibdb_return_opt:
  assumes laws: "rb_laws ops" and ok: "sess_ok (bib_tok bib + B) K s"
  obtains s' where "(if bib \<noteq> None then bibdb_return ops bib s else Some s) = Some s'" "sess_ok B K s'" "db_same s s'" "queue_same s s'"
proof (cases bib)
  case None
  then show ?thesis using that [of s] ok by (simp add: queue_same_def)
next
  case (Some p)
  then have "sess_ok (add_mset p B) K s" using ok by simp
  then obtain s' where "bibdb_return ops (Some p) s = Some s'" "sess_ok B K s'" "db_same s s'" "queue_same s s'"
    by (rule bibdb_return_tok [OF laws])
  then show ?thesis using that Some by simp
qed

lemma v4_syn_session_ok:
  assumes env: "filter_env_ok env" and ok: "sess_ok B K s" and tuple: "t_l4_proto tuple4 = L4PROTO_TCP" "t_l3_proto tuple4 = L3PROTO_IPV4"
    and bib: "\<And>p. bib = Some p \<Longrightarrow> \<exists>b. bibs s p = Some b \<and> bib_matches tuple4 b"
  obtains (drop) s' where "v4_syn_session env pkt tuple4 bib s = Some (VERDICT_DROP, s')" "sess_ok B K s'" "db_same s s'"
    | (steal) s' where "v4_syn_session env pkt tuple4 bib s = Some (VERDICT_STOLEN, s')" "sess_ok B K s'" "db_same s s'" "waiting pkt s s'"
      "bib = None \<or> config_get_addr_dependent_filtering (fe_cfg env)"
    | (pass) s' where "v4_syn_session env pkt tuple4 bib s = Some (VERDICT_CONTINUE, s')" "sess_ok B K s'" "opened V4_INIT tuple4 s s'"
      "bib \<noteq> None" "\<not> config_get_addr_dependent_filtering (fe_cfg env)"
proof -
  have t': "t_l4_proto tuple4 \<noteq> L4PROTO_OTHER" using tuple by simp
  have b': "case bib of None \<Rightarrow> t_l3_proto tuple4 = L3PROTO_IPV4 \<and> t_l4_proto tuple4 \<noteq> L4PROTO_ICMP
    | Some p \<Rightarrow> (\<exists>b. bibs s p = Some b \<and> bib_matches tuple4 b)" using bib tuple by (simp split: option.split)
  show thesis
  proof (rule create_session_ok [OF env ok t' b'])
    fix er assume "create_session env tuple4 bib s = Some (Inl er, s)"
    then show thesis using drop ok by (simp add: v4_syn_session_def)
  next
    fix q e s2 assume c: "create_session env tuple4 bib s = Some (Inr q, s2)" "\<And>st. sess_ok B (add_mset q K) (set_state q e st s2)"
      "\<And>st. db_same s (set_state q e st s2)" "sessions s2 q = Some e" "se_l4_proto e = t_l4_proto tuple4" "se_bib e = bib"
      "db_matches tuple4 e" "\<And>proto. q \<notin> db_nodes proto s2" "queue_same s s2"
    have e: "se_l4_proto e = L4PROTO_TCP" "V4_INIT \<in> {V4_INIT, V6_INIT}" using c(5) tuple by simp_all
    have s3: "sessions (set_state q e V4_INIT s2) q = Some (e\<lparr>se_state := V4_INIT\<rparr>)" "se_l4_proto (e\<lparr>se_state := V4_INIT\<rparr>) = L4PROTO_TCP"
      using e by simp_all
    have qs: "queue_same s (set_state q e V4_INIT s2)" using c(9) by (simp add: queue_same_def set_state_def)
    note run = v4_syn_session_def c(1,4) Let_def set_state_def [symmetric]
    show thesis
    proof (cases "bib = None \<or> config_get_addr_dependent_filtering (fe_cfg env)")
      case True
      show thesis
      proof (rule queue_new_session [OF env c(2) s3, where pkt = pkt])
        fix er s' s'' assume "pktqueue_add (fe_sess env) q pkt (set_state q e V4_INIT s2) = Some (Err er, s')"
          "session_return (fe_ops env) q s' = Some s''" "sess_ok B K s''" "db_same (set_state q e V4_INIT s2) s''"
        then show thesis using drop True db_same_trans [OF c(3)] by (simp add: run)
      next
        fix s' s'' assume "pktqueue_add (fe_sess env) q pkt (set_state q e V4_INIT s2) = Some (Ok, s')"
          "session_return (fe_ops env) q s' = Some s''" "sess_ok B K s''" "db_same (set_state q e V4_INIT s2) s''"
          "waiting pkt (set_state q e V4_INIT s2) s''"
        then show thesis using steal True db_same_trans [OF c(3)] waiting_same [OF qs, of pkt s'' s''] by (simp add: run queue_same_def)
      qed
    next
      case False
      then have b: "se_bib e \<noteq> None" using c(6) by simp
      show thesis
      proof (rule add_new_session [OF env c(2) c(4) e(1) b c(7,8) e(2)])
        fix s' s'' assume "sessiondb_add (fe_sess env) q False (set_state q e V4_INIT s2) = Some (Err EEXIST, s')"
          "session_return (fe_ops env) q s' = Some s''" "sess_ok B K s''" "db_same (set_state q e V4_INIT s2) s''"
        then show thesis using drop False db_same_trans [OF c(3)] by (simp add: run)
      next
        fix s' s'' assume "sessiondb_add (fe_sess env) q False (set_state q e V4_INIT s2) = Some (Ok, s')"
          "session_return (fe_ops env) q s' = Some s''" "sess_ok B K s''" "opened V4_INIT tuple4 (set_state q e V4_INIT s2) s''"
        then show thesis using pass False opened_same [OF c(3) _ db_same_refl] by (simp add: run)
      qed
    qed
  qed
qed

lemma tcp_closed_v4_syn_ok:
  assumes env: "filter_env_ok env" and ok: "sess_ok B K s" and tuple: "t_l4_proto tuple4 = L4PROTO_TCP" "t_l3_proto tuple4 = L3PROTO_IPV4"
  obtains (drop) s' where "tcp_closed_v4_syn env pkt tuple4 s = Some (VERDICT_DROP, s')" "sess_ok B K s'" "db_same s s'"
    | (steal) s' where "tcp_closed_v4_syn env pkt tuple4 s = Some (VERDICT_STOLEN, s')" "sess_ok B K s'" "db_same s s'" "waiting pkt s s'"
      "\<not> known tuple4 s \<or> config_get_addr_dependent_filtering (fe_cfg env)"
    | (pass) s' where "tcp_closed_v4_syn env pkt tuple4 s = Some (VERDICT_CONTINUE, s')" "sess_ok B K s'" "opened V4_INIT tuple4 s s'"
      "known tuple4 s" "\<not> config_get_addr_dependent_filtering (fe_cfg env)" "\<not> config_get_drop_external_connections (fe_cfg env)"
proof (cases "config_get_drop_external_connections (fe_cfg env)")
  case True
  then show thesis using drop ok by (simp add: tcp_closed_v4_syn_def)
next
  case False
  have t': "t_l4_proto tuple4 \<noteq> L4PROTO_OTHER" using tuple by simp
  have body: thesis
    if s1: "sess_ok (bib_tok bib + B) K s1" "db_same s s1" "queue_same s s1" "\<And>p. bib = Some p \<Longrightarrow> \<exists>b. bibs s1 p = Some b \<and> bib_matches tuple4 b"
      "bib = None \<longleftrightarrow> \<not> known tuple4 s"
      and run: "tcp_closed_v4_syn env pkt tuple4 s =
        do { (result, s2) \<leftarrow> v4_syn_session env pkt tuple4 bib s1;
             s3 \<leftarrow> (if bib \<noteq> None then bibdb_return (fe_ops env) bib s2 else Some s2);
             Some (result, s3) }" for bib s1
  proof -
    note ret = bibdb_return_opt [OF filter_env_okD(2) [OF env], of bib B K]
    show thesis
    proof (rule v4_syn_session_ok [OF env s1(1) tuple s1(4), where pkt = pkt])
      fix s2 assume a: "v4_syn_session env pkt tuple4 bib s1 = Some (VERDICT_DROP, s2)" "sess_ok (bib_tok bib + B) K s2" "db_same s1 s2"
      show thesis
        by (rule ret [OF a(2)]) (use drop run a(1) db_same_trans [OF db_same_trans [OF s1(2) a(3)]] in simp)
    next
      fix s2 assume a: "v4_syn_session env pkt tuple4 bib s1 = Some (VERDICT_STOLEN, s2)" "sess_ok (bib_tok bib + B) K s2" "db_same s1 s2"
        "waiting pkt s1 s2" "bib = None \<or> config_get_addr_dependent_filtering (fe_cfg env)"
      show thesis
        by (rule ret [OF a(2)])
          (use steal run a(1,5) s1(5) db_same_trans [OF db_same_trans [OF s1(2) a(3)]] waiting_same [OF s1(3) a(4)] in simp)
    next
      fix s2 assume a: "v4_syn_session env pkt tuple4 bib s1 = Some (VERDICT_CONTINUE, s2)" "sess_ok (bib_tok bib + B) K s2"
        "opened V4_INIT tuple4 s1 s2" "bib \<noteq> None" "\<not> config_get_addr_dependent_filtering (fe_cfg env)"
      show thesis
        by (rule ret [OF a(2)]) (use pass False run a(1,4,5) s1(5) opened_same [OF s1(2) a(3)] in simp)
    qed
  qed
  show thesis
  proof (rule bibdb_get_token [OF ok t'])
    assume a: "bibdb_get tuple4 s = Some (Inl ESRCH, s)" "\<not> known tuple4 s"
    show thesis by (rule body [of None s]) (use a ok False in \<open>simp_all add: tcp_closed_v4_syn_def queue_same_def\<close>)
  next
    fix p b s1 assume a: "bibdb_get tuple4 s = Some (Inr p, s1)" "sess_ok (add_mset p B) K s1" "db_same s s1" "bibs s1 p = Some b"
      "bib_matches tuple4 b" "known tuple4 s" "queue_same s s1"
    show thesis by (rule body [of "Some p" s1]) (use a False in \<open>simp_all add: tcp_closed_v4_syn_def Let_def\<close>)
  qed
qed

text \<open>What a packet does to the session of its tuple.\<close>

definition stepped :: "tuple \<Rightarrow> packet \<Rightarrow> 'a session_db_scheme \<Rightarrow> 'a session_db_scheme \<Rightarrow> bool" where
  "stepped tuple pkt s s' \<longleftrightarrow>
     (\<exists>p e e1 f. db_frame p s s' \<and> db_view L4PROTO_TCP s p = Some e \<and> db_matches tuple e \<and>
        tcp_state_machine (jiffies s) (Some pkt) e = Some (e1, f) \<and> f \<noteq> FATE_RM \<and> db_view L4PROTO_TCP s' p = Some (fated f (jiffies s) e1))"

definition unmatched :: "tuple \<Rightarrow> 'a session_db_scheme \<Rightarrow> bool" where
  "unmatched tuple s \<longleftrightarrow> (\<forall>q e. db_view (t_l4_proto tuple) s q = Some e \<longrightarrow> \<not> db_matches tuple e)"

abbreviation init_state :: "l3_protocol \<Rightarrow> tcp_state" where
  "init_state l3 \<equiv> (case l3 of L3PROTO_IPV6 \<Rightarrow> V6_INIT | L3PROTO_IPV4 \<Rightarrow> V4_INIT)"

text \<open>The effect of a packet on the sessions, for each verdict.\<close>

definition tcp_effect :: "filter_env \<Rightarrow> tuple \<Rightarrow> packet \<Rightarrow> tcphdr \<Rightarrow> verdict \<Rightarrow> 'a session_db_scheme \<Rightarrow> 'a session_db_scheme \<Rightarrow> bool" where
  "tcp_effect env tuple pkt hdr v s s' \<longleftrightarrow>
     (case v of
        VERDICT_CONTINUE \<Rightarrow>
          if unmatched tuple s
          then (if th_syn hdr
                then opened (init_state (t_l3_proto tuple)) tuple s s' \<and>
                  (t_l3_proto tuple = L3PROTO_IPV4 \<longrightarrow> known tuple s \<and> \<not> config_get_addr_dependent_filtering (fe_cfg env) \<and>
                     \<not> config_get_drop_external_connections (fe_cfg env))
                else known tuple s \<and> db_same s s')
          else stepped tuple pkt s s'
      | VERDICT_STOLEN \<Rightarrow> unmatched tuple s \<and> th_syn hdr \<and> t_l3_proto tuple = L3PROTO_IPV4 \<and> db_same s s' \<and> waiting pkt s s' \<and>
          (\<not> known tuple s \<or> config_get_addr_dependent_filtering (fe_cfg env))
      | VERDICT_DROP \<Rightarrow> unmatched tuple s \<and> db_same s s' \<and> (\<not> th_syn hdr \<longrightarrow> \<not> known tuple s)
      | VERDICT_ACCEPT \<Rightarrow> False)"

lemma tcp_closed_state_ok:
  assumes env: "filter_env_ok env" and ok: "sess_ok B K s" and tuple: "t_l4_proto tuple = L4PROTO_TCP" "t_l3_proto tuple = pkt_l3_proto pkt"
    and hdr: "pkt_tcp_hdr pkt = Some hdr" and un: "unmatched tuple s"
  obtains v s' where "tcp_closed_state env pkt tuple s = Some (v, s')" "sess_ok B K s'" "tcp_effect env tuple pkt hdr v s s'"
proof (cases "th_syn hdr")
  case False
  have t': "t_l4_proto tuple \<noteq> L4PROTO_OTHER" using tuple by simp
  note run = tcp_closed_state_def hdr False
  show thesis
  proof (rule bibdb_get_token [OF ok t'])
    assume "bibdb_get tuple s = Some (Inl ESRCH, s)" "\<not> known tuple s"
    then show thesis using that [of VERDICT_DROP "count_stat pkt IPSTATS_MIB_INNOROUTES s"] ok un by (simp add: run tcp_effect_def)
  next
    fix p b s1 assume a: "bibdb_get tuple s = Some (Inr p, s1)" "sess_ok (add_mset p B) K s1" "db_same s s1" "known tuple s"
    obtain s2 where s2: "bibdb_return (fe_ops env) (Some p) s1 = Some s2" "sess_ok B K s2" "db_same s1 s2" "queue_same s1 s2"
      by (rule bibdb_return_tok [OF filter_env_okD(2) [OF env] a(2)])
    then show thesis using that [of VERDICT_CONTINUE s2] a(1,4) un False db_same_trans [OF a(3) s2(3)] by (simp add: run tcp_effect_def)
  qed
next
  case True
  note run = tcp_closed_state_def hdr True tuple(2) [symmetric]
  show thesis
  proof (cases "t_l3_proto tuple")
    case L3PROTO_IPV6
    show thesis
    proof (rule tcp_closed_v6_syn_ok [OF env ok tuple(1) L3PROTO_IPV6, where pkt = pkt])
      fix er s' assume "tcp_closed_v6_syn env pkt tuple s = Some (Err er, s')" "sess_ok B K s'" "db_same s s'"
      then show thesis using that [of VERDICT_DROP "count_stat pkt IPSTATS_MIB_INDISCARDS s'"] un True
        by (simp add: run L3PROTO_IPV6 tcp_effect_def)
    next
      fix s' assume "tcp_closed_v6_syn env pkt tuple s = Some (Ok, s')" "sess_ok B K s'" "opened V6_INIT tuple s s'"
      then show thesis using that [of VERDICT_CONTINUE s'] un True by (simp add: run L3PROTO_IPV6 tcp_effect_def)
    qed
  next
    case L3PROTO_IPV4
    show thesis
    proof (rule tcp_closed_v4_syn_ok [OF env ok tuple(1) L3PROTO_IPV4, where pkt = pkt])
      fix s' assume "tcp_closed_v4_syn env pkt tuple s = Some (VERDICT_DROP, s')" "sess_ok B K s'" "db_same s s'"
      then show thesis using that [of VERDICT_DROP "count_stat pkt IPSTATS_MIB_INDISCARDS s'"] un True
        by (simp add: run L3PROTO_IPV4 tcp_effect_def)
    next
      fix s' assume "tcp_closed_v4_syn env pkt tuple s = Some (VERDICT_STOLEN, s')" "sess_ok B K s'" "db_same s s'" "waiting pkt s s'"
        "\<not> known tuple s \<or> config_get_addr_dependent_filtering (fe_cfg env)"
      then show thesis using that [of VERDICT_STOLEN s'] un True by (simp add: run L3PROTO_IPV4 tcp_effect_def)
    next
      fix s' assume "tcp_closed_v4_syn env pkt tuple s = Some (VERDICT_CONTINUE, s')" "sess_ok B K s'" "opened V4_INIT tuple s s'"
        "known tuple s" "\<not> config_get_addr_dependent_filtering (fe_cfg env)" "\<not> config_get_drop_external_connections (fe_cfg env)"
      then show thesis using that [of VERDICT_CONTINUE s'] un True by (simp add: run L3PROTO_IPV4 tcp_effect_def)
    qed
  qed
qed

lemma tcp_machine_refcounter:
  assumes "pkt_tcp_hdr pkt = Some hdr"
  shows "tcp_state_machine now (Some pkt) (e\<lparr>se_refcounter := n\<rparr>) =
    map_option (\<lambda>(e1, f). (e1\<lparr>se_refcounter := n\<rparr>, f)) (tcp_state_machine now (Some pkt) e)"
  by (cases "se_state e"; cases "pkt_l3_proto pkt") (auto simp: tcp_state_defs assms)

lemma tcp_machine_rm:
  assumes "pkt_tcp_hdr pkt = Some hdr" "tcp_state_machine now (Some pkt) e = Some (e1, FATE_RM)"
  shows "se_state e = CLOSED"
  using assms by (cases "se_state e"; cases "pkt_l3_proto pkt") (auto simp: tcp_state_defs split: if_splits)

lemma sess_ok_placed:
  assumes ok: "sess_ok B K s" and v: "db_view proto s q = Some e"
  obtains x where "se_expirer e = Some x" "placed x e"
proof -
  obtain t where t: "sess_get_table proto s = Some t" "q \<in> stable_nodes t" "sview s q = Some e"
    using v by (auto simp: db_view_def db_nodes_def restrict_map_def split: if_splits option.splits)
  have "stable_ok proto (sview s) t" using ok t(1) by (simp add: sess_ok_def)
  from stable_ok_entry [OF this t(2,3)] show thesis using that by (auto simp: sess_entry_ok_def)
qed

lemma tcp_ok:
  assumes env: "filter_env_ok env" and ok: "sess_ok B K s" and tuple: "t_l4_proto tuple = L4PROTO_TCP" "t_l3_proto tuple = pkt_l3_proto pkt"
    and hdr: "pkt_tcp_hdr pkt = Some hdr"
  obtains v s' where "tcp env pkt tuple s = Some (v, s')" "sess_ok B K s'" "tcp_effect env tuple pkt hdr v s s'"
proof -
  have t': "L4PROTO_TCP \<noteq> L4PROTO_OTHER" by simp
  show thesis
  proof (rule fate_contract.db_get_ok [OF tcp_machine_contract [OF hdr] filter_env_okD(1) [OF env] ok tuple(1) t'])
    assume m: "sessiondb_get (fe_sess env) tuple (Some tcp_state_machine) (Some pkt) s = Some (Inl ESRCH, s)"
      "\<And>q e. db_view L4PROTO_TCP s q = Some e \<Longrightarrow> \<not> db_matches tuple e"
    have "unmatched tuple s" using m(2) tuple(1) by (simp add: unmatched_def)
    then show thesis by (rule tcp_closed_state_ok [OF env ok tuple hdr]) (use that m(1) in \<open>simp add: tcp_def\<close>)
  next
    fix p e e1 f s1 assume a: "db_view L4PROTO_TCP s p = Some (e\<lparr>se_refcounter := 0\<rparr>)" "db_matches tuple e"
      "tcp_state_machine (jiffies s) (Some pkt) (e\<lparr>se_refcounter := se_refcounter e + 1\<rparr>) = Some (e1, f)"
      "sessiondb_get (fe_sess env) tuple (Some tcp_state_machine) (Some pkt) s = Some (Inr p, s1)" "sess_ok B (add_mset p K) s1"
      "sview s1 p = Some (fated f (jiffies s) e1)" "p \<in> db_nodes L4PROTO_TCP s1 \<longleftrightarrow> f \<noteq> FATE_RM" "db_frame p s s1"
    obtain s2 where s2: "session_return (fe_ops env) p s1 = Some s2" "sess_ok B K s2" "db_same s1 s2" "queue_same s1 s2"
      by (rule session_return_tok [OF filter_env_okD(2) [OF env] a(5)])
    obtain e0 where e0: "tcp_state_machine (jiffies s) (Some pkt) e = Some (e0, f)" "e1 = e0\<lparr>se_refcounter := se_refcounter e + 1\<rparr>"
      using a(3) by (auto simp: tcp_machine_refcounter [OF hdr])
    then have m: "tcp_state_machine (jiffies s) (Some pkt) (e\<lparr>se_refcounter := 0\<rparr>) = Some (e0\<lparr>se_refcounter := 0\<rparr>, f)"
      by (simp add: tcp_machine_refcounter [OF hdr])
    obtain x where "placed x (e\<lparr>se_refcounter := 0\<rparr>)" by (rule sess_ok_placed [OF ok a(1)])
    moreover have "se_l4_proto e = L4PROTO_TCP"
    proof -
      have "p \<in> db_nodes L4PROTO_TCP s" "sview s p = Some (e\<lparr>se_refcounter := 0\<rparr>)"
        using a(1) by (auto simp: db_view_def restrict_map_def split: if_splits)
      then show ?thesis using db_nodes_proto(1) [OF ok] by fastforce
    qed
    ultimately have f: "f \<noteq> FATE_RM" using tcp_machine_rm [OF hdr] e0(1) by (auto simp: placed_def)
    have "db_view L4PROTO_TCP s2 p = Some (fated f (jiffies s) (e0\<lparr>se_refcounter := 0\<rparr>))"
      using a(6,7) f s2(3) e0(2) by (simp add: db_view_def db_same_def fated_def)
    moreover have "db_frame p s s2" using db_frame_trans [OF a(8) db_same_frame [OF s2(3)]] .
    ultimately have "stepped tuple pkt s s2" unfolding stepped_def using a(1,2) m f by (metis db_matches_upd(1))
    moreover have "\<not> unmatched tuple s" unfolding unmatched_def using a(1,2) tuple(1) by (metis db_matches_upd(1))
    ultimately show thesis using that [of VERDICT_CONTINUE s2] a(4) s2(1,2) by (simp add: tcp_def tcp_effect_def)
  qed
qed

section \<open>The whole step\<close>

text \<open>
  What the step expects of its input: the tuple is the packet's, and the headers the step looks at
  are within the buffer. The tuple of an ICMP error is the one of the inner packet.
\<close>

definition icmp_error :: "packet \<Rightarrow> bool option" where
  "icmp_error pkt = (case pkt_l3_proto pkt of L3PROTO_IPV6 \<Rightarrow> pkt_is_icmp6_error pkt | L3PROTO_IPV4 \<Rightarrow> pkt_is_icmp4_error pkt)"

definition pkt_ready :: "packet \<Rightarrow> tuple \<Rightarrow> bool" where
  "pkt_ready pkt tuple \<longleftrightarrow> t_l3_proto tuple = pkt_l3_proto pkt \<and> icmp_error pkt \<noteq> None \<and>
     (icmp_error pkt = Some False \<longrightarrow> t_l4_proto tuple = pkt_l4_proto pkt) \<and>
     (pkt_l3_proto pkt = L3PROTO_IPV6 \<longrightarrow> pkt_ip6_hdr pkt \<noteq> None) \<and>
     (pkt_l4_proto pkt = L4PROTO_TCP \<longrightarrow> pkt_tcp_hdr pkt \<noteq> None)"

definition simple_effect :: "filter_env \<Rightarrow> tuple \<Rightarrow> verdict \<Rightarrow> 'a session_db_scheme \<Rightarrow> 'a session_db_scheme \<Rightarrow> bool" where
  "simple_effect env tuple v s s' \<longleftrightarrow>
     (case v of
        VERDICT_CONTINUE \<Rightarrow> refreshed tuple s s' \<and> (t_l3_proto tuple = L3PROTO_IPV4 \<longrightarrow> known tuple s \<and> allowed env tuple s)
      | VERDICT_DROP \<Rightarrow> db_same s s' \<and> (t_l3_proto tuple = L3PROTO_IPV4 \<longrightarrow> known tuple s)
      | VERDICT_ACCEPT \<Rightarrow> db_same s s' \<and> t_l3_proto tuple = L3PROTO_IPV4 \<and> \<not> known tuple s
      | VERDICT_STOLEN \<Rightarrow> False)"

lemma simple_ok:
  assumes env: "filter_env_ok env" and ok: "sess_ok B K s" and proto: "t_l4_proto tuple \<in> {L4PROTO_UDP, L4PROTO_ICMP}"
  obtains v s' where "(case t_l3_proto tuple of L3PROTO_IPV6 \<Rightarrow> ipv6_simple env pkt tuple s | L3PROTO_IPV4 \<Rightarrow> ipv4_simple env pkt tuple s) = Some (v, s')"
    "sess_ok B K s'" "simple_effect env tuple v s s'"
proof -
  have p: "t_l4_proto tuple \<noteq> L4PROTO_OTHER" "t_l4_proto tuple \<noteq> L4PROTO_TCP" using proto by auto
  show thesis
  proof (cases "t_l3_proto tuple")
    case L3PROTO_IPV6
    show thesis
      by (rule ipv6_simple_ok [OF env ok p L3PROTO_IPV6, where pkt = pkt]) (use that L3PROTO_IPV6 in \<open>simp_all add: simple_effect_def\<close>)
  next
    case L3PROTO_IPV4
    show thesis
      by (rule ipv4_simple_ok [OF env ok p, where pkt = pkt]) (use that L3PROTO_IPV4 in \<open>simp_all add: simple_effect_def\<close>)
  qed
qed

definition filter_effect :: "filter_env \<Rightarrow> packet \<Rightarrow> tuple \<Rightarrow> verdict \<Rightarrow> 'a session_db_scheme \<Rightarrow> 'a session_db_scheme \<Rightarrow> bool" where
  "filter_effect env pkt tuple v s s' \<longleftrightarrow>
     (case t_l4_proto tuple of
        L4PROTO_TCP \<Rightarrow> (\<exists>hdr. pkt_tcp_hdr pkt = Some hdr \<and> tcp_effect env tuple pkt hdr v s s')
      | L4PROTO_UDP \<Rightarrow> simple_effect env tuple v s s'
      | L4PROTO_ICMP \<Rightarrow> simple_effect env tuple v s s' \<or>
          config_get_filter_icmpv6_info (fe_cfg env) \<and> t_l3_proto tuple = L3PROTO_IPV6 \<and> v = VERDICT_DROP \<and> db_same s s'
      | L4PROTO_OTHER \<Rightarrow> v = VERDICT_DROP \<and> s' = s)"

lemma filtering_dispatch_ok:
  assumes env: "filter_env_ok env" and ok: "sess_ok B K s" and pkt: "pkt_ready pkt tuple" "t_l4_proto tuple = pkt_l4_proto pkt"
  obtains v s' where "filtering_dispatch env pkt tuple s = Some (v, s')" "sess_ok B K s'" "filter_effect env pkt tuple v s s'"
proof -
  have l3: "pkt_l3_proto pkt = t_l3_proto tuple" using pkt(1) by (simp add: pkt_ready_def)
  note run = filtering_dispatch_def pkt(2) [symmetric] l3
  note simp = simple_ok [OF env ok, of tuple pkt]
  show thesis
  proof (cases "t_l4_proto tuple")
    case L4PROTO_UDP
    show thesis by (rule simp) (use L4PROTO_UDP that in \<open>simp_all add: run filter_effect_def\<close>)
  next
    case L4PROTO_ICMP
    show thesis
    proof (cases "config_get_filter_icmpv6_info (fe_cfg env) \<and> t_l3_proto tuple = L3PROTO_IPV6")
      case True
      then show thesis using L4PROTO_ICMP ok that [of VERDICT_DROP "count_stat pkt IPSTATS_MIB_INDISCARDS s"]
        by (simp add: run filter_effect_def)
    next
      case False
      then have eq: "filtering_dispatch env pkt tuple s =
          (case t_l3_proto tuple of L3PROTO_IPV6 \<Rightarrow> ipv6_simple env pkt tuple s | L3PROTO_IPV4 \<Rightarrow> ipv4_simple env pkt tuple s)"
        using L4PROTO_ICMP by (auto simp: run split: l3_protocol.split)
      show thesis by (rule simp) (use L4PROTO_ICMP that eq in \<open>simp_all add: filter_effect_def\<close>)
    qed
  next
    case L4PROTO_TCP
    then obtain hdr where hdr: "pkt_tcp_hdr pkt = Some hdr" using pkt by (auto simp: pkt_ready_def)
    show thesis
      by (rule tcp_ok [OF env ok L4PROTO_TCP l3 [symmetric] hdr]) (use L4PROTO_TCP that hdr in \<open>simp_all add: run filter_effect_def\<close>)
  next
    case L4PROTO_OTHER
    then show thesis using that [of VERDICT_DROP s] ok by (simp add: run filter_effect_def)
  qed
qed

text \<open>Whether the packet is one to translate: between the two pools, and not from our own prefix.\<close>

definition translatable :: "filter_env \<Rightarrow> packet \<Rightarrow> tuple \<Rightarrow> bool" where
  "translatable env pkt tuple \<longleftrightarrow>
     (case pkt_l3_proto pkt of
        L3PROTO_IPV6 \<Rightarrow> (\<exists>hdr. pkt_ip6_hdr pkt = Some hdr \<and> pool6_contains (fe_pool6 env) (Some (ip6_saddr hdr)) = Some False \<and>
          pool6_contains (fe_pool6 env) (Some (ip6_daddr hdr)) = Some True)
      | L3PROTO_IPV4 \<Rightarrow>
          pool4db_contains (pe_devs (fe_pool4 env)) (pe_pool4 (fe_pool4 env)) (t_l4_proto tuple) (addr4 (t_dst tuple)) = Some True)"

lemma filter_env_pools:
  assumes "filter_env_ok env"
  obtains a b where "pool6_contains (fe_pool6 env) (Some x) = Some a"
    "pool4db_contains (pe_devs (fe_pool4 env)) (pe_pool4 (fe_pool4 env)) proto ad = Some b"
proof -
  obtain database where "p4_db (pe_pool4 (fe_pool4 env)) = Some database" using assms by (auto simp: filter_env_ok_def env_ok_def db_rep_def)
  then have "pool4db_contains (pe_devs (fe_pool4 env)) (pe_pool4 (fe_pool4 env)) proto ad \<noteq> None"
    by (simp add: pool4db_contains_def pool4db_is_empty_def)
  moreover have "pool6_contains (fe_pool6 env) (Some x) \<noteq> None"
    using assms by (auto simp: filter_env_ok_def pool6_contains_def pool6_get_def)
  ultimately show thesis using that by blast
qed

lemma filtering_ok:
  assumes env: "filter_env_ok env" and ok: "sess_ok B K s" and pkt: "pkt_ready pkt tuple"
  obtains (pass) v s' where "translatable env pkt tuple" "icmp_error pkt = Some False" "filtering_and_updating env pkt tuple s = Some (v, s')"
      "sess_ok B K s'" "filter_effect env pkt tuple v s s'"
    | (inner) "translatable env pkt tuple" "icmp_error pkt = Some True" "filtering_and_updating env pkt tuple s = Some (VERDICT_CONTINUE, s)"
    | (alien) v s' where "\<not> translatable env pkt tuple" "filtering_and_updating env pkt tuple s = Some (v, s')" "sess_ok B K s'" "db_same s s'"
      "v \<in> {VERDICT_ACCEPT, VERDICT_DROP}"
proof -
  obtain er where er: "icmp_error pkt = Some er" using pkt by (auto simp: pkt_ready_def)
  have go: thesis
    if tr: "translatable env pkt tuple"
      and run: "filtering_and_updating env pkt tuple s =
        do { error \<leftarrow> icmp_error pkt; (if error then Some (VERDICT_CONTINUE, s) else filtering_dispatch env pkt tuple s) }"
  proof (cases er)
    case True
    then show thesis using inner [OF tr] run er by simp
  next
    case False
    then have "t_l4_proto tuple = pkt_l4_proto pkt" using pkt er by (simp add: pkt_ready_def)
    then show thesis
      by (rule filtering_dispatch_ok [OF env ok pkt]) (use pass [OF tr] run er False in simp)
  qed
  show thesis
  proof (cases "pkt_l3_proto pkt")
    case L3PROTO_IPV6
    then obtain hdr where hdr: "pkt_ip6_hdr pkt = Some hdr" using pkt by (auto simp: pkt_ready_def)
    obtain a where a: "pool6_contains (fe_pool6 env) (Some (ip6_saddr hdr)) = Some a" by (rule filter_env_pools [OF env])
    obtain b where b: "pool6_contains (fe_pool6 env) (Some (ip6_daddr hdr)) = Some b" by (rule filter_env_pools [OF env])
    note run = filtering_and_updating_def translatable_def L3PROTO_IPV6 hdr a b icmp_error_def
    show thesis
    proof (cases "\<not> a \<and> b")
      case True
      then show thesis by (intro go) (simp_all add: run)
    next
      case False
      then show thesis
        using alien [of VERDICT_DROP "count_stat pkt IPSTATS_MIB_INADDRERRORS s"] alien [of VERDICT_ACCEPT s] ok
        by (cases a) (simp_all add: run)
    qed
  next
    case L3PROTO_IPV4
    obtain b where b: "pool4db_contains (pe_devs (fe_pool4 env)) (pe_pool4 (fe_pool4 env)) (t_l4_proto tuple) (addr4 (t_dst tuple)) = Some b"
      by (rule filter_env_pools [OF env])
    note run = filtering_and_updating_def translatable_def L3PROTO_IPV4 b icmp_error_def
    show thesis
    proof (cases b)
      case True
      then show thesis by (intro go) (simp_all add: run)
    next
      case False
      then show thesis using alien [of VERDICT_ACCEPT s] ok by (simp add: run)
    qed
  qed
qed

section \<open>A concrete environment\<close>

definition sample_pool_table :: "l4_protocol \<Rightarrow> pool4_table" where
  "sample_pool_table proto = \<lparr>p4t_mark = 0, p4t_proto = proto,
     p4t_rows = [\<lparr>p4a_addr = 0xC0000201, p4a_ports = [\<lparr>pr_min = 1024, pr_max = 1026\<rparr>]\<rparr>]\<rparr>"

definition sample_filter_env :: "l4_protocol \<Rightarrow> filter_env" where
  "sample_filter_env proto = \<lparr>fe_sess = sample_sess_env, fe_crypto = sample_crypto,
     fe_pool4 = sample_env\<lparr>pe_pool4 := \<lparr>p4_db = Some [[sample_pool_table proto], []], p4_tables = 1, p4_power = 1\<rparr>\<rparr>,
     fe_pool6 = Some [\<lparr>p6_address = 0x0064FF9B000000000000000000000000, p6_len = 96\<rparr>], fe_bib_alloc = sample_alloc 7\<rparr>"

lemma sample_filter_env_ok: "filter_env_ok (sample_filter_env proto)"
proof -
  have "pool4_taddrs (sample_pool_table proto) =
      [\<lparr>ta4_l3 = 0xC0000201, ta4_l4 = 1024\<rparr>, \<lparr>ta4_l3 = 0xC0000201, ta4_l4 = 1025\<rparr>, \<lparr>ta4_l3 = 0xC0000201, ta4_l4 = 1026\<rparr>]"
    by (simp add: pool4_taddrs_def sample_pool_table_def table_ranges_def range_taddrs_def port_range_count_def upt_rec)
  then have "pool4table_inv (sample_pool_table proto)"
    by (simp add: pool4table_inv_def sample_pool_table_def ranges_wf_def range_ok_def port_range_touches_def)
  then have "env_ok (fe_pool4 (sample_filter_env proto)) [[sample_pool_table proto], []]"
    by (auto simp: env_ok_def db_rep_def slot_ok_def sample_filter_env_def sample_env_def hash_range_def sample_pool_table_def
      pool4table_is_empty_def less_Suc_eq)
  then show ?thesis
    using sample_sess_env_ok sample_alloc_ok [of 7] by (auto simp: filter_env_ok_def sample_filter_env_def sample_crypto_def)
qed

lemma sample_pool_contains:
  "pool4db_contains (pe_devs (fe_pool4 (sample_filter_env proto))) (pe_pool4 (fe_pool4 (sample_filter_env proto))) proto ta =
     Some (ta4_l3 ta = 0xC0000201 \<and> 1024 \<le> ta4_l4 ta \<and> ta4_l4 ta \<le> 1026)"
  by (auto simp: pool4db_contains_def pool4db_is_empty_def sample_filter_env_def sample_env_def sample_pool_table_def
    pool4table_is_empty_def pool4table_contains_def port_range_contains_def addr4_equals_def)

end
