(* ===== verification/Static_Routes.thy ===== *)
theory Static_Routes
  imports Filtering_Invariant
begin

text \<open>
  Static BIB entries (\<^verbatim>\<open>mod/stateful/bib/static_routes.c\<close>): entries the user adds keep a reference nobody
  holds, so that they outlive their sessions.
\<close>

section \<open>Model\<close>

text \<open>The two members of the union of \<^verbatim>\<open>struct request_bib\<close> that the operations read.\<close>

record request_bib_add =
  ra_l4_proto :: l4_protocol
  ra_addr6 :: ipv6_transport_addr
  ra_addr4 :: ipv4_transport_addr

record request_bib_rm =
  rr_l4_proto :: l4_protocol
  rr_addr6_set :: bool
  rr_addr6 :: ipv6_transport_addr
  rr_addr4_set :: bool
  rr_addr4 :: ipv4_transport_addr

definition validate_bib :: "ptr rb_ops \<Rightarrow> errno + ptr \<Rightarrow> 'a bib_db_scheme \<Rightarrow> (status \<times> 'a bib_db_scheme) option" where
  "validate_bib ops r s =
     (case r of
        Inr bib \<Rightarrow> do { s' \<leftarrow> bibdb_return ops (Some bib) s; Some (Err EEXIST, s') }
      | Inl error \<Rightarrow> Some (if error = ESRCH then Ok else Err error, s))"

definition add_static_route :: "filter_env \<Rightarrow> request_bib_add \<Rightarrow> 'a session_db_scheme \<Rightarrow> (status \<times> 'a session_db_scheme) option" where
  "add_static_route env request s =
     do { ours \<leftarrow> pool4db_contains (pe_devs (fe_pool4 env)) (pe_pool4 (fe_pool4 env)) (ra_l4_proto request) (ra_addr4 request);
          (if \<not> ours then Some (Err EINVAL, s)
           else
             do { (r, s1) \<leftarrow> bibdb_get4 (ra_addr4 request) (ra_l4_proto request) s;
                  (error, s2) \<leftarrow> validate_bib (fe_ops env) r s1;
                  (if error \<noteq> Ok then Some (error, s2)
                   else
                     do { (r, s3) \<leftarrow> bibdb_get6 (ra_addr6 request) (ra_l4_proto request) s2;
                          (error, s4) \<leftarrow> validate_bib (fe_ops env) r s3;
                          (if error \<noteq> Ok then Some (error, s4)
                           else
                             (case bibentry_create (fe_bib_alloc env) (ra_addr4 request) (ra_addr6 request) True (ra_l4_proto request) (bibs s4) of
                                (None, h) \<Rightarrow> Some (Err ENOMEM, s4\<lparr>bibs := h\<rparr>)
                              | (Some bib, h) \<Rightarrow>
                                  do { (error, s5) \<leftarrow> bibdb_add (fe_ops env) bib (s4\<lparr>bibs := h\<rparr>);
                                       (if error \<noteq> Ok
                                        then do { h \<leftarrow> bibentry_kfree bib (bibs s5); Some (error, s5\<lparr>bibs := h\<rparr>) }
                                        else Some (Ok, s5)) })) }) }) }"

definition delete_static_route :: "ptr rb_ops \<Rightarrow> request_bib_rm \<Rightarrow> 'a session_db_scheme \<Rightarrow> (status \<times> 'a session_db_scheme) option" where
  "delete_static_route ops request s =
     do { (r, s1) \<leftarrow> (if rr_addr6_set request then bibdb_get6 (rr_addr6 request) (rr_l4_proto request) s
                      else if rr_addr4_set request then bibdb_get4 (rr_addr4 request) (rr_l4_proto request) s
                      else Some (Inl EINVAL, s));
          (case r of
             Inl error \<Rightarrow> Some (Err error, s1)
           | Inr bib \<Rightarrow>
               do { b \<leftarrow> bibs s1 bib;
                    (if rr_addr6_set request \<and> rr_addr4_set request \<and> b_ipv4 b \<noteq> rr_addr4 request
                     then do { s2 \<leftarrow> bibdb_return ops (Some bib) s1; Some (Err ESRCH, s2) }
                     else
                       do { s2 \<leftarrow> (if b_is_static b
                                   then do { s2 \<leftarrow> bibdb_return ops (Some bib) s1;
                                             b \<leftarrow> bibs s2 bib;
                                             Some (s2\<lparr>bibs := (bibs s2)(bib \<mapsto> b\<lparr>b_is_static := False\<rparr>)\<rparr>) }
                                   else Some s1);
                            (error, s3) \<leftarrow> sessiondb_delete_by_bib ops bib s2;
                            s4 \<leftarrow> bibdb_return ops (Some bib) s3;
                            Some (error, s4) }) }) }"

section \<open>Adding\<close>

text \<open>What stands in the way of an entry: another one of the protocol with one of its addresses.\<close>

definition conflict :: "request_bib_add \<Rightarrow> 'a bib_db_scheme \<Rightarrow> bool" where
  "conflict request s \<longleftrightarrow> (\<exists>p b. bibs s p = Some b \<and> b_l4_proto b = ra_l4_proto request \<and>
     (b_ipv4 b = ra_addr4 request \<or> b_ipv6 b = ra_addr6 request))"

definition static_entry :: "request_bib_add \<Rightarrow> bib_entry" where
  "static_entry request = \<lparr>b_ipv4 = ra_addr4 request, b_ipv6 = ra_addr6 request, b_l4_proto = ra_l4_proto request, b_is_static = True,
     b_refcounter = 1, b_tree6_hook = True, b_tree4_hook = True\<rparr>"

lemma validate_found:
  assumes laws: "rb_laws ops" and ok: "sess_ok B K s" and p: "bibs s p = Some b"
  obtains s' where "validate_bib ops (Inr p) (bib_get_ref p s) = Some (Err EEXIST, s')" "sess_ok B K s'" "db_same s s'"
proof -
  note r = sess_ok_bib [OF ok bib_only_get_ref refs_ok_get [OF sess_ok_wf(2) [OF ok] p]]
  obtain s' where "bibdb_return ops (Some p) (bib_get_ref p s) = Some s'" "sess_ok B K s'" "db_same (bib_get_ref p s) s'" "queue_same (bib_get_ref p s) s'"
    by (rule bibdb_return_tok [OF laws r(1)])
  then show ?thesis using that db_same_trans [OF r(2)] by (simp add: validate_bib_def)
qed

lemma add_static_route_ok:
  assumes env: "filter_env_ok env" and ok: "sess_ok B K s" and proto: "ra_l4_proto request \<noteq> L4PROTO_OTHER"
    and pool: "pool4db_contains (pe_devs (fe_pool4 env)) (pe_pool4 (fe_pool4 env)) (ra_l4_proto request) (ra_addr4 request) = Some True"
  obtains (exists) s' where "conflict request s" "add_static_route env request s = Some (Err EEXIST, s')" "sess_ok B K s'" "db_same s s'"
    | (nomem) "\<not> conflict request s" "fe_bib_alloc env (bibs s) = None" "add_static_route env request s = Some (Err ENOMEM, s)"
    | (added) p s' where "\<not> conflict request s" "fe_bib_alloc env (bibs s) = Some p" "add_static_route env request s = Some (Ok, s')"
      "sess_ok (add_mset p B) K s'" "db_same s s'" "bibs s p = None" "bibs s' = (bibs s)(p \<mapsto> static_entry request)"
proof -
  note wf = sess_ok_wf(1) [OF ok] and laws = filter_env_okD(2) [OF env]
  note run = add_static_route_def pool
  show thesis
  proof (cases rule: bibdb_get4_cases [OF wf proto, of "ra_addr4 request"])
    case (1 p b)
    show thesis
      by (rule validate_found [OF laws ok 1(1)]) (use 1 exists in \<open>auto simp: run conflict_def\<close>)
  next
    case 2
    note get4 = this
    show thesis
    proof (cases rule: bibdb_get6_cases [OF wf proto, of "ra_addr6 request"])
      case (1 p b)
      show thesis
        by (rule validate_found [OF laws ok 1(1)]) (use 1 get4(2) exists in \<open>auto simp: run conflict_def validate_bib_def [of _ "Inl _"]\<close>)
    next
      case 2
      note get6 = this
      have free: "\<not> conflict request s" using get4(1) get6(1) by (auto simp: conflict_def)
      note run = run get4(2) get6(2) validate_bib_def bibentry_create_def
      show thesis
      proof (cases "fe_bib_alloc env (bibs s)")
        case None
        then show thesis using nomem [OF free] by (simp add: run)
      next
        case (Some p)
        have p: "bibs s p = None" using filter_env_okD(3) [OF env] Some by (simp add: bib_alloc_ok_def)
        define b where "b = (static_entry request)\<lparr>b_tree6_hook := False, b_tree4_hook := False\<rparr>"
        have b: "b_refcounter b = 1" "b_l4_proto b \<noteq> L4PROTO_OTHER" using proto by (simp_all add: b_def static_entry_def)
        show thesis
        proof (cases rule: bibdb_add_cases [OF laws wf p b])
          case (1 q c s' b')
          then show thesis using free by (auto simp: conflict_def b_def static_entry_def)
        next
          case (2 s')
          have "refs_ok (add_mset p B) s'" by (rule refs_ok_new_bib [OF sess_ok_wf(2) [OF ok] p 2(3,4,5)]) (simp add: b)
          note ok' = sess_ok_bib [OF ok 2(3) this]
          have "add_static_route env request s = Some (Ok, s')" using 2(2) by (simp add: run Some b_def static_entry_def)
          then show thesis using added [OF free Some] ok' p 2(5) by (simp add: b_def static_entry_def)
        qed
      qed
    qed
  qed
qed

section \<open>Deleting\<close>

lemma bibdb_return_get:
  assumes "bibs s p = Some b" "b_refcounter b \<ge> 1"
  shows "bibdb_return ops (Some p) (bib_get_ref p s) = Some s"
proof -
  have "(bibs s)(p \<mapsto> b) = bibs s" using assms(1) by (simp add: fun_upd_idem)
  then show ?thesis using assms by (simp add: bibdb_return_def bib_get_ref_def bibentry_return_def)
qed

lemma sess_ok_unmark:
  assumes ok: "sess_ok B K s" and p: "bibs s p = Some b"
  shows "sess_ok B K (s\<lparr>bibs := (bibs s)(p \<mapsto> b\<lparr>b_is_static := False\<rparr>)\<rparr>)" (is "sess_ok B K ?s'")
    "db_same s (s\<lparr>bibs := (bibs s)(p \<mapsto> b\<lparr>b_is_static := False\<rparr>)\<rparr>)"
proof -
  note wf = sess_ok_wf(1) [OF ok]
  have "bib_db_ok ?s'" unfolding bib_db_ok_def
  proof (intro allI impI)
    fix proto t assume "bib_get_table proto ?s' = Some t"
    then have t: "bib_get_table proto s = Some t" by simp
    show "bib_table_ok proto (bibs ?s') t"
    proof (rule bib_table_ok_heap [OF bib_wf_table [OF wf t]])
      fix q c assume "q \<in> bib_nodes t" "bibs s q = Some c"
      then show "\<exists>c'. bibs ?s' q = Some c' \<and> bib_same c c' \<and> b_refcounter c' \<ge> 1"
        using p bib_wf_pos [OF wf] by (auto simp: bib_same_def)
    qed
  qed
  then have "bib_wf ?s'" using wf p by (auto simp: bib_wf_def)
  moreover have "bib_count ?s' q = bib_count s q" for q using p by (simp add: bib_count_def)
  ultimately have "refs_ok B ?s'" using sess_ok_wf(2) [OF ok] p by (fastforce simp: refs_ok_def sess_agrees_def split: if_splits)
  then show "sess_ok B K ?s'" "db_same s ?s'" by (rule sess_ok_bib [OF ok, rotated]; simp)+
qed

lemma delete_static_entry_ok:
  assumes laws: "rb_laws ops" and ok: "sess_ok B K s" and p: "bibs s p = Some b" and static: "b_is_static b \<Longrightarrow> p \<in># B"
    and get: "(if rr_addr6_set request then bibdb_get6 (rr_addr6 request) (rr_l4_proto request) s
       else if rr_addr4_set request then bibdb_get4 (rr_addr4 request) (rr_l4_proto request) s else Some (Inl EINVAL, s)) = Some (Inr p, bib_get_ref p s)"
    and match: "rr_addr6_set request \<Longrightarrow> rr_addr4_set request \<Longrightarrow> b_ipv4 b = rr_addr4 request"
  obtains s' where "delete_static_route ops request s = Some (Ok, s')" "sess_ok (B - (if b_is_static b then {#p#} else {#})) K s'"
    "\<And>proto. db_view proto s' = (if proto = b_l4_proto b then drop_sessions (\<lambda>e. se_local4 e = b_ipv4 b) (db_view proto s) else db_view proto s)"
    "node_list s' = node_list s"
proof -
  let ?B = "B - (if b_is_static b then {#p#} else {#})"
  define b1 where "b1 = b\<lparr>b_refcounter := b_refcounter b + 1\<rparr>"
  define s2 where "s2 = (if b_is_static b then s\<lparr>bibs := (bibs s)(p \<mapsto> b\<lparr>b_is_static := False\<rparr>)\<rparr> else bib_get_ref p s)"
  have pos: "b_refcounter b \<ge> 1" using bib_wf_pos [OF sess_ok_wf(1) [OF ok] p] .
  have ok2: "sess_ok (add_mset p ?B) K s2" "db_same s s2"
    using sess_ok_unmark [OF ok p] sess_ok_bib [OF ok bib_only_get_ref refs_ok_get [OF sess_ok_wf(2) [OF ok] p]] static
    by (simp_all add: s2_def)
  have nl: "node_list s2 = node_list s" by (simp add: s2_def bib_get_ref_def)
  obtain b2 where b2: "bibs s2 p = Some b2" "b_l4_proto b2 = b_l4_proto b" "b_ipv4 b2 = b_ipv4 b"
    using p by (cases "b_is_static b") (auto simp: s2_def bib_get_ref_def)
  obtain s3 where s3: "sessiondb_delete_by_bib ops p s2 = Some (Ok, s3)" "sess_ok (add_mset p ?B) K s3"
    "\<And>q. db_view q s3 = (if q = b_l4_proto b2 then drop_sessions (\<lambda>e. se_local4 e = b_ipv4 b2) (db_view q s2) else db_view q s2)"
    "node_list s3 = node_list s2"
    by (rule sessiondb_delete_by_bib_ok [OF laws ok2(1) b2(1)]) (rule that)
  obtain s4 where s4: "bibdb_return ops (Some p) s3 = Some s4" "sess_ok ?B K s4" "db_same s3 s4" "queue_same s3 s4"
    by (rule bibdb_return_tok [OF laws s3(2)])
  have r1: "bibs (bib_get_ref p s) p = Some b1" using p by (simp add: bib_get_ref_def b1_def)
  have "delete_static_route ops request s = Some (Ok, s4)"
    using get r1 match p s3(1) s4(1) bibdb_return_get [OF p pos, of ops]
    by (cases "b_is_static b") (simp_all add: delete_static_route_def s2_def b1_def)
  moreover have "db_view proto s4 = (if proto = b_l4_proto b then drop_sessions (\<lambda>e. se_local4 e = b_ipv4 b) (db_view proto s) else db_view proto s)" for proto
    using s4(3) s3(3) b2(2,3) ok2(2) by (simp add: db_same_def)
  moreover have "node_list s4 = node_list s" using s4(4) s3(4) nl by (simp add: queue_same_def)
  ultimately show ?thesis using that s4(2) by blast
qed

text \<open>Without stored packets and other references, nothing holds an entry whose sessions are gone.\<close>

lemma sess_ok_no_holder:
  assumes ok: "sess_ok B {#} s" and q: "node_list s = []" "p \<notin># B"
    and none: "\<And>proto q e. db_view proto s q = Some e \<Longrightarrow> se_bib e \<noteq> Some p"
  shows "bibs s p = None"
proof -
  have refs: "refs_ok B s" and pq: "pktq_ok [] B (sess_refs s) s" using ok by (simp_all add: sess_ok_def pktq_ok_def)
  have "holders (sessions s) p = {}"
  proof (rule ccontr)
    assume "holders (sessions s) p \<noteq> {}"
    then obtain x e where x: "sessions s x = Some e" "se_bib e = Some p" by (auto simp: holders_def)
    then have "x \<in># sess_refs s" using pktq_ok_live [OF pq, of x] q(1) by (simp add: node_refs_def)
    then obtain proto where "x \<in> db_nodes proto s"
      by (auto simp: sess_refs_def tab_refs_def db_nodes_def sess_get_table_def stable_nodes_def
        intro: that [of L4PROTO_UDP] that [of L4PROTO_TCP] that [of L4PROTO_ICMP])
    then have "db_view proto s x = Some (e\<lparr>se_refcounter := 0\<rparr>)" using sview_Some [OF x(1)] by (simp add: db_view_def)
    then show False using none x(2) by fastforce
  qed
  then have "bib_count s p = 0" using refs q(2) by (simp add: refs_ok_def not_in_iff)
  then show ?thesis using bib_wf_pos [OF refs_ok_wf [OF refs], of p] by (cases "bibs s p") (auto simp: bib_count_def)
qed

lemma db_view_bib:
  assumes ok: "sess_ok B K s" and v: "db_view proto s q = Some e" "se_bib e = Some p" "bibs s p = Some b"
  shows "se_local4 e = b_ipv4 b" "proto = b_l4_proto b"
proof -
  obtain e0 where e0: "sessions s q = Some e0" "e = e0\<lparr>se_refcounter := 0\<rparr>" "q \<in> db_nodes proto s"
    using v(1) by (auto simp: db_view_def restrict_map_def sview_def split: if_splits option.splits)
  have "sess_agrees e0 b" using refs_ok_bib [OF sess_ok_wf(2) [OF ok] e0(1), of p] v(2,3) e0(2) by fastforce
  moreover have "se_l4_proto e0 = proto" using db_nodes_proto(1) [OF ok e0(3) sview_Some [OF e0(1)]] by simp
  ultimately show "se_local4 e = b_ipv4 b" "proto = b_l4_proto b" using e0(2) by (simp_all add: sess_agrees_def)
qed

section \<open>Properties\<close>

text \<open>
  C9: a static BIB entry is added exactly when its IPv4 address is in the pool, nothing of its protocol uses either of
  its addresses, and memory is available. It gets a reference of its own on top of all existing ones, and the
  sessions stay as they were. Otherwise, the error tells the reason and every reference is as before.
\<close>

theorem add_static_route_correct:
  assumes "filter_env_ok env" "sess_ok B K s" "ra_l4_proto request \<noteq> L4PROTO_OTHER"
    "pool4db_contains (pe_devs (fe_pool4 env)) (pe_pool4 (fe_pool4 env)) (ra_l4_proto request) (ra_addr4 request) = Some ours"
  shows "\<exists>status s'. add_static_route env request s = Some (status, s') \<and> db_same s s' \<and>
    (if \<not> ours then status = Err EINVAL \<and> s' = s
     else if conflict request s then status = Err EEXIST \<and> sess_ok B K s'
     else case fe_bib_alloc env (bibs s) of
            None \<Rightarrow> status = Err ENOMEM \<and> s' = s
          | Some p \<Rightarrow> status = Ok \<and> sess_ok (add_mset p B) K s' \<and> bibs s p = None \<and> bibs s' = (bibs s)(p \<mapsto> static_entry request))"
proof (cases ours)
  case False
  then show ?thesis using assms(4) by (simp add: add_static_route_def)
next
  case True
  then have pool: "pool4db_contains (pe_devs (fe_pool4 env)) (pe_pool4 (fe_pool4 env)) (ra_l4_proto request) (ra_addr4 request) = Some True"
    using assms(4) by simp
  show ?thesis by (rule add_static_route_ok [OF assms(1-3) pool]) (use True in simp_all)
qed

theorem add_static_route_correct_witness:
  "\<exists>s'. add_static_route (sample_filter_env L4PROTO_TCP)
      \<lparr>ra_l4_proto = L4PROTO_TCP, ra_addr6 = \<lparr>ta6_l3 = 5, ta6_l4 = 5\<rparr>, ra_addr4 = \<lparr>ta4_l3 = 0xC0000201, ta4_l4 = 1025\<rparr>\<rparr>
      (sample_sdb expired_cb 0) = Some (Ok, s') \<and> sess_ok {#7, 1#} {#} s'"
proof -
  let ?req = "\<lparr>ra_l4_proto = L4PROTO_TCP, ra_addr6 = \<lparr>ta6_l3 = 5, ta6_l4 = 5\<rparr>, ra_addr4 = \<lparr>ta4_l3 = 0xC0000201, ta4_l4 = 1025\<rparr>\<rparr>"
  have "\<not> conflict ?req (sample_sdb expired_cb 0)"
    by (auto simp: conflict_def sample_sdb_def sample_bib_def sample_ta4_def sample_ta6_def split: if_splits)
  moreover have "fe_bib_alloc (sample_filter_env L4PROTO_TCP) (bibs (sample_sdb expired_cb 0)) = Some 7"
    by (simp add: sample_filter_env_def sample_alloc_def sample_sdb_def sample_bib_def)
  ultimately show ?thesis
    using add_static_route_correct [OF sample_filter_env_ok sample_sdb_ok [OF expires_ok_expired_cb, of 0], of ?req L4PROTO_TCP True]
      sample_pool_contains [of L4PROTO_TCP "ra_addr4 ?req"] by auto
qed



end
