(* ===== verification/Tuples.thy ===== *)
theory Tuples
  imports Filtering_Invariant
begin

text \<open>
  Steps 1 and 3 of RFC 6146: the tuple of an incoming packet
  (\<^verbatim>\<open>mod/stateful/determine_incoming_tuple.c\<close>, \<^verbatim>\<open>mod/common/ipv6_hdr_iterator.c\<close>), the tuple of the packet that
  leaves (\<^verbatim>\<open>mod/stateful/compute_outgoing_tuple.c\<close>), and whether that one turns back
  (\<^verbatim>\<open>mod/stateful/handling_hairpinning.c\<close>).
\<close>

section \<open>Extension headers\<close>

text \<open>The pointer of \<^verbatim>\<open>struct hdr_iterator\<close> is an offset into the buffer.\<close>

record hdr_iterator =
  hi_hdr_type :: u8
  hi_data :: nat

definition hdr_iterator_init :: "sk_buff \<Rightarrow> nat \<Rightarrow> hdr_iterator option" where
  "hdr_iterator_init skb main_hdr =
     do { b \<leftarrow> skb_deref skb (main_hdr + 6) 1; Some \<lparr>hi_hdr_type = b ! 0, hi_data = main_hdr + 40\<rparr> }"

text \<open>Whether there was another header to skip (\<^verbatim>\<open>EAGAIN\<close>), and the iterator behind it.\<close>

definition hdr_iterator_next :: "sk_buff \<Rightarrow> hdr_iterator \<Rightarrow> (bool \<times> hdr_iterator) option" where
  "hdr_iterator_next skb iterator =
     (if hi_hdr_type iterator = 0 \<or> hi_hdr_type iterator = 43 \<or> hi_hdr_type iterator = 60
      then do { b \<leftarrow> skb_deref skb (hi_data iterator) 2;
                Some (True, \<lparr>hi_hdr_type = b ! 0, hi_data = hi_data iterator + 8 + 8 * unat (b ! 1)\<rparr>) }
      else if hi_hdr_type iterator = 44
      then do { b \<leftarrow> skb_deref skb (hi_data iterator) 1;
                Some (True, \<lparr>hi_hdr_type = b ! 0, hi_data = hi_data iterator + 8\<rparr>) }
      else Some (False, iterator))"

lemma hdr_iterator_next_bound:
  "hdr_iterator_next skb iterator = Some (True, iterator') \<Longrightarrow> hi_data iterator < skb_len skb \<and> hi_data iterator + 8 \<le> hi_data iterator'"
  by (auto simp: hdr_iterator_next_def skb_deref_def Option.bind_eq_Some_conv split: if_splits)

text \<open>Every header that is skipped was read inside the buffer, so the loop ends.\<close>

function hdr_iterator_last :: "sk_buff \<Rightarrow> hdr_iterator \<Rightarrow> hdr_iterator option" where
  "hdr_iterator_last skb iterator =
     (case hdr_iterator_next skb iterator of
        None \<Rightarrow> None
      | Some (again, iterator') \<Rightarrow> if again then hdr_iterator_last skb iterator' else Some iterator')"
  by pat_completeness auto
termination
  by (relation "measure (\<lambda>(skb, iterator). skb_len skb - hi_data iterator)") (auto dest!: hdr_iterator_next_bound)

declare hdr_iterator_last.simps [simp del]

function hdr_iterator_find_loop :: "sk_buff \<Rightarrow> u8 \<Rightarrow> hdr_iterator \<Rightarrow> nat option option" where
  "hdr_iterator_find_loop skb hdr_id iterator =
     (if hi_hdr_type iterator = hdr_id then Some (Some (hi_data iterator))
      else (case hdr_iterator_next skb iterator of
              None \<Rightarrow> None
            | Some (again, iterator') \<Rightarrow> if again then hdr_iterator_find_loop skb hdr_id iterator' else Some None))"
  by pat_completeness auto
termination
  by (relation "measure (\<lambda>(skb, hdr_id, iterator). skb_len skb - hi_data iterator)") (auto dest!: hdr_iterator_next_bound)

declare hdr_iterator_find_loop.simps [simp del]

definition hdr_iterator_find :: "sk_buff \<Rightarrow> nat \<Rightarrow> u8 \<Rightarrow> nat option option" where
  "hdr_iterator_find skb ip6_hdr hdr_id = do { iterator \<leftarrow> hdr_iterator_init skb ip6_hdr; hdr_iterator_find_loop skb hdr_id iterator }"

section \<open>The incoming tuple\<close>

definition tuple4_of :: "l4_protocol \<Rightarrow> in_addr \<Rightarrow> u16 \<Rightarrow> in_addr \<Rightarrow> u16 \<Rightarrow> tuple" where
  "tuple4_of proto saddr sport daddr dport =
     \<lparr>t_src = Addr4 \<lparr>ta4_l3 = saddr, ta4_l4 = sport\<rparr>, t_dst = Addr4 \<lparr>ta4_l3 = daddr, ta4_l4 = dport\<rparr>,
      t_l3_proto = L3PROTO_IPV4, t_l4_proto = proto\<rparr>"

definition tuple6_of :: "l4_protocol \<Rightarrow> in6_addr \<Rightarrow> u16 \<Rightarrow> in6_addr \<Rightarrow> u16 \<Rightarrow> tuple" where
  "tuple6_of proto saddr sport daddr dport =
     \<lparr>t_src = Addr6 \<lparr>ta6_l3 = saddr, ta6_l4 = sport\<rparr>, t_dst = Addr6 \<lparr>ta6_l3 = daddr, ta6_l4 = dport\<rparr>,
      t_l3_proto = L3PROTO_IPV6, t_l4_proto = proto\<rparr>"

definition ipv4_udp :: "packet \<Rightarrow> tuple option" where
  "ipv4_udp pkt = do { ip \<leftarrow> pkt_ip4_hdr pkt; udp \<leftarrow> pkt_udp_hdr pkt;
     Some (tuple4_of L4PROTO_UDP (ip4_saddr ip) (uh_source udp) (ip4_daddr ip) (uh_dest udp)) }"

definition ipv4_tcp :: "packet \<Rightarrow> tuple option" where
  "ipv4_tcp pkt = do { ip \<leftarrow> pkt_ip4_hdr pkt; tcp \<leftarrow> pkt_tcp_hdr pkt;
     Some (tuple4_of L4PROTO_TCP (ip4_saddr ip) (th_source tcp) (ip4_daddr ip) (th_dest tcp)) }"

definition ipv4_icmp_info :: "packet \<Rightarrow> tuple option" where
  "ipv4_icmp_info pkt = do { ip \<leftarrow> pkt_ip4_hdr pkt; icmp \<leftarrow> pkt_icmp4_hdr pkt;
     Some (tuple4_of L4PROTO_ICMP (ip4_saddr ip) (ih_un0 icmp) (ip4_daddr ip) (ih_un0 icmp)) }"

text \<open>
  The transport header of an inner packet is read field by field: the two ports, or the type and then
  the identifier of an ICMP message.
\<close>

definition inner_ports :: "sk_buff \<Rightarrow> nat \<Rightarrow> (u16 \<times> u16) option" where
  "inner_ports skb offset = do { b \<leftarrow> skb_deref skb offset 4; Some (be16 (b ! 0) (b ! 1), be16 (b ! 2) (b ! 3)) }"

definition inner_icmp_type :: "sk_buff \<Rightarrow> nat \<Rightarrow> u8 option" where
  "inner_icmp_type skb offset = do { b \<leftarrow> skb_deref skb offset 1; Some (b ! 0) }"

definition inner_icmp_id :: "sk_buff \<Rightarrow> nat \<Rightarrow> u16 option" where
  "inner_icmp_id skb offset = do { b \<leftarrow> skb_deref skb (offset + 4) 2; Some (be16 (b ! 0) (b ! 1)) }"

definition unknown_inner_proto :: verdict where
  "unknown_inner_proto = VERDICT_ACCEPT"

definition ipv4_icmp_err :: "packet \<Rightarrow> 'a sess_db_scheme \<Rightarrow> ((verdict + tuple) \<times> 'a sess_db_scheme) option" where
  "ipv4_icmp_err pkt s =
     (let skb = pkt_skb pkt; inner = pkt_transport_offset pkt + 8
      in do { b \<leftarrow> skb_deref skb inner 20;
              let ip = decode_iphdr b; l4 = inner + unat (ip4_ihl ip) * 4
              in if ip4_protocol ip = 17 \<or> ip4_protocol ip = 6
                 then do { (source, dest) \<leftarrow> inner_ports skb l4;
                           Some (Inr (tuple4_of (if ip4_protocol ip = 17 then L4PROTO_UDP else L4PROTO_TCP)
                                        (ip4_daddr ip) dest (ip4_saddr ip) source), s) }
                 else if ip4_protocol ip = 1
                 then do { type \<leftarrow> inner_icmp_type skb l4;
                           (if is_icmp4_error type then Some (Inl VERDICT_DROP, count_stat pkt IPSTATS_MIB_INHDRERRORS s)
                            else do { ident \<leftarrow> inner_icmp_id skb l4;
                                      Some (Inr (tuple4_of L4PROTO_ICMP (ip4_daddr ip) ident (ip4_saddr ip) ident), s) }) }
                 else Some (Inl unknown_inner_proto, s) })"

definition ipv4_icmp :: "packet \<Rightarrow> 'a sess_db_scheme \<Rightarrow> ((verdict + tuple) \<times> 'a sess_db_scheme) option" where
  "ipv4_icmp pkt s =
     do { icmp \<leftarrow> pkt_icmp4_hdr pkt;
          (if is_icmp4_info (ih_type icmp) then do { tuple \<leftarrow> ipv4_icmp_info pkt; Some (Inr tuple, s) }
           else if is_icmp4_error (ih_type icmp) then ipv4_icmp_err pkt s
           else Some (Inl VERDICT_ACCEPT, s)) }"

definition ipv6_udp :: "packet \<Rightarrow> tuple option" where
  "ipv6_udp pkt = do { ip \<leftarrow> pkt_ip6_hdr pkt; udp \<leftarrow> pkt_udp_hdr pkt;
     Some (tuple6_of L4PROTO_UDP (ip6_saddr ip) (uh_source udp) (ip6_daddr ip) (uh_dest udp)) }"

definition ipv6_tcp :: "packet \<Rightarrow> tuple option" where
  "ipv6_tcp pkt = do { ip \<leftarrow> pkt_ip6_hdr pkt; tcp \<leftarrow> pkt_tcp_hdr pkt;
     Some (tuple6_of L4PROTO_TCP (ip6_saddr ip) (th_source tcp) (ip6_daddr ip) (th_dest tcp)) }"

definition ipv6_icmp_info :: "packet \<Rightarrow> tuple option" where
  "ipv6_icmp_info pkt = do { icmp \<leftarrow> pkt_icmp6_hdr pkt; ip \<leftarrow> pkt_ip6_hdr pkt;
     Some (tuple6_of L4PROTO_ICMP (ip6_saddr ip) (ih_un0 icmp) (ip6_daddr ip) (ih_un0 icmp)) }"

definition ipv6_icmp_err :: "packet \<Rightarrow> 'a sess_db_scheme \<Rightarrow> ((verdict + tuple) \<times> 'a sess_db_scheme) option" where
  "ipv6_icmp_err pkt s =
     (let skb = pkt_skb pkt; inner = pkt_transport_offset pkt + 8
      in do { iterator \<leftarrow> hdr_iterator_init skb inner;
              b \<leftarrow> skb_deref skb inner 40;
              iterator \<leftarrow> hdr_iterator_last skb iterator;
              let ip = decode_ipv6hdr b; l4 = hi_data iterator
              in if hi_hdr_type iterator = 17 \<or> hi_hdr_type iterator = 6
                 then do { (source, dest) \<leftarrow> inner_ports skb l4;
                           Some (Inr (tuple6_of (if hi_hdr_type iterator = 17 then L4PROTO_UDP else L4PROTO_TCP)
                                        (ip6_daddr ip) dest (ip6_saddr ip) source), s) }
                 else if hi_hdr_type iterator = 58
                 then do { type \<leftarrow> inner_icmp_type skb l4;
                           (if is_icmp6_error type then Some (Inl VERDICT_DROP, count_stat pkt IPSTATS_MIB_INHDRERRORS s)
                            else do { ident \<leftarrow> inner_icmp_id skb l4;
                                      Some (Inr (tuple6_of L4PROTO_ICMP (ip6_daddr ip) ident (ip6_saddr ip) ident), s) }) }
                 else Some (Inl unknown_inner_proto, s) })"

definition ipv6_icmp :: "packet \<Rightarrow> 'a sess_db_scheme \<Rightarrow> ((verdict + tuple) \<times> 'a sess_db_scheme) option" where
  "ipv6_icmp pkt s =
     do { icmp \<leftarrow> pkt_icmp6_hdr pkt;
          (if is_icmp6_info (ih_type icmp) then do { tuple \<leftarrow> ipv6_icmp_info pkt; Some (Inr tuple, s) }
           else if is_icmp6_error (ih_type icmp) then ipv6_icmp_err pkt s
           else Some (Inl VERDICT_ACCEPT, s)) }"

text \<open>The tuple is meaningful with the verdict \<^verbatim>\<open>VERDICT_CONTINUE\<close> only.\<close>

definition determine_in_tuple :: "filter_env \<Rightarrow> packet \<Rightarrow> 'a sess_db_scheme \<Rightarrow> ((verdict + tuple) \<times> 'a sess_db_scheme) option" where
  "determine_in_tuple env pkt s =
     (case pkt_l3_proto pkt of
        L3PROTO_IPV4 \<Rightarrow>
          (case pkt_l4_proto pkt of
             L4PROTO_UDP \<Rightarrow> do { tuple \<leftarrow> ipv4_udp pkt; Some (Inr tuple, s) }
           | L4PROTO_TCP \<Rightarrow> do { tuple \<leftarrow> ipv4_tcp pkt; Some (Inr tuple, s) }
           | L4PROTO_ICMP \<Rightarrow> ipv4_icmp pkt s
           | L4PROTO_OTHER \<Rightarrow> Some (Inl VERDICT_ACCEPT, s))
      | L3PROTO_IPV6 \<Rightarrow>
          (case pkt_l4_proto pkt of
             L4PROTO_UDP \<Rightarrow> do { tuple \<leftarrow> ipv6_udp pkt; Some (Inr tuple, s) }
           | L4PROTO_TCP \<Rightarrow> do { tuple \<leftarrow> ipv6_tcp pkt; Some (Inr tuple, s) }
           | L4PROTO_ICMP \<Rightarrow> ipv6_icmp pkt s
           | L4PROTO_OTHER \<Rightarrow>
               do { ip \<leftarrow> pkt_ip6_hdr pkt;
                    ours \<leftarrow> pool6_contains (fe_pool6 env) (Some (ip6_daddr ip));
                    Some (if \<not> ours then (Inl VERDICT_ACCEPT, s)
                          else (Inl VERDICT_DROP,
                                count_stat pkt IPSTATS_MIB_INUNKNOWNPROTOS
                                  (emit (icmp64_send (ev_route4_input (fe_sess env)) pkt ICMPERR_PROTO_UNREACHABLE 0) s))) }))"

section \<open>The outgoing tuple\<close>

definition compute_out_tuple :: "filter_env \<Rightarrow> tuple \<Rightarrow> 'a session_db_scheme \<Rightarrow> ((verdict + tuple) \<times> 'a session_db_scheme) option" where
  "compute_out_tuple env tuple s =
     do { (r, s1) \<leftarrow> sessiondb_get (fe_sess env) tuple None None s;
          (case r of
             Inl error \<Rightarrow> Some (Inl VERDICT_ACCEPT, s1)
           | Inr p \<Rightarrow>
               do { session \<leftarrow> sessions s1 p;
                    s2 \<leftarrow> session_return (fe_ops env) p s1;
                    Some (Inr (case t_l3_proto tuple of
                                 L3PROTO_IPV6 \<Rightarrow> \<lparr>t_src = Addr4 (se_local4 session), t_dst = Addr4 (se_remote4 session),
                                                  t_l3_proto = L3PROTO_IPV4, t_l4_proto = t_l4_proto tuple\<rparr>
                               | L3PROTO_IPV4 \<Rightarrow> \<lparr>t_src = Addr6 (se_local6 session), t_dst = Addr6 (se_remote6 session),
                                                  t_l3_proto = L3PROTO_IPV6, t_l4_proto = t_l4_proto tuple\<rparr>), s2) }) }"

definition is_hairpin :: "filter_env \<Rightarrow> tuple \<Rightarrow> bool option" where
  "is_hairpin env tuple =
     (if t_l3_proto tuple = L3PROTO_IPV6 then Some False
      else pool4db_contains (pe_devs (fe_pool4 env)) (pe_pool4 (fe_pool4 env)) (t_l4_proto tuple) (addr4 (t_dst tuple)))"

section \<open>Lemmas\<close>

text \<open>
  Once step 1 has a tuple, the headers that filtering looks at have been read: what it expects of its input holds.
\<close>

lemma skb_deref_before: "skb_deref skb b n = Some bs \<Longrightarrow> a + m \<le> b \<Longrightarrow> skb_deref skb a m \<noteq> None"
  by (auto simp: skb_deref_def split: if_splits)

lemma determine_in_tuple_ready:
  assumes r: "determine_in_tuple env pkt s = Some (Inr tuple, s')"
    and layout: "pkt_l3_proto pkt = L3PROTO_IPV6 \<Longrightarrow> sk_network_offset (pkt_skb pkt) + 40 \<le> pkt_transport_offset pkt"
  shows "s' = s" "pkt_ready pkt tuple"
proof -
  note defs = determine_in_tuple_def ipv4_udp_def ipv4_tcp_def ipv4_icmp_def ipv4_icmp_info_def ipv4_icmp_err_def ipv6_udp_def ipv6_tcp_def
    ipv6_icmp_def ipv6_icmp_info_def ipv6_icmp_err_def Let_def
  show "s' = s"
    using r by (cases "pkt_l3_proto pkt"; cases "pkt_l4_proto pkt")
      (auto simp: defs Option.bind_eq_Some_conv split: if_splits prod.splits)
  have ip6: "pkt_ip6_hdr pkt \<noteq> None" if "pkt_l3_proto pkt = L3PROTO_IPV6" "pkt_icmp6_hdr pkt = Some h" for h
    using that layout skb_deref_before by (fastforce simp: pkt_ip6_hdr_def pkt_icmp6_hdr_def)
  have "t_l3_proto tuple = pkt_l3_proto pkt \<and> icmp_error pkt \<noteq> None \<and> (pkt_l4_proto pkt = L4PROTO_TCP \<longrightarrow> pkt_tcp_hdr pkt \<noteq> None)"
    using r by (cases "pkt_l3_proto pkt"; cases "pkt_l4_proto pkt")
      (auto simp: defs icmp_error_def pkt_is_icmp4_error_def pkt_is_icmp6_error_def tuple4_of_def tuple6_of_def
        Option.bind_eq_Some_conv split: if_splits prod.splits)
  moreover have "icmp_error pkt = Some False \<longrightarrow> t_l4_proto tuple = pkt_l4_proto pkt"
    using r by (cases "pkt_l3_proto pkt"; cases "pkt_l4_proto pkt")
      (auto simp: defs icmp_error_def pkt_is_icmp4_error_def pkt_is_icmp6_error_def tuple4_of_def tuple6_of_def
        Option.bind_eq_Some_conv split: if_splits prod.splits)
  moreover have "pkt_l3_proto pkt = L3PROTO_IPV6 \<longrightarrow> pkt_ip6_hdr pkt \<noteq> None"
    using r ip6 by (cases "pkt_l4_proto pkt") (auto simp: defs Option.bind_eq_Some_conv split: if_splits prod.splits)
  ultimately show "pkt_ready pkt tuple" by (simp add: pkt_ready_def)
qed

text \<open>Step 3 finds the session of the tuple, whose other side is the outgoing tuple, and gives its reference back.\<close>

definition other_side :: "tuple \<Rightarrow> session_entry \<Rightarrow> tuple" where
  "other_side tuple session =
     (case t_l3_proto tuple of
        L3PROTO_IPV6 \<Rightarrow> \<lparr>t_src = Addr4 (se_local4 session), t_dst = Addr4 (se_remote4 session),
                         t_l3_proto = L3PROTO_IPV4, t_l4_proto = t_l4_proto tuple\<rparr>
      | L3PROTO_IPV4 \<Rightarrow> \<lparr>t_src = Addr6 (se_local6 session), t_dst = Addr6 (se_remote6 session),
                         t_l3_proto = L3PROTO_IPV6, t_l4_proto = t_l4_proto tuple\<rparr>)"

lemma other_side_refcounter [simp]: "other_side tuple (e\<lparr>se_refcounter := n\<rparr>) = other_side tuple e"
  by (simp add: other_side_def cong: l3_protocol.case_cong)

lemma compute_out_tuple_ok:
  assumes laws: "rb_laws (fe_ops env)" and ok: "sess_ok B K s"
  obtains (none) "compute_out_tuple env tuple s = Some (Inl VERDICT_ACCEPT, s)" "unmatched tuple s"
    | (out) p e s' where "db_view (t_l4_proto tuple) s p = Some e" "db_matches tuple e"
      "compute_out_tuple env tuple s = Some (Inr (other_side tuple e), s')" "sess_ok B K s'" "db_same s s'"
proof (cases "sess_get_table (t_l4_proto tuple) s")
  case None
  then show thesis using none by (simp add: compute_out_tuple_def sessiondb_get_def unmatched_def db_view_def db_nodes_def restrict_map_def)
next
  case (Some t)
  let ?proto = "t_l4_proto tuple"
  have st: "stable_ok ?proto (sview s) t" and pq: "pktq_ok [] B (sess_refs s + K) s" and tim: "pktq_timer_ok s"
    using ok Some by (simp_all add: sess_ok_def)
  obtain r where r: "(case t_l3_proto tuple of
      L3PROTO_IPV6 \<Rightarrow> get_by_ipv6 (sessions s) t tuple
    | L3PROTO_IPV4 \<Rightarrow> get_by_ipv4 (sessions s) t tuple) = Some r"
    "\<And>p. r = Some p \<longleftrightarrow> p \<in> stable_nodes t \<and> sess_matches (sview s) tuple p"
    using session_search [OF st] by blast
  have put: "sess_put_table ?proto t s1 = s1" if "sess_get_table ?proto s1 = Some t" for s1
    using that by (cases ?proto) (auto simp: sess_put_table_def sess_get_table_def)
  show thesis
  proof (cases r)
    case None
    then have "unmatched tuple s"
      using r(2) Some by (fastforce simp: unmatched_def db_view_def db_nodes_def restrict_map_def sess_matches_iff split: if_splits)
    then show thesis using none r(1) None Some put by (simp add: compute_out_tuple_def sessiondb_get_def sessiontable_get_def)
  next
    case (Some p)
    then have p: "p \<in> stable_nodes t" "sess_matches (sview s) tuple p" using r(2) by auto
    obtain e where e: "sessions s p = Some e" using p(2) by (auto simp: sess_matches_iff sview_def split: option.splits)
    obtain s1 where s1: "session_get p s = Some s1" "pktq_ok [] B (add_mset p (sess_refs s + K)) s1" "ref_only s s1" "sview s1 = sview s" "bibs s1 = bibs s"
      by (rule session_get_token [OF pq e])
    have e1: "sessions s1 p = Some (e\<lparr>se_refcounter := se_refcounter e + 1\<rparr>)" using s1(1) e by (auto simp: session_get_def)
    note tabs = frame_tables [OF ref_only_frame [OF s1(3)]]
    have v: "sview s1 q = sview s q \<or> sview s1 q = None" for q using s1(4) by simp
    have pq1: "pktq_ok [] B (sess_refs s + add_mset p K) s1" and tim1: "pktq_timer_ok s1"
      using s1(2) tim queue_same_timer [OF ref_only_queue [OF s1(3)]] by simp_all
    note ok1 = sess_ok_shrink [OF ok pq1 ref_only_frame [OF s1(3)] tim1 v]
    obtain s2 where s2: "session_return (fe_ops env) p s1 = Some s2" "sess_ok B K s2" "db_same s1 s2" "queue_same s1 s2"
      by (rule session_return_tok [OF laws ok1(1)])
    have "db_same s s1" using ok1(2) s1(3) by (simp add: db_same_def ref_only_def)
    then have same: "db_same s s2" using db_same_trans s2(3) by blast
    have "sess_get_table ?proto s1 = Some t" using \<open>sess_get_table ?proto s = Some t\<close> tabs(1) by simp
    then have "sessiondb_get (fe_sess env) tuple None None s = Some (Inr p, s1)"
      using r(1) Some s1(1) put \<open>sess_get_table ?proto s = Some t\<close> by (simp add: sessiondb_get_def sessiontable_get_def)
    then have run: "compute_out_tuple env tuple s = Some (Inr (other_side tuple (e\<lparr>se_refcounter := 0\<rparr>)), s2)"
      using e1 s2(1) by (simp add: compute_out_tuple_def other_side_def cong: l3_protocol.case_cong)
    have view: "db_view ?proto s p = Some (e\<lparr>se_refcounter := 0\<rparr>)" "db_matches tuple (e\<lparr>se_refcounter := 0\<rparr>)"
      using p sview_Some [OF e] \<open>sess_get_table ?proto s = Some t\<close> by (auto simp: db_view_def db_nodes_def sess_matches_iff)
    show thesis by (rule out [OF view run s2(2) same])
  qed
qed

end
