(* ===== verification/Stateful.thy ===== *)
theory Stateful
  imports Static_Routes Tuples
begin

text \<open>
  The stateful translator as a whole: what one packet does, the TCP state machine of RFC 6146 it
  follows, and the states that packets, timers and the administrator can lead to.
\<close>

section \<open>The state machine of RFC 6146\<close>

text \<open>
  The moves of section 3.5.2.2, by the side the packet comes from and the flags it carries. Any other packet
  leaves the state alone.
\<close>

inductive rfc6146 :: "tcp_state \<Rightarrow> l3_protocol \<Rightarrow> tcphdr \<Rightarrow> tcp_state \<Rightarrow> bool" where
  v4_init: "th_syn h \<Longrightarrow> rfc6146 V4_INIT L3PROTO_IPV6 h ESTABLISHED"
| v6_init: "th_syn h \<Longrightarrow> rfc6146 V6_INIT L3PROTO_IPV4 h ESTABLISHED"
| v4_fin: "th_fin h \<Longrightarrow> rfc6146 ESTABLISHED L3PROTO_IPV4 h V4_FIN_RCV"
| v6_fin: "th_fin h \<Longrightarrow> rfc6146 ESTABLISHED L3PROTO_IPV6 h V6_FIN_RCV"
| rst: "\<not> th_fin h \<Longrightarrow> th_rst h \<Longrightarrow> rfc6146 ESTABLISHED l3 h TRANS"
| v6_fin_too: "th_fin h \<Longrightarrow> rfc6146 V4_FIN_RCV L3PROTO_IPV6 h V4_FIN_V6_FIN_RCV"
| v4_fin_too: "th_fin h \<Longrightarrow> rfc6146 V6_FIN_RCV L3PROTO_IPV4 h V4_FIN_V6_FIN_RCV"
| revive: "\<not> th_rst h \<Longrightarrow> rfc6146 TRANS l3 h ESTABLISHED"

inductive_simps rfc6146_simps:
  "rfc6146 V4_INIT l3 h st" "rfc6146 V6_INIT l3 h st" "rfc6146 ESTABLISHED l3 h st" "rfc6146 V4_FIN_RCV l3 h st"
  "rfc6146 V6_FIN_RCV l3 h st" "rfc6146 V4_FIN_V6_FIN_RCV l3 h st" "rfc6146 TRANS l3 h st" "rfc6146 CLOSED l3 h st"

text \<open>
  The lifetime a packet renews, if it renews any: connections that are being opened or are half dead live for the
  transitory time, the others for the established one.
\<close>

definition rfc6146_lifetime :: "tcp_state \<Rightarrow> l3_protocol \<Rightarrow> tcphdr \<Rightarrow> expirer option" where
  "rfc6146_lifetime st l3 h =
     (case st of
        V4_INIT \<Rightarrow> if l3 = L3PROTO_IPV6 \<and> th_syn h then Some Est_timer else None
      | V6_INIT \<Rightarrow> if th_syn h then Some (if l3 = L3PROTO_IPV4 then Est_timer else Trans_timer) else None
      | ESTABLISHED \<Rightarrow> if th_fin h then None else Some (if th_rst h then Trans_timer else Est_timer)
      | V4_FIN_RCV \<Rightarrow> Some (if l3 = L3PROTO_IPV6 \<and> th_fin h then Trans_timer else Est_timer)
      | V6_FIN_RCV \<Rightarrow> Some (if l3 = L3PROTO_IPV4 \<and> th_fin h then Trans_timer else Est_timer)
      | V4_FIN_V6_FIN_RCV \<Rightarrow> None
      | TRANS \<Rightarrow> if th_rst h then None else Some Est_timer
      | CLOSED \<Rightarrow> None)"

definition rfc6146_next :: "tcp_state \<Rightarrow> l3_protocol \<Rightarrow> tcphdr \<Rightarrow> tcp_state \<Rightarrow> bool" where
  "rfc6146_next st l3 h st' \<longleftrightarrow> rfc6146 st l3 h st' \<or> st' = st \<and> (\<nexists>st2. rfc6146 st l3 h st2)"

lemma tcp_machine_rfc6146:
  assumes hdr: "pkt_tcp_hdr pkt = Some h" and st: "se_state e \<noteq> CLOSED"
    and r: "tcp_state_machine now (Some pkt) e = Some (e1, f)"
  shows "rfc6146_next (se_state e) (pkt_l3_proto pkt) h (se_state e1)" "fate_target f = rfc6146_lifetime (se_state e) (pkt_l3_proto pkt) h"
    "e1 = e\<lparr>se_state := se_state e1\<rparr>" "f = FATE_PRESERVE \<longleftrightarrow> fate_target f = None"
proof -
  show "rfc6146_next (se_state e) (pkt_l3_proto pkt) h (se_state e1)"
    using r st by (cases "se_state e"; cases "pkt_l3_proto pkt")
      (auto simp: tcp_state_defs hdr rfc6146_next_def rfc6146_simps split: if_splits)
  show "fate_target f = rfc6146_lifetime (se_state e) (pkt_l3_proto pkt) h"
    using r st by (cases "se_state e"; cases "pkt_l3_proto pkt")
      (auto simp: tcp_state_defs hdr rfc6146_lifetime_def fate_target_def split: if_splits)
  show "e1 = e\<lparr>se_state := se_state e1\<rparr>"
    using r by (cases "se_state e"; cases "pkt_l3_proto pkt") (auto simp: tcp_state_defs hdr split: if_splits)
  show "f = FATE_PRESERVE \<longleftrightarrow> fate_target f = None"
    using r st by (cases "se_state e"; cases "pkt_l3_proto pkt") (auto simp: tcp_state_defs hdr fate_target_def split: if_splits)
qed

text \<open>A step of the abstract machine on one session: the state moves, and the renewed lifetime starts now.\<close>

definition rfc6146_step :: "l3_protocol \<Rightarrow> tcphdr \<Rightarrow> u64 \<Rightarrow> session_entry \<Rightarrow> session_entry \<Rightarrow> bool" where
  "rfc6146_step l3 h now e e' \<longleftrightarrow>
     (\<exists>st. rfc6146_next (se_state e) l3 h st \<and>
        e' = (case rfc6146_lifetime (se_state e) l3 h of
                None \<Rightarrow> e\<lparr>se_state := st\<rparr>
              | Some x \<Rightarrow> e\<lparr>se_state := st, se_update_time := now, se_expirer := Some x\<rparr>))"

lemma stepped_rfc6146:
  assumes ok: "sess_ok B K s" and hdr: "pkt_tcp_hdr pkt = Some h" and step: "stepped tuple pkt s s'"
  obtains p e e' where "db_frame p s s'" "db_view L4PROTO_TCP s p = Some e" "db_matches tuple e" "db_view L4PROTO_TCP s' p = Some e'"
    "rfc6146_step (pkt_l3_proto pkt) h (jiffies s) e e'"
proof -
  obtain p e e1 f where a: "db_frame p s s'" "db_view L4PROTO_TCP s p = Some e" "db_matches tuple e"
    "tcp_state_machine (jiffies s) (Some pkt) e = Some (e1, f)" "f \<noteq> FATE_RM" "db_view L4PROTO_TCP s' p = Some (fated f (jiffies s) e1)"
    using step by (auto simp: stepped_def)
  obtain x where x: "placed x e" by (rule sess_ok_placed [OF ok a(2)])
  have n: "p \<in> db_nodes L4PROTO_TCP s" "sview s p = Some e" using a(2) by (auto simp: db_view_def restrict_map_def split: if_splits)
  have ref: "se_refcounter e = 0" using n(2) by (auto simp: sview_def)
  have "se_state e \<noteq> CLOSED" using x db_nodes_proto(1) [OF ok n] by (simp add: placed_def)
  note m = tcp_machine_rfc6146 [OF hdr this a(4)]
  have "se_expirer e1 = se_expirer e" "se_update_time e1 = se_update_time e" "se_refcounter e1 = 0"
    using ref by (subst m(3), simp)+
  then have "fated f (jiffies s) e1 = (case fate_target f of
      None \<Rightarrow> e1 | Some x \<Rightarrow> e1\<lparr>se_update_time := jiffies s, se_expirer := Some x\<rparr>)"
    using m(4) by (cases "fate_target f") (auto simp: fated_def)
  also have "\<dots> = (case rfc6146_lifetime (se_state e) (pkt_l3_proto pkt) h of
      None \<Rightarrow> e\<lparr>se_state := se_state e1\<rparr> | Some x \<Rightarrow> e\<lparr>se_state := se_state e1, se_update_time := jiffies s, se_expirer := Some x\<rparr>)"
    unfolding m(2) by (subst (1 2) m(3)) (simp split: option.split)
  finally have "rfc6146_step (pkt_l3_proto pkt) h (jiffies s) e (fated f (jiffies s) e1)"
    using m(1) by (auto simp: rfc6146_step_def)
  then show ?thesis using that a(1,2,3,6) by blast
qed

section \<open>One packet\<close>

lemma db_unique:
  assumes ok: "sess_ok B K s" and p: "db_view (t_l4_proto tuple) s p = Some e" "db_matches tuple e"
    and q: "db_view (t_l4_proto tuple) s q = Some e'" "db_matches tuple e'"
  shows "p = q"
proof -
  obtain t where t: "sess_get_table (t_l4_proto tuple) s = Some t" "p \<in> stable_nodes t" "q \<in> stable_nodes t" "sview s p = Some e" "sview s q = Some e'"
    using p(1) q(1) by (auto simp: db_view_def db_nodes_def restrict_map_def split: if_splits option.splits)
  have "stable_ok (t_l4_proto tuple) (sview s) t" using ok t(1) by (simp add: sess_ok_def)
  then obtain r where "\<And>x. r = Some x \<longleftrightarrow> x \<in> stable_nodes t \<and> sess_matches (sview s) tuple x"
    by (rule session_search [where tuple = tuple]) blast
  from this [of p] this [of q] show ?thesis using t p(2) q(2) by (auto simp: sess_matches_iff)
qed

lemma filter_effect_frame:
  assumes "filter_effect env pkt tuple v s s'"
  obtains p where "db_frame p s s'"
proof -
  have same: "db_same s s' \<Longrightarrow> db_frame p s s'" for p by (rule db_same_frame)
  have "\<exists>p. db_frame p s s'"
    using assms by (cases "t_l4_proto tuple"; cases v)
      (auto simp: filter_effect_def tcp_effect_def simple_effect_def refreshed_def stepped_def opened_def split: if_splits intro: same)
  then show ?thesis using that by blast
qed

lemma db_view_known:
  assumes ok: "sess_ok B K s" and v: "db_view (t_l4_proto tuple) s p = Some e" "db_matches tuple e"
  obtains x b where "se_bib e = Some x" "bibs s x = Some b" "b_l4_proto b = t_l4_proto tuple" "b_ipv6 b = se_remote6 e" "b_ipv4 b = se_local4 e"
    "bib_matches tuple b"
proof -
  obtain e0 where e0: "sessions s p = Some e0" "e = e0\<lparr>se_refcounter := 0\<rparr>" "p \<in> db_nodes (t_l4_proto tuple) s"
    using v(1) by (auto simp: db_view_def restrict_map_def sview_def split: if_splits option.splits)
  note n = db_nodes_proto [OF ok e0(3) sview_Some [OF e0(1)]]
  then obtain x where x: "se_bib e0 = Some x" by auto
  obtain b where b: "bibs s x = Some b" "sess_agrees e0 b" by (rule refs_ok_bib [OF sess_ok_wf(2) [OF ok] e0(1) x])
  have "bib_matches tuple b"
    using b(2) n(1) v(2) e0(2) by (cases "t_l3_proto tuple") (simp_all add: bib_matches_def sess_agrees_def db_matches_def)
  then show ?thesis using that [of x b] x b n(1) e0(2) by (simp add: sess_agrees_def)
qed

text \<open>A TCP packet from IPv4 with the given flags, and its tuple.\<close>

definition sample_segment :: "u8 \<Rightarrow> packet" where
  "sample_segment flags = sample_packet\<lparr>pkt_skb := sample_skb\<lparr>sk_data := replicate 33 0 @ flags # replicate 6 0, sk_headlen := 40\<rparr>,
     pkt_transport_offset := 20, pkt_payload_offset := 40\<rparr>"

definition sample_segment_tuple :: "u32 \<Rightarrow> tuple" where
  "sample_segment_tuple a = \<lparr>t_src = Addr4 \<lparr>ta4_l3 = a, ta4_l4 = 80\<rparr>, t_dst = Addr4 sample_ta4, t_l3_proto = L3PROTO_IPV4, t_l4_proto = L4PROTO_TCP\<rparr>"

lemma sample_segment_hdr:
  obtains h where "pkt_tcp_hdr (sample_segment flags) = Some h" "th_flags h = flags"
proof -
  have "\<exists>h. pkt_tcp_hdr (sample_segment flags) = Some h \<and> th_flags h = flags"
    by (simp add: pkt_tcp_hdr_def sample_segment_def skb_deref_def skb_len_def decode_tcphdr_def sample_skb_def nth_append)
  then show ?thesis using that by blast
qed

lemma sample_segment_ready:
  "pkt_ready (sample_segment flags) (sample_segment_tuple a)" "translatable (sample_filter_env L4PROTO_TCP) (sample_segment flags) (sample_segment_tuple a)"
  "pkt_l4_proto (sample_segment flags) = L4PROTO_TCP" "pkt_l3_proto (sample_segment flags) = L3PROTO_IPV4"
proof -
  show p: "pkt_l4_proto (sample_segment flags) = L4PROTO_TCP" "pkt_l3_proto (sample_segment flags) = L3PROTO_IPV4"
    by (simp_all add: sample_segment_def sample_packet_def)
  obtain h where "pkt_tcp_hdr (sample_segment flags) = Some h" by (rule sample_segment_hdr)
  then show "pkt_ready (sample_segment flags) (sample_segment_tuple a)"
    using p by (simp add: pkt_ready_def sample_segment_tuple_def icmp_error_def pkt_is_icmp4_error_def)
  show "translatable (sample_filter_env L4PROTO_TCP) (sample_segment flags) (sample_segment_tuple a)"
    using p sample_pool_contains [of L4PROTO_TCP sample_ta4] by (simp add: translatable_def sample_segment_tuple_def sample_ta4_def)
qed

lemma sample_session_view:
  "db_view L4PROTO_TCP (sample_sdb expired_cb 0) q = (if q = 5 then Some (sample_est_session\<lparr>se_refcounter := 0\<rparr>) else None)"
  by (simp add: db_view_def db_nodes_def sess_get_table_def sample_sdb_def sview_def sample_tcp_table_def stable_nodes_def restrict_map_def)

lemma sample_matches: "db_matches (sample_segment_tuple a) sample_est_session \<longleftrightarrow> a = 9"
  by (auto simp: db_matches_def sample_segment_tuple_def sample_est_session_def)

lemma sample_known: "known (sample_segment_tuple a) (sample_sdb expired_cb 0)"
  unfolding known_def
  by (rule exI [of _ 1]) (simp add: sample_sdb_def sample_bib_def bib_matches_def sample_segment_tuple_def)

lemmas sample_segment_facts = sample_filter_env_ok sample_sdb_ok [OF expires_ok_expired_cb, of 0] sample_segment_ready(1,2,3)

text \<open>
  C6: on a well-formed state, filtering and updating never faults on a packet whose headers could be read. It gives back
  every reference it takes, whatever references others hold, keeps the invariant of all tables, and touches one
  session of the database at most.
\<close>

theorem filtering_safe:
  assumes "filter_env_ok env" "sess_ok B K s" "pkt_ready pkt tuple"
  shows "\<exists>v s' p. filtering_and_updating env pkt tuple s = Some (v, s') \<and> sess_ok B K s' \<and> jiffies s' = jiffies s \<and>
    (\<forall>proto q. q \<noteq> p \<longrightarrow> db_view proto s' q = db_view proto s q)"
proof (cases rule: filtering_ok [OF assms])
  case (1 v s')
  obtain p where "db_frame p s s'" by (rule filter_effect_frame [OF 1(5)])
  then show ?thesis using 1(3,4) by (auto simp: db_frame_def)
next
  case 2
  then show ?thesis using assms(2) by auto
next
  case (3 v s')
  then show ?thesis by (auto simp: db_same_def)
qed

theorem filtering_safe_witness:
  "\<exists>v s' p. filtering_and_updating (sample_filter_env L4PROTO_TCP) (sample_segment 2) (sample_segment_tuple 8) (sample_sdb expired_cb 0) = Some (v, s') \<and>
    sess_ok {#1#} {#} s' \<and> jiffies s' = 0 \<and> (\<forall>proto q. q \<noteq> p \<longrightarrow> db_view proto s' q = db_view proto (sample_sdb expired_cb 0) q)"
proof -
  have "jiffies (sample_sdb expired_cb 0) = 0" by (simp add: sample_sdb_def)
  then show ?thesis using filtering_safe [OF sample_filter_env_ok sample_sdb_ok [OF expires_ok_expired_cb, of 0] sample_segment_ready(1)] by simp
qed

text \<open>
  C7: a UDP packet or an ICMP query that filtering lets pass leaves behind a session for its tuple whose lifetime starts
  now. If the tuple had a session, that one is renewed and nothing else of it changes. In any other case the
  sessions stay as they were.
\<close>

theorem filtering_simple_correct:
  assumes "filter_env_ok env" "sess_ok B K s" "pkt_ready pkt tuple" "translatable env pkt tuple" "icmp_error pkt = Some False"
    "pkt_l4_proto pkt \<in> {L4PROTO_UDP, L4PROTO_ICMP}"
  shows "\<exists>v s'. filtering_and_updating env pkt tuple s = Some (v, s') \<and>
    (if v = VERDICT_CONTINUE then refreshed tuple s s' else v \<in> {VERDICT_DROP, VERDICT_ACCEPT} \<and> db_same s s')"
proof -
  have proto: "t_l4_proto tuple \<in> {L4PROTO_UDP, L4PROTO_ICMP}" using assms(3,5,6) by (simp add: pkt_ready_def)
  obtain v s' where r: "filtering_and_updating env pkt tuple s = Some (v, s')" "filter_effect env pkt tuple v s s'"
    by (rule filtering_ok [OF assms(1-3)]) (use assms(4,5) in auto)
  then show ?thesis using proto by (cases v) (auto simp: filter_effect_def simple_effect_def)
qed

theorem filtering_simple_correct_witness:
  "\<exists>v s'. filtering_and_updating (sample_filter_env L4PROTO_UDP) (sample_packet\<lparr>pkt_l4_proto := L4PROTO_UDP\<rparr>)
      ((sample_segment_tuple 8)\<lparr>t_l4_proto := L4PROTO_UDP\<rparr>) (sample_sdb expired_cb 0) = Some (v, s') \<and>
    (if v = VERDICT_CONTINUE then refreshed ((sample_segment_tuple 8)\<lparr>t_l4_proto := L4PROTO_UDP\<rparr>) (sample_sdb expired_cb 0) s'
     else v \<in> {VERDICT_DROP, VERDICT_ACCEPT} \<and> db_same (sample_sdb expired_cb 0) s')"
proof -
  let ?pkt = "sample_packet\<lparr>pkt_l4_proto := L4PROTO_UDP\<rparr>" and ?tuple = "(sample_segment_tuple 8)\<lparr>t_l4_proto := L4PROTO_UDP\<rparr>"
  have err: "icmp_error ?pkt = Some False" by (simp add: icmp_error_def sample_packet_def pkt_is_icmp4_error_def)
  then have "pkt_ready ?pkt ?tuple" by (simp add: pkt_ready_def sample_segment_tuple_def sample_packet_def)
  moreover have "translatable (sample_filter_env L4PROTO_UDP) ?pkt ?tuple"
    using sample_pool_contains [of L4PROTO_UDP sample_ta4] by (simp add: translatable_def sample_segment_tuple_def sample_packet_def sample_ta4_def)
  ultimately show ?thesis
    using filtering_simple_correct [OF sample_filter_env_ok sample_sdb_ok [OF expires_ok_expired_cb, of 0] _ _ err] by simp
qed

lemma tcp_not_icmp: "pkt_l4_proto pkt = L4PROTO_TCP \<Longrightarrow> icmp_error pkt = Some False"
  by (simp add: icmp_error_def pkt_is_icmp4_error_def pkt_is_icmp6_error_def split: l3_protocol.split)

lemma filtering_tcp_effect:
  assumes "filter_env_ok env" "sess_ok B K s" "pkt_ready pkt tuple" "translatable env pkt tuple" "pkt_l4_proto pkt = L4PROTO_TCP"
    "pkt_tcp_hdr pkt = Some h"
  obtains v s' where "filtering_and_updating env pkt tuple s = Some (v, s')" "tcp_effect env tuple pkt h v s s'"
proof -
  note err = tcp_not_icmp [OF assms(5)]
  have proto: "t_l4_proto tuple = L4PROTO_TCP" using assms(3,5) err by (simp add: pkt_ready_def)
  obtain v s' where r: "filtering_and_updating env pkt tuple s = Some (v, s')" "filter_effect env pkt tuple v s s'"
    by (rule filtering_ok [OF assms(1-3)]) (use assms(4) err in auto)
  then show ?thesis using that proto assms(6) by (simp add: filter_effect_def)
qed

lemma filtering_tcp_known:
  assumes "filter_env_ok env" "sess_ok B K s" "pkt_ready pkt tuple" "translatable env pkt tuple" "pkt_l4_proto pkt = L4PROTO_TCP"
    "pkt_tcp_hdr pkt = Some h" "\<not> unmatched tuple s"
  obtains s' where "filtering_and_updating env pkt tuple s = Some (VERDICT_CONTINUE, s')" "stepped tuple pkt s s'"
  by (rule filtering_tcp_effect [OF assms(1-6)]) (use assms(7) that in \<open>auto simp: tcp_effect_def split: verdict.splits\<close>)

text \<open>
  C2: a TCP packet of a connection that is known always passes. It moves exactly the session of its tuple, along the
  edges of the state machine of RFC 6146, and renews the lifetime the RFC says, if any. The packet comes from
  either side.
\<close>

theorem filtering_tcp_refines:
  assumes "filter_env_ok env" "sess_ok B K s" "pkt_ready pkt tuple" "translatable env pkt tuple" "pkt_l4_proto pkt = L4PROTO_TCP"
    "pkt_tcp_hdr pkt = Some h" "db_view L4PROTO_TCP s p = Some e" "db_matches tuple e"
  shows "\<exists>s' e'. filtering_and_updating env pkt tuple s = Some (VERDICT_CONTINUE, s') \<and> db_view L4PROTO_TCP s' p = Some e' \<and>
    rfc6146_step (pkt_l3_proto pkt) h (jiffies s) e e' \<and> (\<forall>proto q. q \<noteq> p \<longrightarrow> db_view proto s' q = db_view proto s q)"
proof -
  have proto: "t_l4_proto tuple = L4PROTO_TCP" using assms(3,5) tcp_not_icmp by (simp add: pkt_ready_def)
  have "\<not> unmatched tuple s" using assms(7,8) proto by (auto simp: unmatched_def)
  then obtain s' where r: "filtering_and_updating env pkt tuple s = Some (VERDICT_CONTINUE, s')" "stepped tuple pkt s s'"
    by (rule filtering_tcp_known [OF assms(1-6)])
  obtain q e1 e2 where q: "db_frame q s s'" "db_view L4PROTO_TCP s q = Some e1" "db_matches tuple e1" "db_view L4PROTO_TCP s' q = Some e2"
    "rfc6146_step (pkt_l3_proto pkt) h (jiffies s) e1 e2" by (rule stepped_rfc6146 [OF assms(2,6) r(2)])
  have "q = p" using db_unique [OF assms(2), of tuple q e1 p e] q(2,3) assms(7,8) proto by simp
  then show ?thesis using r(1) q assms(7) by (auto simp: db_frame_def)
qed

theorem filtering_tcp_refines_witness:
  "\<exists>s' e'. filtering_and_updating (sample_filter_env L4PROTO_TCP) (sample_segment 1) (sample_segment_tuple 9) (sample_sdb expired_cb 0) =
     Some (VERDICT_CONTINUE, s') \<and> db_view L4PROTO_TCP s' 5 = Some e' \<and> se_state e' = V4_FIN_RCV"
proof -
  obtain h where h: "pkt_tcp_hdr (sample_segment 1) = Some h" "th_flags h = 1" by (rule sample_segment_hdr)
  have fin: "th_fin h" using h(2) by (simp add: th_fin_def)
  have e: "db_view L4PROTO_TCP (sample_sdb expired_cb 0) 5 = Some (sample_est_session\<lparr>se_refcounter := 0\<rparr>)"
    "db_matches (sample_segment_tuple 9) (sample_est_session\<lparr>se_refcounter := 0\<rparr>)" by (simp_all add: sample_session_view sample_matches)
  have "se_state e' = V4_FIN_RCV" if "rfc6146_step L3PROTO_IPV4 h now (sample_est_session\<lparr>se_refcounter := 0\<rparr>) e'" for e' now
    using that fin by (auto simp: rfc6146_step_def rfc6146_next_def rfc6146_simps sample_est_session_def split: option.splits)
  then show ?thesis
    using filtering_tcp_refines [OF sample_segment_facts h(1) e] sample_segment_ready(4) [of 1] by metis
qed

text \<open>
  C8: a TCP packet of a connection that is not known opens one if it is a SYN and passes: the session starts in the
  INIT state of its side, with the transitory lifetime. From IPv4, this takes a BIB entry for the destination, and
  both policies must allow it; or else the packet may be stored until the other side shows up. Packets that are
  not SYN pass if there is a BIB entry, and never change the sessions.
\<close>

theorem filtering_tcp_opens:
  assumes "filter_env_ok env" "sess_ok B K s" "pkt_ready pkt tuple" "translatable env pkt tuple" "pkt_l4_proto pkt = L4PROTO_TCP"
    "pkt_tcp_hdr pkt = Some h" "unmatched tuple s"
  shows "\<exists>v s'. filtering_and_updating env pkt tuple s = Some (v, s') \<and>
    (if \<not> th_syn h then v = (if known tuple s then VERDICT_CONTINUE else VERDICT_DROP) \<and> db_same s s'
     else v = VERDICT_CONTINUE \<and> opened (init_state (pkt_l3_proto pkt)) tuple s s' \<and>
         (pkt_l3_proto pkt = L3PROTO_IPV4 \<longrightarrow> known tuple s \<and> \<not> config_get_addr_dependent_filtering (fe_cfg env) \<and>
            \<not> config_get_drop_external_connections (fe_cfg env)) \<or>
       v = VERDICT_STOLEN \<and> pkt_l3_proto pkt = L3PROTO_IPV4 \<and> waiting pkt s s' \<and> db_same s s' \<and>
         (\<not> known tuple s \<or> config_get_addr_dependent_filtering (fe_cfg env)) \<or>
       v = VERDICT_DROP \<and> db_same s s')"
proof -
  have l3: "t_l3_proto tuple = pkt_l3_proto pkt" using assms(3) by (simp add: pkt_ready_def)
  obtain v s' where r: "filtering_and_updating env pkt tuple s = Some (v, s')" "tcp_effect env tuple pkt h v s s'"
    by (rule filtering_tcp_effect [OF assms(1-6)])
  then show ?thesis using assms(7) l3 by (intro exI [of _ v] exI [of _ s']) (cases v; auto simp: tcp_effect_def split: if_splits)
qed

theorem filtering_tcp_opens_witness:
  "\<exists>s'. filtering_and_updating (sample_filter_env L4PROTO_TCP) (sample_segment 16) (sample_segment_tuple 8) (sample_sdb expired_cb 0) =
     Some (VERDICT_CONTINUE, s') \<and> db_same (sample_sdb expired_cb 0) s'"
proof -
  obtain h where h: "pkt_tcp_hdr (sample_segment 16) = Some h" "th_flags h = 16" by (rule sample_segment_hdr)
  have syn: "\<not> th_syn h" using h(2) by (simp add: th_syn_def bit_numeral_rec)
  have un: "unmatched (sample_segment_tuple 8) (sample_sdb expired_cb 0)"
    using sample_session_view sample_matches [of 8] by (simp add: unmatched_def sample_segment_tuple_def)
  show ?thesis using filtering_tcp_opens [OF sample_segment_facts h(1) un] syn sample_known [of 8] by simp
qed



section \<open>Steps 1 to 3\<close>

text \<open>The part of \<^verbatim>\<open>core_common\<close> that decides on the tuple of the translated packet.\<close>

definition nat64_steps :: "filter_env \<Rightarrow> packet \<Rightarrow> 'a session_db_scheme \<Rightarrow> ((verdict + tuple) \<times> 'a session_db_scheme) option" where
  "nat64_steps env pkt s =
     do { (r, s1) \<leftarrow> determine_in_tuple env pkt s;
          (case r of
             Inl result \<Rightarrow> Some (Inl result, s1)
           | Inr tuple_in \<Rightarrow>
               do { (result, s2) \<leftarrow> filtering_and_updating env pkt tuple_in s1;
                    (if result \<noteq> VERDICT_CONTINUE then Some (Inl result, s2) else compute_out_tuple env tuple_in s2) }) }"

definition pkt_layout :: "packet \<Rightarrow> bool" where
  "pkt_layout pkt \<longleftrightarrow> (pkt_l3_proto pkt = L3PROTO_IPV6 \<longrightarrow> sk_network_offset (pkt_skb pkt) + 40 \<le> pkt_transport_offset pkt)"

lemma filtering_keeps:
  assumes "filter_env_ok env" "sess_ok B K s" "pkt_ready pkt tuple" "filtering_and_updating env pkt tuple s = Some (v, s')"
  shows "sess_ok B K s'"
  by (rule filtering_ok [OF assms(1-3)]) (use assms(2,4) in auto)

text \<open>
  C3: the first three steps take a packet apart, find or make its session, and answer with the other side of that
  session, which goes through a BIB entry: from IPv6, the packet leaves with the IPv4 address that the BIB maps its source to.
  From IPv4, it leaves for the IPv6 address that the BIB maps its destination to. No reference is left over.
\<close>

theorem nat64_steps_correct:
  assumes "filter_env_ok env" "sess_ok B K s" "pkt_layout pkt" "determine_in_tuple env pkt s = Some (Inr tuple, s1)"
  shows "\<exists>r s'. nat64_steps env pkt s = Some (r, s') \<and> sess_ok B K s' \<and>
    (\<forall>out. r = Inr out \<longrightarrow> t_l4_proto out = t_l4_proto tuple \<and>
       (\<exists>p e x b. db_view (t_l4_proto tuple) s' p = Some e \<and> db_matches tuple e \<and> out = other_side tuple e \<and>
          bibs s' x = Some b \<and> se_bib e = Some x \<and> bib_matches tuple b \<and>
          (case t_l3_proto tuple of L3PROTO_IPV6 \<Rightarrow> t_src out = Addr4 (b_ipv4 b) | L3PROTO_IPV4 \<Rightarrow> t_dst out = Addr6 (b_ipv6 b))))"
proof -
  have s1: "s1 = s" and ready: "pkt_ready pkt tuple"
    using determine_in_tuple_ready [OF assms(4)] assms(3) by (simp_all add: pkt_layout_def)
  obtain v s2 where f: "filtering_and_updating env pkt tuple s = Some (v, s2)" "sess_ok B K s2"
    by (rule filtering_ok [OF assms(1,2) ready]) (use assms(2) in auto)
  note run = nat64_steps_def assms(4) s1 f(1)
  show ?thesis
  proof (cases "v = VERDICT_CONTINUE")
    case False
    then show ?thesis using f(2) by (simp add: run)
  next
    case True
    show ?thesis
    proof (cases rule: compute_out_tuple_ok [OF filter_env_okD(2) [OF assms(1)] f(2), of tuple])
      case 1
      then show ?thesis using f(2) True by (simp add: run)
    next
      case (2 p e s3)
      have v: "db_view (t_l4_proto tuple) s3 p = Some e" using 2(1,5) by (simp add: db_same_def)
      obtain x b where b: "se_bib e = Some x" "bibs s3 x = Some b" "b_l4_proto b = t_l4_proto tuple" "b_ipv6 b = se_remote6 e"
        "b_ipv4 b = se_local4 e" "bib_matches tuple b" by (rule db_view_known [OF 2(4) v 2(2)])
      have "nat64_steps env pkt s = Some (Inr (other_side tuple e), s3)" using 2(3) True by (simp add: run)
      moreover have "t_l4_proto (other_side tuple e) = t_l4_proto tuple" by (simp add: other_side_def split: l3_protocol.split)
      moreover have "case t_l3_proto tuple of L3PROTO_IPV6 \<Rightarrow> t_src (other_side tuple e) = Addr4 (b_ipv4 b)
          | L3PROTO_IPV4 \<Rightarrow> t_dst (other_side tuple e) = Addr6 (b_ipv6 b)"
        using b(4,5) by (simp add: other_side_def split: l3_protocol.split)
      ultimately show ?thesis using 2(2,4) v b(1,2,6) by auto
    qed
  qed
qed

theorem nat64_steps_correct_witness:
  "\<exists>r s'. nat64_steps (sample_filter_env L4PROTO_TCP) (sample_segment 1) (sample_sdb expired_cb 0) = Some (r, s') \<and> sess_ok {#1#} {#} s'"
proof -
  obtain h where h: "pkt_tcp_hdr (sample_segment 1) = Some h" by (rule sample_segment_hdr)
  have "pkt_ip4_hdr (sample_segment 1) \<noteq> None"
    by (simp add: pkt_ip4_hdr_def sample_segment_def skb_deref_def skb_len_def sample_skb_def)
  then obtain tuple where t: "determine_in_tuple (sample_filter_env L4PROTO_TCP) (sample_segment 1) (sample_sdb expired_cb 0) =
      Some (Inr tuple, sample_sdb expired_cb 0)"
    using h by (auto simp: determine_in_tuple_def ipv4_tcp_def sample_segment_ready(3,4))
  have "pkt_layout (sample_segment 1)" by (simp add: pkt_layout_def sample_segment_ready(4))
  then show ?thesis
    using nat64_steps_correct [OF sample_filter_env_ok sample_sdb_ok [OF expires_ok_expired_cb, of 0] _ t] by blast
qed

section \<open>All executions\<close>

text \<open>
  Everything that changes the state: packets, timers that fire, the clock, and requests of the administrator. Each event brings
  its own environment, since the configuration and the outcome of allocations may differ every time.
\<close>

datatype event =
  Packet filter_env packet tuple
| Session_timer sess_env l4_protocol expirer
| Queue_timer sess_env
| Clock u64
| Pool4_removed "ptr rb_ops" ipv4_prefix port_range
| Pool6_removed "ptr rb_ops" ipv6_prefix
| Sessions_flushed "ptr rb_ops"
| Timeouts_changed sess_env
| Static_added filter_env request_bib_add

definition handle :: "event \<Rightarrow> session_db \<Rightarrow> session_db option" where
  "handle ev s =
     (case ev of
        Packet env pkt tuple \<Rightarrow> map_option snd (filtering_and_updating env pkt tuple s)
      | Session_timer env proto x \<Rightarrow> sess_on_table (session_timer_fires env x) proto s
      | Queue_timer env \<Rightarrow> pktq_cleaner_timer env (s\<lparr>pq_timer := None\<rparr>)
      | Clock n \<Rightarrow> Some (s\<lparr>jiffies := n\<rparr>)
      | Pool4_removed ops prefix ports \<Rightarrow> sessiondb_delete_taddr4s ops prefix ports s
      | Pool6_removed ops prefix \<Rightarrow> sessiondb_delete_taddr6s ops prefix s
      | Sessions_flushed ops \<Rightarrow> sessiondb_flush ops s
      | Timeouts_changed env \<Rightarrow> sessiondb_update_timers env s
      | Static_added env request \<Rightarrow> map_option snd (add_static_route env request s))"

definition event_ok :: "event \<Rightarrow> bool" where
  "event_ok ev \<longleftrightarrow>
     (case ev of
        Packet env pkt tuple \<Rightarrow> filter_env_ok env \<and> pkt_ready pkt tuple
      | Session_timer env proto x \<Rightarrow> sess_env_ok env \<and> proto \<noteq> L4PROTO_OTHER \<and> (x = Est_timer \<or> proto = L4PROTO_TCP)
      | Queue_timer env \<Rightarrow> sess_env_ok env
      | Clock n \<Rightarrow> True
      | Pool4_removed ops prefix ports \<Rightarrow> rb_laws ops \<and> prefix4_wf prefix
      | Pool6_removed ops prefix \<Rightarrow> rb_laws ops \<and> prefix6_wf prefix
      | Sessions_flushed ops \<Rightarrow> rb_laws ops
      | Timeouts_changed env \<Rightarrow> True
      | Static_added env request \<Rightarrow> filter_env_ok env \<and> ra_l4_proto request \<noteq> L4PROTO_OTHER)"

lemma sess_ok_clock: "sess_ok B K (s\<lparr>jiffies := n\<rparr>) = sess_ok B K s"
proof -
  have g: "bib_get_table q (s\<lparr>jiffies := n\<rparr>) = bib_get_table q s" for q by (cases q) (simp_all add: bib_get_table_def)
  have t: "sess_get_table q (s\<lparr>jiffies := n\<rparr>) = sess_get_table q s" for q by (cases q) (simp_all add: sess_get_table_def)
  have w: "bib_wf (s\<lparr>jiffies := n\<rparr>) = bib_wf s" by (simp add: bib_wf_def bib_db_ok_def bib_live_def g)
  have v: "sview (s\<lparr>jiffies := n\<rparr>) = sview s" by (simp add: sview_def fun_eq_iff)
  show ?thesis
    by (simp add: sess_ok_def pktq_ok_def pktq_wf_def node_refs_def sess_count_def pktq_timer_ok_def refs_ok_def bib_count_def v w t sess_refs_def)
qed

lemma handle_ok:
  assumes ok: "sess_ok B {#} s" and ev: "event_ok ev"
  shows "\<exists>s' B'. handle ev s = Some s' \<and> sess_ok B' {#} s'"
proof (cases ev)
  case (Packet env pkt tuple)
  then have e: "filter_env_ok env" "pkt_ready pkt tuple" using ev by (simp_all add: event_ok_def)
  obtain v s' where "filtering_and_updating env pkt tuple s = Some (v, s')" "sess_ok B {#} s'"
    by (rule filtering_ok [OF e(1) ok e(2)]) (use ok in auto)
  then show ?thesis using Packet by (auto simp: handle_def)
next
  case (Session_timer env proto x)
  then have e: "sess_env_ok env" "proto \<noteq> L4PROTO_OTHER" "x = Est_timer \<or> proto = L4PROTO_TCP" using ev by (simp_all add: event_ok_def)
  obtain t where t: "sess_get_table proto s = Some t" using e(2) sess_get_table_None_iff [of proto s] by auto
  then have "cbs_ok proto t" using ok by (simp add: sess_ok_def)
  then obtain cb tmo where c: "et_decide_fate_cb (get_expirer x t) = Some cb" "et_get_timeout (get_expirer x t) = Some tmo"
    using e(3) unfolding cbs_ok_def by blast
  obtain s' where "sess_on_table (session_timer_fires env x) proto s = Some s'" "sess_ok B {#} s'"
    by (rule session_timer_ok [OF e(1) ok t c e(3) refl]) blast
  then show ?thesis using Session_timer by (auto simp: handle_def)
next
  case (Queue_timer env)
  then have e: "sess_env_ok env" using ev by (simp add: event_ok_def)
  show ?thesis by (rule pktq_timer_fires_ok [OF e ok]) (use Queue_timer in \<open>auto simp: handle_def\<close>)
next
  case (Clock n)
  then show ?thesis using ok by (auto simp: handle_def sess_ok_clock)
next
  case (Pool4_removed ops prefix ports)
  then have e: "rb_laws ops" "prefix4_wf prefix" using ev by (simp_all add: event_ok_def)
  show ?thesis by (rule sessiondb_delete_taddr4s_ok [OF e(1) ok e(2), of ports]) (use Pool4_removed in \<open>auto simp: handle_def\<close>)
next
  case (Pool6_removed ops prefix)
  then have e: "rb_laws ops" "prefix6_wf prefix" using ev by (simp_all add: event_ok_def)
  show ?thesis by (rule sessiondb_delete_taddr6s_ok [OF e(1) ok e(2)]) (use Pool6_removed in \<open>auto simp: handle_def\<close>)
next
  case (Sessions_flushed ops)
  then have e: "rb_laws ops" using ev by (simp add: event_ok_def)
  show ?thesis by (rule sessiondb_flush_ok [OF e ok]) (use Sessions_flushed in \<open>auto simp: handle_def\<close>)
next
  case (Timeouts_changed env)
  show ?thesis by (rule sessiondb_update_timers_ok [OF ok, of env]) (use Timeouts_changed in \<open>auto simp: handle_def\<close>)
next
  case (Static_added env request)
  then have e: "filter_env_ok env" "ra_l4_proto request \<noteq> L4PROTO_OTHER" using ev by (simp_all add: event_ok_def)
  obtain b where b: "pool4db_contains (pe_devs (fe_pool4 env)) (pe_pool4 (fe_pool4 env)) (ra_l4_proto request) (ra_addr4 request) = Some b"
    by (rule filter_env_pools [OF e(1)])
  show ?thesis
  proof (cases b)
    case True
    then show ?thesis by (cases rule: add_static_route_ok [OF e(1) ok e(2)]) (use b ok Static_added in \<open>auto simp: handle_def\<close>)
  next
    case False
    then show ?thesis using b ok Static_added by (auto simp: handle_def add_static_route_def)
  qed
qed

text \<open>The states the module can be in: \<^verbatim>\<open>filtering_init\<close> succeeds on memory that holds no entries, then events follow.\<close>

inductive reach :: "session_db \<Rightarrow> bool" where
  start: "filtering_init bib_cache kmalloc_ok random_byte tmp alloc_hash sess_cache s0 = Some (Ok, s) \<Longrightarrow> bibs s0 = Map.empty \<Longrightarrow>
    sessions s0 = Map.empty \<Longrightarrow> nodes s0 = Map.empty \<Longrightarrow> reach s"
| event: "reach s \<Longrightarrow> event_ok ev \<Longrightarrow> handle ev s = Some s' \<Longrightarrow> reach s'"

lemma filtering_init_ok:
  assumes init: "filtering_init bib_cache kmalloc_ok random_byte tmp alloc_hash sess_cache s0 = Some (Ok, s)"
    and empty: "bibs s0 = Map.empty" "sessions s0 = Map.empty" "nodes s0 = Map.empty"
  shows "sess_ok {#} {#} s"
proof -
  define s1 where "s1 = s0\<lparr>bib_tcp := bibtable_init, bib_udp := bibtable_init, bib_icmp := bibtable_init\<rparr>"
  define s2 where "s2 = s1\<lparr>secret_key := map random_byte [0..<128], next_ephemeral := tmp\<rparr>"
  have run: "sessiondb_init sess_cache expired_cb expired_cb s2 = (Ok, s)" and c: "sess_cache = Ok"
    using init by (auto simp: filtering_init_def bibdb_init_def bibentry_init_def palloc_init_def Let_def s1_def s2_def sessiondb_init_def
      Option.bind_eq_Some_conv split: if_splits option.splits prod.splits)
  have "bib_wf s2" by (rule bib_wf_empty) (simp_all add: s2_def s1_def empty)
  then have refs: "refs_ok {#} s2" by (simp add: refs_ok_def bib_count_def holders_def s2_def s1_def empty)
  have e2: "sessions s2 = Map.empty" "nodes s2 = Map.empty" by (simp_all add: s2_def s1_def empty)
  show ?thesis
    by (rule sessiondb_init_ok [OF refs e2 expires_ok_expired_cb expires_ok_expired_cb]) (use run c in auto)
qed

lemma reach_ok: "reach s \<Longrightarrow> \<exists>B. sess_ok B {#} s"
proof (induction rule: reach.induct)
  case (start bib_cache kmalloc_ok random_byte tmp alloc_hash sess_cache s0 s)
  then show ?case using filtering_init_ok by blast
next
  case (event s ev s')
  then show ?case using handle_ok by fastforce
qed


definition sample_start :: session_db where
  "sample_start = snd (the (filtering_init True True (\<lambda>i. word_of_nat i) 7 None Ok
     ((sample_sdb expired_cb 0)\<lparr>bibs := Map.empty, sessions := Map.empty\<rparr>)))"

lemma sample_start_reach: "reach sample_start"
proof -
  let ?s0 = "(sample_sdb expired_cb 0)\<lparr>bibs := Map.empty, sessions := Map.empty\<rparr>"
  have "\<exists>s. filtering_init True True (\<lambda>i. word_of_nat i) 7 None Ok ?s0 = Some (Ok, s)"
    by (simp add: filtering_init_def bibdb_init_def bibentry_init_def palloc_init_def Let_def sessiondb_init_def pktqueue_init_def)
  then have "filtering_init True True (\<lambda>i. word_of_nat i) 7 None Ok ?s0 = Some (Ok, sample_start)"
    by (auto simp: sample_start_def)
  then show ?thesis by (rule reach.start) (simp_all add: sample_sdb_def)
qed



text \<open>A static entry is added, and a SYN for it arrives.\<close>

definition sample_opened :: "session_db option" where
  "sample_opened =
     do { s1 \<leftarrow> handle (Static_added (sample_filter_env L4PROTO_TCP)
                        \<lparr>ra_l4_proto = L4PROTO_TCP, ra_addr6 = sample_ta6, ra_addr4 = sample_ta4\<rparr>) sample_start;
          handle (Packet (sample_filter_env L4PROTO_TCP) (sample_segment 2) (sample_segment_tuple 8)) s1 }"

lemma sample_opened_reach: "sample_opened = Some s \<Longrightarrow> reach s"
  using sample_filter_env_ok sample_segment_ready(1)
  by (auto simp: sample_opened_def Option.bind_eq_Some_conv event_ok_def intro!: reach.event [OF reach.event [OF sample_start_reach]])


end
