(* ===== verification/Spec2Isabelle.thy ===== *)
theory Spec2Isabelle
  imports Rfc6052 Stateful
begin

text \<open>
  A verification library for Jool, the NAT64 and SIIT translator for Linux. The translator turns
  IPv6 packets into IPv4 packets and back; stateless (SIIT) instances translate addresses with
  tables, stateful (NAT64) instances keep bindings and sessions.

  Theories: \<open>Jool_Prelude\<close> (shared types and lemmas), \<open>Addresses\<close> (\<^verbatim>\<open>address.c\<close>, \<^verbatim>\<open>types.c\<close>),
  \<open>Pool6\<close> (\<^verbatim>\<open>pool6.c\<close>), \<open>Rfc6052\<close> (\<^verbatim>\<open>rfc6052.c\<close>).
\<close>

end
